(* ===== verification/Prelude.thy ===== *)
theory Prelude
  imports Main "HOL-Library.Word"
begin

text \<open>
  The shared prelude: bytes and C strings, the status codes of
  \<^verbatim>\<open>include/gspro/types.h\<close>, the ASCII helpers of \<^verbatim>\<open>src/gs_json.h\<close>,
  \<^verbatim>\<open>copy_bounded\<close>, and the fact collections the component theories fill.

  A byte (\<^verbatim>\<open>uint8_t\<close> or \<^verbatim>\<open>char\<close>: the same eight bits) is a HOL
  \<^typ>\<open>char\<close>, so that wire text is a \<^typ>\<open>string\<close> and the source's literals read as
  they do in C; \<open>ord b\<close> is the byte's unsigned value. A \<^verbatim>\<open>char[N]\<close> field is the C
  string it holds, that is the bytes before its first NUL (\<open>cstr\<close>).
\<close>

unbundle bit_operations_syntax

named_theorems cursor_simps \<open>how the operations of the JSON reader move the cursor\<close>
named_theorems writer_simps \<open>what the writers append\<close>

section \<open>Bytes and C strings\<close>

type_synonym byte = char
type_synonym bytes = "char list"
type_synonym u8 = "8 word"
type_synonym u16 = "16 word"
type_synonym u32 = "32 word"
type_synonym u64 = "64 word"
type_synonym gsp_time_us = int
type_synonym gsp_conn_id = u32

abbreviation ord :: "byte \<Rightarrow> int" where
  "ord \<equiv> of_char"

abbreviation NUL :: byte where "NUL \<equiv> CHR 0x00"
abbreviation TAB :: byte where "TAB \<equiv> CHR 0x09"
abbreviation LF :: byte where "LF \<equiv> CHR 0x0A"
abbreviation CR :: byte where "CR \<equiv> CHR 0x0D"
abbreviation SPACE :: byte where "SPACE \<equiv> CHR '' ''"
abbreviation QUOTE :: byte where "QUOTE \<equiv> CHR 0x22"
abbreviation BACKSLASH :: byte where "BACKSLASH \<equiv> CHR 0x5C"
abbreviation LBRACE :: byte where "LBRACE \<equiv> CHR ''{''"
abbreviation RBRACE :: byte where "RBRACE \<equiv> CHR ''}''"

text \<open>The C string an array of bytes holds.\<close>

definition cstr :: "bytes \<Rightarrow> bytes" where
  "cstr s = takeWhile (\<lambda>c. c \<noteq> NUL) s"

lemma NUL_notin_cstr [simp]: "NUL \<notin> set (cstr s)"
  by (auto simp: cstr_def dest: set_takeWhileD)

lemma cstr_id [simp]: "NUL \<notin> set s \<Longrightarrow> cstr s = s"
  by (auto simp: cstr_def takeWhile_eq_all_conv)

lemma length_cstr [simp]: "length (cstr s) \<le> length s"
  by (simp add: cstr_def length_takeWhile_le)

lemma cstr_idem [simp]: "cstr (cstr s) = cstr s"
  by simp

text \<open>
  \<^verbatim>\<open>copy_bounded\<close> (defined alike in \<^verbatim>\<open>src/gs_server.c\<close> and
  \<^verbatim>\<open>record/gs_record.c\<close>): the C string that fits \<open>dst_size\<close> bytes with its NUL. A
  \<open>None\<close> source is the NULL pointer.
\<close>

definition copy_bounded :: "nat \<Rightarrow> bytes option \<Rightarrow> bytes" where
  "copy_bounded dst_size src =
     (case src of None \<Rightarrow> [] | Some s \<Rightarrow> take (dst_size - 1) (cstr s))"

lemma length_copy_bounded: "0 < n \<Longrightarrow> length (copy_bounded n s) < n"
  by (auto simp: copy_bounded_def split: option.splits)

lemma NUL_notin_copy_bounded [simp]: "NUL \<notin> set (copy_bounded n s)"
  by (auto simp: copy_bounded_def split: option.splits dest: in_set_takeD)

section \<open>Status codes\<close>

datatype gsp_status =
    GSP_OK
  | GSP_PENDING
  | GSP_ERR_INVALID_ARG
  | GSP_ERR_INVALID_STATE
  | GSP_ERR_NO_MEMORY
  | GSP_ERR_BUFFER_TOO_SMALL
  | GSP_ERR_NOT_SUPPORTED
  | GSP_ERR_TOO_MANY_CONNECTIONS
  | GSP_ERR_UNKNOWN_CONNECTION
  | GSP_ERR_MALFORMED
  | GSP_ERR_MESSAGE_TOO_LARGE
  | GSP_ERR_QUEUE_FULL
  | GSP_ERR_CLOSED

fun status_value :: "gsp_status \<Rightarrow> int" where
  "status_value GSP_OK = 0"
| "status_value GSP_PENDING = 1"
| "status_value GSP_ERR_INVALID_ARG = -1"
| "status_value GSP_ERR_INVALID_STATE = -2"
| "status_value GSP_ERR_NO_MEMORY = -3"
| "status_value GSP_ERR_BUFFER_TOO_SMALL = -4"
| "status_value GSP_ERR_NOT_SUPPORTED = -5"
| "status_value GSP_ERR_TOO_MANY_CONNECTIONS = -6"
| "status_value GSP_ERR_UNKNOWN_CONNECTION = -7"
| "status_value GSP_ERR_MALFORMED = -8"
| "status_value GSP_ERR_MESSAGE_TOO_LARGE = -9"
| "status_value GSP_ERR_QUEUE_FULL = -10"
| "status_value GSP_ERR_CLOSED = -11"

text \<open>The test \<open>st < GSP_OK\<close> the source makes on every status.\<close>

definition failed :: "gsp_status \<Rightarrow> bool" where
  "failed st \<longleftrightarrow> status_value st < status_value GSP_OK"

section \<open>ASCII helpers\<close>

definition gs_ascii_lower :: "byte \<Rightarrow> byte" where
  "gs_ascii_lower c =
     (if ord CHR ''A'' \<le> ord c \<and> ord c \<le> ord CHR ''Z''
      then char_of (ord c - ord CHR ''A'' + ord CHR ''a'') else c)"

text \<open>
  \<^verbatim>\<open>gs_ci_equal\<close> on two C strings: the loop stops at the first NUL of either, which is
  the end of either list here, and then compares what it stopped at.
\<close>

fun gs_ci_equal :: "bytes \<Rightarrow> bytes \<Rightarrow> bool" where
  "gs_ci_equal (a # as) (b # bs) =
     (if gs_ascii_lower a \<noteq> gs_ascii_lower b then False else gs_ci_equal as bs)"
| "gs_ci_equal [] [] = True"
| "gs_ci_equal (a # as) [] = False"
| "gs_ci_equal [] (b # bs) = False"

definition gs_is_ws :: "byte \<Rightarrow> bool" where
  "gs_is_ws c \<longleftrightarrow> c = SPACE \<or> c = TAB \<or> c = LF \<or> c = CR"

lemma gs_ci_equal_iff: "gs_ci_equal a b \<longleftrightarrow> map gs_ascii_lower a = map gs_ascii_lower b"
  by (induction a b rule: gs_ci_equal.induct) auto

lemma gs_ci_equal_refl [simp]: "gs_ci_equal a a"
  by (simp add: gs_ci_equal_iff)

lemma gs_ci_equal_sym: "gs_ci_equal a b \<longleftrightarrow> gs_ci_equal b a"
  by (auto simp: gs_ci_equal_iff)

lemma gs_ci_equal_length: "gs_ci_equal a b \<Longrightarrow> length a = length b"
  by (auto simp: gs_ci_equal_iff dest: map_eq_imp_length_eq)

section \<open>Words\<close>

lemma unat_inc_u32: "unat (w :: u32) + 1 < 2 ^ 32 \<Longrightarrow> unat (w + 1) = unat w + 1"
  by (subst unat_word_ariths) simp

lemma unat_dec_u32: "(w :: u32) \<noteq> 0 \<Longrightarrow> unat (w - 1) = unat w - 1"
  by (metis unat_minus_one)

lemma and_exp_full: "n < LENGTH('a) \<Longrightarrow> w AND 2 ^ n = 2 ^ n \<longleftrightarrow> bit w n" for w :: "'a::len word"
proof
  assume "n < LENGTH('a)" "w AND 2 ^ n = 2 ^ n"
  then show "bit w n"
    by (metis bit_and_iff bit_exp_iff possible_bit_word)
next
  assume "bit w n"
  then show "w AND 2 ^ n = 2 ^ n"
    by (intro bit_word_eqI) (auto simp: bit_simps)
qed

lemma and_or_full: "w AND (x OR y) = x OR y \<longleftrightarrow> w AND x = x \<and> w AND y = y" for w :: "'a::len word"
  by (auto simp: bit_eq_iff bit_and_iff bit_or_iff)

lemma or_absorb_left: "a OR b = b \<Longrightarrow> a OR (b OR c) = b OR c" for a :: "'a::len word"
  by (metis or.assoc)

text \<open>A flag word that has no bit outside a mask.\<close>

definition within :: "'a::len word \<Rightarrow> 'a word \<Rightarrow> bool" where
  "within m w \<longleftrightarrow> w OR m = m"

lemma within_0 [simp]: "within m 0"
  by (simp add: within_def)

lemma within_or: "within m a \<Longrightarrow> within m b \<Longrightarrow> within m (a OR b)"
  by (simp add: within_def or.assoc)

lemma within_clear: "within m w \<Longrightarrow> \<not> bit m i \<Longrightarrow> \<not> bit w i"
  by (metis bit_or_iff within_def)

end
