(* ===== verification/Framer.thy ===== *)
theory Framer
  imports Prelude
begin

text \<open>
  The incremental framer of \<^verbatim>\<open>src/gs_frame.h\<close> and its stateless driver
  \<^verbatim>\<open>gsp_frame_find\<close> of \<^verbatim>\<open>src/gs_frame.c\<close>. The specification is a grammar of
  string-aware balanced text (\<open>balanced\<close>), and the driver is shown to find exactly the
  first object of that grammar.
\<close>

section \<open>The framer\<close>

datatype gs_frame_step =
    GS_FRAME_SKIP | GS_FRAME_OPEN | GS_FRAME_INSIDE | GS_FRAME_CLOSE | GS_FRAME_GARBAGE

record gs_framer =
  fr_depth :: u32
  fr_in_string :: bool
  fr_escape :: bool

definition gs_framer_reset :: gs_framer where
  "gs_framer_reset = \<lparr>fr_depth = 0, fr_in_string = False, fr_escape = False\<rparr>"

definition gs_framer_in_message :: "gs_framer \<Rightarrow> bool" where
  "gs_framer_in_message f \<longleftrightarrow> fr_depth f > 0"

definition gs_framer_feed :: "gs_framer \<Rightarrow> byte \<Rightarrow> gs_framer \<times> gs_frame_step" where
  "gs_framer_feed f b =
     (if fr_depth f = 0 then
        (if b = SPACE \<or> b = TAB \<or> b = LF \<or> b = CR then (f, GS_FRAME_SKIP)
         else if b \<noteq> LBRACE then (f, GS_FRAME_GARBAGE)
         else (f\<lparr>fr_depth := 1\<rparr>, GS_FRAME_OPEN))
      else if fr_in_string f then
        (if fr_escape f then (f\<lparr>fr_escape := False\<rparr>, GS_FRAME_INSIDE)
         else if b = BACKSLASH then (f\<lparr>fr_escape := True\<rparr>, GS_FRAME_INSIDE)
         else if b = QUOTE then (f\<lparr>fr_in_string := False\<rparr>, GS_FRAME_INSIDE)
         else (f, GS_FRAME_INSIDE))
      else if b = QUOTE then (f\<lparr>fr_in_string := True\<rparr>, GS_FRAME_INSIDE)
      else if b = LBRACE then (f\<lparr>fr_depth := fr_depth f + 1\<rparr>, GS_FRAME_INSIDE)
      else if b = RBRACE then
        (if fr_depth f - 1 = 0 then (f\<lparr>fr_depth := fr_depth f - 1\<rparr>, GS_FRAME_CLOSE)
         else (f\<lparr>fr_depth := fr_depth f - 1\<rparr>, GS_FRAME_INSIDE))
      else (f, GS_FRAME_INSIDE))"

section \<open>The stateless half\<close>

text \<open>
  The loop of \<^verbatim>\<open>gsp_frame_find\<close>, over the bytes from offset \<open>i\<close> on: the status and the
  two offsets it leaves in \<open>*start\<close> and \<open>*end\<close>.
\<close>

fun frame_find_loop ::
  "nat \<Rightarrow> gs_framer \<Rightarrow> nat \<Rightarrow> nat \<Rightarrow> bytes \<Rightarrow> gsp_status \<times> nat \<times> nat" where
  "frame_find_loop len f bg i [] = (GSP_PENDING, bg, len)"
| "frame_find_loop len f bg i (b # bs) =
     (case gs_framer_feed f b of
        (f', GS_FRAME_SKIP) \<Rightarrow> frame_find_loop len f' bg (i + 1) bs
      | (f', GS_FRAME_OPEN) \<Rightarrow> frame_find_loop len f' i (i + 1) bs
      | (f', GS_FRAME_INSIDE) \<Rightarrow> frame_find_loop len f' bg (i + 1) bs
      | (f', GS_FRAME_CLOSE) \<Rightarrow> (GSP_OK, bg, i + 1)
      | (f', GS_FRAME_GARBAGE) \<Rightarrow> (GSP_ERR_MALFORMED, i, len))"

definition gsp_frame_find :: "bytes \<Rightarrow> gsp_status \<times> nat \<times> nat" where
  "gsp_frame_find buf =
     frame_find_loop (length buf) gs_framer_reset (length buf) 0 buf"


section \<open>The grammar of framed text\<close>

text \<open>
  The bytes between the quotes of a string literal: a backslash takes the next byte with it,
  and no other quote occurs.
\<close>

inductive str_body :: "bytes \<Rightarrow> bool" where
  str_body_nil: "str_body []"
| str_body_chr: "c \<noteq> QUOTE \<Longrightarrow> c \<noteq> BACKSLASH \<Longrightarrow> str_body cs \<Longrightarrow> str_body (c # cs)"
| str_body_esc: "str_body cs \<Longrightarrow> str_body (BACKSLASH # c # cs)"

text \<open>
  The bytes between the braces of an object: braces nest, and braces inside a string literal
  do not count.
\<close>

inductive balanced :: "bytes \<Rightarrow> bool" where
  balanced_nil: "balanced []"
| balanced_chr: "c \<noteq> QUOTE \<Longrightarrow> c \<noteq> LBRACE \<Longrightarrow> c \<noteq> RBRACE \<Longrightarrow> balanced bs \<Longrightarrow> balanced (c # bs)"
| balanced_str: "str_body s \<Longrightarrow> balanced bs \<Longrightarrow> balanced (QUOTE # s @ QUOTE # bs)"
| balanced_obj: "balanced as \<Longrightarrow> balanced bs \<Longrightarrow> balanced (LBRACE # as @ RBRACE # bs)"

definition framed_object :: "bytes \<Rightarrow> bool" where
  "framed_object t \<longleftrightarrow> (\<exists>b. balanced b \<and> t = LBRACE # b @ [RBRACE])"

lemma balanced_append: "balanced as \<Longrightarrow> balanced bs \<Longrightarrow> balanced (as @ bs)"
  by (induction as rule: balanced.induct) (auto intro: balanced.intros)

lemma str_body_append: "str_body as \<Longrightarrow> str_body bs \<Longrightarrow> str_body (as @ bs)"
  by (induction as rule: str_body.induct) (auto intro: str_body.intros)

section \<open>Runs of the framer inside a message\<close>

text \<open>
  Feeding a run of bytes of which none opens, closes or is refused: the state afterwards,
  or \<^const>\<open>None\<close> when some byte is not \<^const>\<open>GS_FRAME_INSIDE\<close>.
\<close>

fun inside :: "gs_framer \<Rightarrow> bytes \<Rightarrow> gs_framer option" where
  "inside f [] = Some f"
| "inside f (b # bs) =
     (case gs_framer_feed f b of (f', GS_FRAME_INSIDE) \<Rightarrow> inside f' bs | _ \<Rightarrow> None)"

lemma inside_append:
  "inside f (xs @ ys) = Option.bind (inside f xs) (\<lambda>f'. inside f' ys)"
  by (induction f xs rule: inside.induct) (auto split: prod.splits gs_frame_step.splits)

lemma frame_find_loop_inside:
  "inside f xs = Some f' \<Longrightarrow>
   frame_find_loop len f bg i (xs @ ys) = frame_find_loop len f' bg (i + length xs) ys"
  by (induction f xs arbitrary: i rule: inside.induct)
    (auto split: prod.splits gs_frame_step.splits)

lemma frame_find_loop_ws:
  "\<forall>c \<in> set ws. gs_is_ws c \<Longrightarrow> fr_depth f = 0 \<Longrightarrow>
   frame_find_loop len f bg i (ws @ ys) = frame_find_loop len f bg (i + length ws) ys"
  by (induction ws arbitrary: i) (auto simp: gs_framer_feed_def gs_is_ws_def)

lemma framer_update_same [simp]:
  "\<not> fr_escape f \<Longrightarrow> f\<lparr>fr_escape := False\<rparr> = f"
  "\<not> fr_in_string f \<Longrightarrow> f\<lparr>fr_in_string := False\<rparr> = f"
  "fr_depth f = d \<Longrightarrow> f\<lparr>fr_depth := d\<rparr> = f"
  by (cases f; simp)+

lemma inside_str_body:
  "str_body s \<Longrightarrow> fr_depth f \<noteq> 0 \<Longrightarrow> fr_in_string f \<Longrightarrow> \<not> fr_escape f \<Longrightarrow> inside f s = Some f"
  by (induction s rule: str_body.induct) (auto simp: gs_framer_feed_def)

lemma inside_balanced:
  assumes "balanced b" "fr_depth f \<noteq> 0" "\<not> fr_in_string f" "\<not> fr_escape f"
    "unat (fr_depth f) + length b < 2 ^ 32"
  shows "inside f b = Some f"
  using assms
proof (induction b arbitrary: f rule: balanced.induct)
  case balanced_nil
  show ?case by simp
next
  case (balanced_chr c bs)
  then show ?case by (simp add: gs_framer_feed_def)
next
  case (balanced_str s bs)
  let ?q = "f\<lparr>fr_in_string := True\<rparr>"
  have "inside ?q s = Some ?q"
    using balanced_str by (simp add: inside_str_body)
  moreover have "gs_framer_feed f QUOTE = (?q, GS_FRAME_INSIDE)"
    "gs_framer_feed ?q QUOTE = (f, GS_FRAME_INSIDE)"
    using balanced_str.prems by (simp_all add: gs_framer_feed_def)
  ultimately show ?case
    using balanced_str by (simp add: inside_append)
next
  case (balanced_obj as bs)
  let ?d = "f\<lparr>fr_depth := fr_depth f + 1\<rparr>"
  have u: "unat (fr_depth f + 1) = unat (fr_depth f) + 1"
    using balanced_obj.prems(4) by (intro unat_inc_u32) simp
  then have nz: "fr_depth f + 1 \<noteq> 0"
    by (metis add_eq_0_iff_both_eq_0 one_neq_zero unat_0)
  have open_: "gs_framer_feed f LBRACE = (?d, GS_FRAME_INSIDE)"
    using balanced_obj.prems by (simp add: gs_framer_feed_def)
  have close: "gs_framer_feed ?d RBRACE = (f, GS_FRAME_INSIDE)"
    using balanced_obj.prems nz by (simp add: gs_framer_feed_def)
  have "inside ?d as = Some ?d"
    using balanced_obj.prems u nz by (intro balanced_obj.IH(1)) simp_all
  moreover have "inside f bs = Some f"
    using balanced_obj.prems by (intro balanced_obj.IH(2)) simp_all
  ultimately show ?case
    by (simp add: inside_append open_ close)
qed

section \<open>What a closing run looks like\<close>

text \<open>
  What remains of a message when \<open>d\<close> braces are open: \<open>d\<close> balanced runs, each ended by its
  closing brace.
\<close>

definition closes :: "nat \<Rightarrow> bytes \<Rightarrow> bool" where
  "closes d t \<longleftrightarrow>
     (\<exists>bs. length bs = d \<and> (\<forall>b \<in> set bs. balanced b) \<and> t = concat (map (\<lambda>b. b @ [RBRACE]) bs))"

lemma closes_Suc:
  "closes (Suc d) t \<longleftrightarrow> (\<exists>b t'. balanced b \<and> closes d t' \<and> t = b @ RBRACE # t')"
  unfolding closes_def
proof (intro iffI; elim exE conjE)
  fix bs assume "length bs = Suc d" "\<forall>b \<in> set bs. balanced b"
    "t = concat (map (\<lambda>b. b @ [RBRACE]) bs)"
  then show "\<exists>b t'. balanced b \<and> (\<exists>bs. length bs = d \<and> (\<forall>b \<in> set bs. balanced b) \<and>
      t' = concat (map (\<lambda>b. b @ [RBRACE]) bs)) \<and> t = b @ RBRACE # t'"
    by (cases bs) auto
next
  fix b t' bs assume "balanced b" "t = b @ RBRACE # t'" "length bs = d"
    "\<forall>b \<in> set bs. balanced b" "t' = concat (map (\<lambda>b. b @ [RBRACE]) bs)"
  then show "\<exists>bs. length bs = Suc d \<and> (\<forall>b \<in> set bs. balanced b) \<and>
      t = concat (map (\<lambda>b. b @ [RBRACE]) bs)"
    by (intro exI [of _ "b # bs"]) auto
qed

lemma closes_0 [simp]: "closes 0 t \<longleftrightarrow> t = []"
  by (simp add: closes_def)

text \<open>The same with an open string literal, or an open escape in one, in front.\<close>

definition closes_from :: "gs_framer \<Rightarrow> bytes \<Rightarrow> bool" where
  "closes_from f t \<longleftrightarrow>
     (if \<not> fr_in_string f then closes (unat (fr_depth f)) t
      else \<exists>s t'. str_body s \<and> closes (unat (fr_depth f)) t' \<and>
             (if fr_escape f then \<exists>c. t = c # s @ QUOTE # t' else t = s @ QUOTE # t'))"

text \<open>An escape is only ever pending inside a string, and a string only inside a message.\<close>

definition framer_ok :: "gs_framer \<Rightarrow> bool" where
  "framer_ok f \<longleftrightarrow>
     (fr_escape f \<longrightarrow> fr_in_string f) \<and> (fr_in_string f \<longrightarrow> fr_depth f \<noteq> 0)"

lemma framer_ok_reset [simp]: "framer_ok gs_framer_reset"
  by (simp add: framer_ok_def gs_framer_reset_def)


lemma gs_framer_feed_ok: "framer_ok f \<Longrightarrow> framer_ok (fst (gs_framer_feed f b))"
  by (auto simp: framer_ok_def gs_framer_feed_def)

text \<open>A byte costs the depth at most one, so \<open>n\<close> bytes cannot wrap the 32-bit counter.\<close>

lemma gs_framer_feed_depth: "unat (fr_depth (fst (gs_framer_feed f b))) \<le> unat (fr_depth f) + 1"
proof -
  have "unat (fr_depth f + 1) \<le> unat (fr_depth f) + 1"
    by (simp add: unat_word_ariths)
  moreover have "unat (fr_depth f - 1) \<le> unat (fr_depth f)" if "fr_depth f \<noteq> 0"
    using that by (simp add: unat_dec_u32)
  ultimately show ?thesis
    by (auto simp: gs_framer_feed_def)
qed

lemma closes_from_stringI:
  "fr_in_string f \<Longrightarrow> \<not> fr_escape f \<Longrightarrow> str_body s \<Longrightarrow> closes (unat (fr_depth f)) t \<Longrightarrow>
   closes_from f (s @ QUOTE # t)"
  by (auto simp: closes_from_def)

lemma closes_from_plainI:
  "\<not> fr_in_string f \<Longrightarrow> unat (fr_depth f) = Suc d \<Longrightarrow> balanced b \<Longrightarrow> closes d t \<Longrightarrow>
   closes_from f (b @ RBRACE # t)"
  by (auto simp: closes_from_def closes_Suc)

text \<open>A byte of a string literal.\<close>

lemma closes_from_in_string:
  assumes str: "fr_in_string f" and fed: "gs_framer_feed f b = (f', GS_FRAME_INSIDE)" "fr_depth f \<noteq> 0" and t: "closes_from f' t"
  shows "closes_from f (b # t)"
proof -
  let ?d = "unat (fr_depth f)"
  consider "fr_escape f" | "\<not> fr_escape f" "b = BACKSLASH"
    | "\<not> fr_escape f" "b = QUOTE" | "\<not> fr_escape f" "b \<noteq> QUOTE" "b \<noteq> BACKSLASH"
    by blast
  then show ?thesis
  proof cases
    case 1
    then have "f' = f\<lparr>fr_escape := False\<rparr>"
      using fed str by (simp add: gs_framer_feed_def)
    with 1 str t show ?thesis by (auto simp: closes_from_def)
  next
    case 2
    then have "f' = f\<lparr>fr_escape := True\<rparr>"
      using fed str by (simp add: gs_framer_feed_def)
    then obtain c s t' where "str_body s" "closes ?d t'" "t = c # s @ QUOTE # t'"
      using str t by (auto simp: closes_from_def)
    with 2 str show ?thesis
      using closes_from_stringI [of f "BACKSLASH # c # s"] str_body_esc by simp
  next
    case 3
    then have "f' = f\<lparr>fr_in_string := False\<rparr>"
      using fed str by (simp add: gs_framer_feed_def)
    with 3 str t show ?thesis
      using closes_from_stringI [of f "[]" t] str_body_nil by (simp add: closes_from_def)
  next
    case 4
    then have "f' = f"
      using fed str by (simp add: gs_framer_feed_def)
    then obtain s t' where "str_body s" "closes ?d t'" "t = s @ QUOTE # t'"
      using 4 str t by (auto simp: closes_from_def)
    with 4 str show ?thesis
      using closes_from_stringI [of f "b # s"] str_body_chr by simp
  qed
qed

lemma closes_from_inside:
  assumes "framer_ok f" "fr_depth f \<noteq> 0" "unat (fr_depth f) + 1 < 2 ^ 32"
    "gs_framer_feed f b = (f', GS_FRAME_INSIDE)" "closes_from f' t"
  shows "closes_from f (b # t)"
proof -
  have inc: "unat (fr_depth f + 1) = Suc (unat (fr_depth f))"
    using unat_inc_u32 [OF assms(3)] by simp
  have dec: "unat (fr_depth f) = Suc (unat (fr_depth f - 1))"
    using assms(2) by (simp add: unat_dec_u32 unat_gt_0)
  consider (str) "fr_in_string f" | (quote) "\<not> fr_in_string f" "b = QUOTE"
    | (lb) "\<not> fr_in_string f" "b = LBRACE" | (rb) "\<not> fr_in_string f" "b = RBRACE"
    | (plain) "\<not> fr_in_string f" "b \<noteq> QUOTE" "b \<noteq> LBRACE" "b \<noteq> RBRACE"
    by blast
  then show ?thesis
  proof cases
    case str
    then show ?thesis using closes_from_in_string [OF _ assms(4,2,5)] by simp
  next
    case quote
    then obtain s b1 t1 where "str_body s" "balanced b1" "closes (unat (fr_depth f - 1)) t1"
      "t = s @ QUOTE # b1 @ RBRACE # t1"
      using assms dec by (auto simp: closes_from_def gs_framer_feed_def framer_ok_def closes_Suc)
    then show ?thesis
      using closes_from_plainI [OF quote(1) dec balanced_str [of s b1]] quote by simp
  next
    case lb
    then have "closes (Suc (unat (fr_depth f))) t"
      using assms inc by (auto simp: closes_from_def gs_framer_feed_def)
    then obtain b1 b2 t2 where "balanced b1" "balanced b2" "closes (unat (fr_depth f - 1)) t2"
      "t = b1 @ RBRACE # b2 @ RBRACE # t2"
      using dec by (auto simp: closes_Suc)
    then show ?thesis
      using closes_from_plainI [OF lb(1) dec balanced_obj [of b1 b2]] lb by simp
  next
    case rb
    then have "closes (unat (fr_depth f - 1)) t"
      using assms by (auto simp: closes_from_def gs_framer_feed_def split: if_splits)
    then show ?thesis
      using closes_from_plainI [OF rb(1) dec balanced_nil] rb by simp
  next
    case plain
    then obtain b1 t1 where "balanced b1" "closes (unat (fr_depth f - 1)) t1"
      "t = b1 @ RBRACE # t1"
      using assms dec by (auto simp: closes_from_def gs_framer_feed_def closes_Suc)
    then show ?thesis
      using closes_from_plainI [OF plain(1) dec balanced_chr [of b b1]] plain by simp
  qed
qed

lemma frame_find_loop_sound:
  assumes "frame_find_loop len f bg i t = (GSP_OK, st, en)"
    "framer_ok f" "fr_depth f \<noteq> 0" "unat (fr_depth f) + length t < 2 ^ 32"
  shows "\<exists>m r. t = m @ r \<and> closes_from f m \<and> st = bg \<and> en = i + length m"
  using assms
proof (induction t arbitrary: f i)
  case Nil
  then show ?case by simp
next
  case (Cons b t)
  obtain f' step where feed: "gs_framer_feed f b = (f', step)" by force
  then have "step = GS_FRAME_INSIDE \<or> step = GS_FRAME_CLOSE"
    using Cons.prems(3) by (auto simp: gs_framer_feed_def split: if_splits)
  then show ?case
  proof
    assume inside: "step = GS_FRAME_INSIDE"
    have "fr_depth f' \<noteq> 0"
      using feed inside Cons.prems(3,4) unat_inc_u32 [of "fr_depth f"]
      by (auto simp: gs_framer_feed_def split: if_splits)
    moreover have "framer_ok f'" "unat (fr_depth f') \<le> unat (fr_depth f) + 1"
      using feed Cons.prems(2) gs_framer_feed_ok [of f b] gs_framer_feed_depth [of f b] by simp_all
    ultimately obtain m r where "t = m @ r" "closes_from f' m" "st = bg" "en = i + 1 + length m"
      using Cons.IH [of f' "i + 1"] Cons.prems feed inside by auto
    moreover from this have "closes_from f (b # m)"
      using closes_from_inside feed inside Cons.prems by auto
    ultimately show ?case
      by (intro exI [of _ "b # m"] exI [of _ r]) simp
  next
    assume close: "step = GS_FRAME_CLOSE"
    then have "closes_from f [b]"
      using feed Cons.prems(2,3) balanced_nil unat_dec_u32 [of "fr_depth f"]
      by (auto simp: gs_framer_feed_def closes_from_def split: if_splits)
        (metis One_nat_def append_Nil closes_0 closes_Suc unat_1)
    then show ?case
      using feed close Cons.prems(1)
      by (intro exI [of _ "[b]"] exI [of _ t]) simp
  qed
qed

lemma frame_find_skip:
  assumes "frame_find_loop len f bg i t = (GSP_OK, st, en)" "fr_depth f = 0"
  shows "\<exists>ws r. t = ws @ LBRACE # r \<and> (\<forall>c \<in> set ws. gs_is_ws c) \<and>
    frame_find_loop len (f\<lparr>fr_depth := 1\<rparr>) (i + length ws) (i + length ws + 1) r = (GSP_OK, st, en)"
  using assms
proof (induction t arbitrary: i)
  case Nil
  then show ?case by simp
next
  case (Cons b t)
  show ?case
  proof (cases "gs_is_ws b")
    case True
    then obtain ws r where "t = ws @ LBRACE # r" "\<forall>c \<in> set ws. gs_is_ws c"
      "frame_find_loop len (f\<lparr>fr_depth := 1\<rparr>) (i + 1 + length ws) (i + 1 + length ws + 1) r
         = (GSP_OK, st, en)"
      using Cons.IH [of "i + 1"] Cons.prems by (auto simp: gs_framer_feed_def gs_is_ws_def)
    with True show ?thesis
      by (intro exI [of _ "b # ws"] exI [of _ r]) simp
  next
    case False
    with Cons.prems have "b = LBRACE"
      by (auto simp: gs_framer_feed_def gs_is_ws_def split: if_splits)
    with Cons.prems False show ?thesis
      by (intro exI [of _ "[]"] exI [of _ t]) (simp add: gs_framer_feed_def gs_is_ws_def)
  qed
qed

section \<open>Correctness of the driver\<close>

lemma gsp_frame_find_complete:
  assumes "\<forall>c \<in> set ws. gs_is_ws c" "framed_object t" "length t < 2 ^ 32"
  shows "gsp_frame_find (ws @ t @ r) = (GSP_OK, length ws, length ws + length t)"
proof -
  from assms(2) obtain b where b: "balanced b" "t = LBRACE # b @ [RBRACE]"
    by (auto simp: framed_object_def)
  let ?f = "gs_framer_reset\<lparr>fr_depth := 1\<rparr>"
  have "inside ?f b = Some ?f"
    using assms(3) b by (intro inside_balanced) (simp_all add: gs_framer_reset_def)
  moreover have open_: "fr_depth gs_framer_reset = 0"
    "gs_framer_feed gs_framer_reset LBRACE = (?f, GS_FRAME_OPEN)"
    by (simp_all add: gs_framer_feed_def gs_framer_reset_def)
  ultimately show ?thesis
    using assms(1) b open_
    by (simp add: gsp_frame_find_def frame_find_loop_ws frame_find_loop_inside)
      (simp add: gs_framer_feed_def gs_framer_reset_def)
qed

lemma gsp_frame_find_sound:
  assumes "gsp_frame_find buf = (GSP_OK, st, en)" "length buf < 2 ^ 32"
  shows "\<exists>ws t r. buf = ws @ t @ r \<and> (\<forall>c \<in> set ws. gs_is_ws c) \<and> framed_object t \<and>
           st = length ws \<and> en = length ws + length t"
proof -
  let ?f = "gs_framer_reset\<lparr>fr_depth := 1\<rparr>"
  obtain ws r where ws: "buf = ws @ LBRACE # r" "\<forall>c \<in> set ws. gs_is_ws c"
    and loop: "frame_find_loop (length buf) ?f (length ws) (length ws + 1) r = (GSP_OK, st, en)"
    using frame_find_skip [OF assms(1) [unfolded gsp_frame_find_def]]
    by (auto simp: gs_framer_reset_def)
  obtain m r' where m: "r = m @ r'" "closes_from ?f m" "st = length ws"
    "en = length ws + 1 + length m"
    using frame_find_loop_sound [OF loop] assms(2) ws
    by (auto simp: gs_framer_reset_def framer_ok_def)
  then have "closes (Suc 0) m"
    by (simp add: closes_from_def gs_framer_reset_def)
  then have "framed_object (LBRACE # m)"
    by (auto simp: closes_Suc framed_object_def)
  then show ?thesis
    using ws m by (intro exI [of _ ws] exI [of _ "LBRACE # m"] exI [of _ r']) simp
qed

text \<open>
  C29. \<^verbatim>\<open>gsp_frame_find\<close> finds a message exactly when the buffer starts, after
  whitespace, with a balanced object (braces inside string literals and escaped quotes do not
  count), and then it delimits precisely that object: no byte before, none after. Buffers of
  four gigabytes and more, where the 32-bit depth counter could wrap, are excluded.
\<close>

theorem gsp_frame_find_iff:
  assumes "length buf < 2 ^ 32"
  shows "gsp_frame_find buf = (GSP_OK, st, en) \<longleftrightarrow>
    (\<exists>ws t r. buf = ws @ t @ r \<and> list_all gs_is_ws ws \<and> framed_object t \<and>
       st = length ws \<and> en = length ws + length t)"
proof
  assume "gsp_frame_find buf = (GSP_OK, st, en)"
  with assms show "\<exists>ws t r. buf = ws @ t @ r \<and> list_all gs_is_ws ws \<and> framed_object t \<and>
       st = length ws \<and> en = length ws + length t"
    by (auto simp: list_all_iff dest!: gsp_frame_find_sound)
next
  assume "\<exists>ws t r. buf = ws @ t @ r \<and> list_all gs_is_ws ws \<and> framed_object t \<and>
       st = length ws \<and> en = length ws + length t"
  then show "gsp_frame_find buf = (GSP_OK, st, en)"
    using assms gsp_frame_find_complete by (auto simp: list_all_iff)
qed

theorem gsp_frame_find_iff_witness:
  "gsp_frame_find ('' {'' @ [QUOTE, RBRACE, QUOTE] @ ''}{'') = (GSP_OK, 1, 6)"
proof -
  have "balanced ([QUOTE] @ [RBRACE] @ [QUOTE])"
    using balanced_str [of "[RBRACE]" "[]"] by (auto intro: balanced.intros str_body.intros)
  then have "framed_object (''{'' @ [QUOTE, RBRACE, QUOTE] @ ''}'')"
    by (auto simp: framed_object_def)
  moreover have "list_all gs_is_ws '' ''" by (simp add: gs_is_ws_def)
  ultimately show ?thesis
    using gsp_frame_find_iff [THEN iffD2, OF _ exI [of _ "'' ''",
        OF exI [of _ "''{'' @ [QUOTE, RBRACE, QUOTE] @ ''}''", OF exI [of _ "''{''"]]]]
    by simp
qed

lemma frame_find_loop_open: "frame_find_loop len f bg i t = (st, a, b) \<Longrightarrow> fr_depth f \<noteq> 0 \<Longrightarrow>
  unat (fr_depth f) + length t < 2 ^ 32 \<Longrightarrow> st = GSP_OK \<or> (st = GSP_PENDING \<and> a = bg)"
proof (induction len f bg i t rule: frame_find_loop.induct)
  case (2 len f bg i c bs)
  obtain f' s where fs: "gs_framer_feed f c = (f', s)" by force
  have inc: "unat (fr_depth f + 1) = unat (fr_depth f) + 1"
    using "2.prems"(3) by (intro unat_inc_u32) simp
  with fs "2.prems"(2) have "s = GS_FRAME_INSIDE \<and> fr_depth f' \<noteq> 0 \<or> s = GS_FRAME_CLOSE"
    by (auto simp: gs_framer_feed_def split: if_splits)
  moreover have "unat (fr_depth f') + length bs < 2 ^ 32"
    using gs_framer_feed_depth [of f c] "2.prems"(3) fs by simp
  ultimately show ?case using 2 fs by auto
qed simp

text \<open>
  C30. Garbage: \<^verbatim>\<open>gsp_frame_find\<close> answers MALFORMED exactly when the first byte that
  is not whitespace is not an opening brace, at any nesting, with that byte's offset.
\<close>

theorem gsp_frame_find_garbage:
  assumes "length buf < 2 ^ 32"
  shows "gsp_frame_find buf = (GSP_ERR_MALFORMED, st, en) \<longleftrightarrow>
    (\<exists>c r. dropWhile gs_is_ws buf = c # r \<and> c \<noteq> LBRACE) \<and>
    st = length (takeWhile gs_is_ws buf) \<and> en = length buf"
proof -
  let ?ws = "takeWhile gs_is_ws buf" and ?r = "dropWhile gs_is_ws buf"
  have ws: "\<forall>c \<in> set ?ws. gs_is_ws c" by (auto dest: set_takeWhileD)
  have run: "gsp_frame_find buf =
      frame_find_loop (length buf) gs_framer_reset (length buf) (length ?ws) ?r"
    using frame_find_loop_ws [OF ws, of gs_framer_reset "length buf" "length buf" 0 ?r]
    by (simp add: gsp_frame_find_def gs_framer_reset_def)
  show ?thesis
  proof (cases ?r)
    case Nil
    with run show ?thesis by (simp del: dropWhile_eq_Nil_conv)
  next
    case (Cons c r)
    then have c: "\<not> gs_is_ws c" using hd_dropWhile [of gs_is_ws buf] by simp
    show ?thesis
    proof (cases "c = LBRACE")
      case True
      let ?f = "gs_framer_reset\<lparr>fr_depth := 1\<rparr>"
      have "gsp_frame_find buf = frame_find_loop (length buf) ?f (length ?ws) (length ?ws + 1) r"
        using run Cons True by (simp add: gs_framer_feed_def gs_framer_reset_def)
      moreover have "length r < length buf"
        using Cons length_dropWhile_le [of gs_is_ws buf] by simp
      ultimately show ?thesis
        using frame_find_loop_open [of "length buf" ?f "length ?ws" "length ?ws + 1" r] Cons True assms
        by auto
    next
      case False
      with run Cons c show ?thesis
        by (auto simp: gs_framer_feed_def gs_framer_reset_def gs_is_ws_def)
    qed
  qed
qed

theorem gsp_frame_find_garbage_witness: "gsp_frame_find '' [{'' = (GSP_ERR_MALFORMED, 1, 3)"
  using gsp_frame_find_garbage [of "'' [{''" 1 3] by (simp add: gs_is_ws_def)

end
