(* ===== verification/CDouble.thy ===== *)
theory CDouble
  imports Prelude
begin

text \<open>
  The C \<^verbatim>\<open>double\<close> (IEEE 754 binary64) and the two library functions that read and write
  it as text, \<^verbatim>\<open>strtod\<close> and the \<^verbatim>\<open>%.<p>g\<close> conversion of \<^verbatim>\<open>snprintf\<close>, both
  correctly rounded (round half to even), in the C locale. They model the C library, not
  code of the repository. The transcendental functions of \<^verbatim>\<open>math.h\<close>, whose accuracy C
  leaves to the implementation, are not here: the one function that calls them takes them as
  an argument.
\<close>

section \<open>Values\<close>

text \<open>
  \<open>Finite s m e\<close> is \<open>(if s then -1 else 1) * m * 2 ^ e\<close>. The operations below produce it in
  canonical form: \<open>0 \<le> m < 2 ^ 53\<close>, \<open>-1074 \<le> e \<le> 971\<close>, and \<open>2 ^ 52 \<le> m\<close> unless
  \<open>e = -1074\<close>.
\<close>

datatype double = NaN | Infinity bool | Finite bool int int

definition dzero :: double where
  "dzero = Finite False 0 (- 1074)"

fun canonical :: "double \<Rightarrow> bool" where
  "canonical (Finite s m e) \<longleftrightarrow>
     0 \<le> m \<and> m < 2 ^ 53 \<and> - 1074 \<le> e \<and> e \<le> 971 \<and> (2 ^ 52 \<le> m \<or> e = - 1074)"
| "canonical _ \<longleftrightarrow> True"

fun isfinite :: "double \<Rightarrow> bool" where
  "isfinite (Finite _ _ _) = True"
| "isfinite _ = False"

text \<open>The signed mantissa over the exponent \<open>b \<le> e\<close>: the value is this times \<open>2 ^ b\<close>.\<close>

definition scaled :: "bool \<Rightarrow> int \<Rightarrow> int \<Rightarrow> int \<Rightarrow> int" where
  "scaled s m e b = (if s then - 1 else 1) * m * 2 ^ nat (e - b)"

text \<open>The C comparisons \<open>x <= y\<close> and \<open>x == y\<close>.\<close>

fun d_le :: "double \<Rightarrow> double \<Rightarrow> bool" where
  "d_le NaN _ = False"
| "d_le _ NaN = False"
| "d_le (Infinity s) (Infinity t) = (s \<or> \<not> t)"
| "d_le (Infinity s) (Finite _ _ _) = s"
| "d_le (Finite _ _ _) (Infinity t) = (\<not> t)"
| "d_le (Finite s m e) (Finite s' m' e') =
     (let b = min e e' in scaled s m e b \<le> scaled s' m' e' b)"

definition d_eq :: "double \<Rightarrow> double \<Rightarrow> bool" where
  "d_eq x y \<longleftrightarrow> d_le x y \<and> d_le y x"

text \<open>The integer part of the magnitude.\<close>

definition ipart :: "int \<Rightarrow> int \<Rightarrow> int" where
  "ipart m e = (if 0 \<le> e then \<bar>m\<bar> * 2 ^ nat e else \<bar>m\<bar> div 2 ^ nat (- e))"

text \<open>Rounding towards zero, as the cast to an integer type does.\<close>

fun d_to_int :: "double \<Rightarrow> int" where
  "d_to_int (Finite s m e) = (if s then - ipart m e else ipart m e)"
| "d_to_int _ = 0"

text \<open>The test \<open>v != trunc(v)\<close>.\<close>

fun has_fraction :: "double \<Rightarrow> bool" where
  "has_fraction NaN = True"
| "has_fraction (Infinity _) = False"
| "has_fraction (Finite s m e) = (e < 0 \<and> m mod 2 ^ nat (- e) \<noteq> 0)"

section \<open>Rounding a ratio to the nearest double\<close>

text \<open>\<open>n / d\<close> to the nearest integer, ties to even.\<close>

definition div_even :: "int \<Rightarrow> int \<Rightarrow> int" where
  "div_even n d =
     (let q = n div d; r = n mod d in
      if 2 * r < d then q else if d < 2 * r then q + 1
      else if even q then q else q + 1)"

function bitlen :: "int \<Rightarrow> int" where
  "bitlen n = (if n \<le> 0 then 0 else 1 + bitlen (n div 2))"
  by pat_completeness auto
termination
  by (relation "measure nat") auto

declare bitlen.simps [simp del]

text \<open>\<open>n / d / 2 ^ e\<close> as a ratio of integers.\<close>

definition ratio_shift :: "int \<Rightarrow> int \<Rightarrow> int \<Rightarrow> int \<times> int" where
  "ratio_shift n d e = (if 0 \<le> e then (n, d * 2 ^ nat e) else (n * 2 ^ nat (- e), d))"

definition round_at :: "int \<Rightarrow> int \<Rightarrow> int \<Rightarrow> int" where
  "round_at n d e = (case ratio_shift n d e of (n', d') \<Rightarrow> div_even n' d')"

text \<open>
  The exponent at which \<open>n / d\<close> has a 53-bit integer part, not below the smallest one. With
  \<open>k\<close> the difference of the bit lengths, \<open>2 ^ (k - 1) < n / d < 2 ^ (k + 1)\<close>, so it is
  \<open>k - 53\<close> or \<open>k - 52\<close>.
\<close>

definition round_exp :: "int \<Rightarrow> int \<Rightarrow> int" where
  "round_exp n d =
     (let e0 = bitlen n - bitlen d - 53;
          (n', d') = ratio_shift n d e0
      in max (- 1074) (if 2 ^ 53 * d' \<le> n' then e0 + 1 else e0))"

definition round_ratio :: "bool \<Rightarrow> int \<Rightarrow> int \<Rightarrow> double" where
  "round_ratio s n d =
     (if n = 0 then Finite s 0 (- 1074)
      else let e = round_exp n d; m = round_at n d e;
               (m', e') = (if m = 2 ^ 53 then (2 ^ 52, e + 1) else (m, e))
           in if 971 < e' then Infinity s else Finite s m' e')"

section \<open>strtod\<close>

definition is_digit :: "byte \<Rightarrow> bool" where
  "is_digit c \<longleftrightarrow> ord CHR ''0'' \<le> ord c \<and> ord c \<le> ord CHR ''9''"

definition digit_val :: "byte \<Rightarrow> int" where
  "digit_val c = ord c - ord CHR ''0''"

definition hex_val :: "byte \<Rightarrow> int option" where
  "hex_val c =
     (if is_digit c then Some (digit_val c)
      else if ord CHR ''a'' \<le> ord c \<and> ord c \<le> ord CHR ''f'' then Some (ord c - ord CHR ''a'' + 10)
      else if ord CHR ''A'' \<le> ord c \<and> ord c \<le> ord CHR ''F'' then Some (ord c - ord CHR ''A'' + 10)
      else None)"

definition is_xdigit :: "byte \<Rightarrow> bool" where
  "is_xdigit c \<longleftrightarrow> hex_val c \<noteq> None"

text \<open>\<^verbatim>\<open>isspace\<close> in the C locale.\<close>

definition c_isspace :: "byte \<Rightarrow> bool" where
  "c_isspace c \<longleftrightarrow> c = SPACE \<or> (9 \<le> ord c \<and> ord c \<le> 13)"

fun digits_val :: "int \<Rightarrow> (byte \<Rightarrow> int) \<Rightarrow> int \<Rightarrow> bytes \<Rightarrow> int" where
  "digits_val base v acc [] = acc"
| "digits_val base v acc (c # cs) = digits_val base v (base * acc + v c) cs"

text \<open>An optional sign: whether it is a minus, and the bytes it took.\<close>

definition take_sign :: "bytes \<Rightarrow> bool \<times> nat" where
  "take_sign s = (case s of c # _ \<Rightarrow>
       if c = CHR ''-'' then (True, 1) else if c = CHR ''+'' then (False, 1) else (False, 0)
     | [] \<Rightarrow> (False, 0))"

text \<open>
  Digits, a point, digits: the two runs and the bytes they took; no conversion (0 bytes)
  when both are empty.
\<close>

definition take_mantissa :: "(byte \<Rightarrow> bool) \<Rightarrow> bytes \<Rightarrow> bytes \<times> bytes \<times> nat" where
  "take_mantissa dig s =
     (let ip = takeWhile dig s; r = dropWhile dig s in
      case r of
        c # cs \<Rightarrow>
          if c = CHR ''.'' then
            (let fp = takeWhile dig cs in
             if ip = [] \<and> fp = [] then ([], [], 0) else (ip, fp, length ip + 1 + length fp))
          else (ip, [], length ip)
      | [] \<Rightarrow> (ip, [], length ip))"

text \<open>An exponent introduced by one of two letters; 0 bytes when no digit follows.\<close>

definition take_exponent :: "byte \<Rightarrow> byte \<Rightarrow> bytes \<Rightarrow> int \<times> nat" where
  "take_exponent l u s =
     (case s of
        c # cs \<Rightarrow>
          if c = l \<or> c = u then
            (let (neg, k) = take_sign cs; ds = takeWhile is_digit (drop k cs);
                 v = digits_val 10 digit_val 0 ds
             in if ds = [] then (0, 0) else (if neg then - v else v, 1 + k + length ds))
          else (0, 0)
      | [] \<Rightarrow> (0, 0))"

text \<open>
  The value \<open>m * 10 ^ e\<close> of a decimal literal. Far outside the range of the type the answer
  is known without forming the power: \<open>len\<close> is the number of digits of \<open>m\<close>.
\<close>

definition decimal_value :: "bool \<Rightarrow> int \<Rightarrow> int \<Rightarrow> int \<Rightarrow> double" where
  "decimal_value s m len e =
     (if m = 0 then Finite s 0 (- 1074)
      else if 400 < e then Infinity s
      else if e < - (400 + len) then Finite s 0 (- 1074)
      else if 0 \<le> e then round_ratio s (m * 10 ^ nat e) 1
      else round_ratio s m (10 ^ nat (- e)))"

definition binary_value :: "bool \<Rightarrow> int \<Rightarrow> int \<Rightarrow> int \<Rightarrow> double" where
  "binary_value s m len e =
     (if m = 0 then Finite s 0 (- 1074)
      else if 1100 < e then Infinity s
      else if e < - (1200 + 4 * len) then Finite s 0 (- 1074)
      else if 0 \<le> e then round_ratio s (m * 2 ^ nat e) 1
      else round_ratio s m (2 ^ nat (- e)))"

definition ci_prefix :: "bytes \<Rightarrow> bytes \<Rightarrow> bool" where
  "ci_prefix p s \<longleftrightarrow> gs_ci_equal p (take (length p) s)"

definition is_nan_char :: "byte \<Rightarrow> bool" where
  "is_nan_char c \<longleftrightarrow> is_digit c \<or> c = CHR ''_'' \<or>
     (ord CHR ''a'' \<le> ord (gs_ascii_lower c) \<and> ord (gs_ascii_lower c) \<le> ord CHR ''z'')"

text \<open>
  The subject sequence after the sign: the value and the bytes it took (0 when there is no
  conversion).
\<close>

definition strtod_body :: "bool \<Rightarrow> bytes \<Rightarrow> double \<times> nat" where
  "strtod_body neg s =
     (if ci_prefix ''infinity'' s then (Infinity neg, 8)
      else if ci_prefix ''inf'' s then (Infinity neg, 3)
      else if ci_prefix ''nan'' s then
        (let r = drop 3 s; cs = takeWhile is_nan_char (drop 1 r) in
         if take 1 r = ''('' \<and> take 1 (drop (1 + length cs) r) = '')''
         then (NaN, 3 + length cs + 2) else (NaN, 3))
      else
        (let hexed = (if ci_prefix ''0x'' s
                      then (case take_mantissa is_xdigit (drop 2 s) of (ip, fp, k) \<Rightarrow> k) else 0)
         in if 0 < hexed then
           (case take_mantissa is_xdigit (drop 2 s) of (ip, fp, k) \<Rightarrow>
            case take_exponent CHR ''p'' CHR ''P'' (drop (2 + k) s) of (e, k') \<Rightarrow>
              (binary_value neg (digits_val 16 (\<lambda>c. the (hex_val c)) 0 (ip @ fp))
                 (int (length ip + length fp)) (e - 4 * int (length fp)), 2 + k + k'))
         else
           (case take_mantissa is_digit s of (ip, fp, k) \<Rightarrow>
            if k = 0 then (dzero, 0)
            else case take_exponent CHR ''e'' CHR ''E'' (drop k s) of (e, k') \<Rightarrow>
              (decimal_value neg (digits_val 10 digit_val 0 (ip @ fp))
                 (int (length ip + length fp)) (e - int (length fp)), k + k'))))"

text \<open>\<^verbatim>\<open>strtod(s, &endp)\<close>: the value and \<open>endp - s\<close>.\<close>

definition strtod :: "bytes \<Rightarrow> double \<times> nat" where
  "strtod s =
     (let w = length (takeWhile c_isspace s); (neg, k) = take_sign (drop w s);
          (v, n) = strtod_body neg (drop (w + k) s)
      in if n = 0 then (dzero, 0) else (v, w + k + n))"

section \<open>The conversion \<open>%.<p>g\<close>\<close>

function dec_digits :: "int \<Rightarrow> bytes" where
  "dec_digits n =
     (if n < 10 then [char_of (48 + n mod 10)] else dec_digits (n div 10) @ [char_of (48 + n mod 10)])"
  by pat_completeness auto
termination
  by (relation "measure nat") auto

declare dec_digits.simps [simp del]

text \<open>\<open>n / d\<close> of a positive double, and the decimal exponent \<open>x\<close> with
  \<open>10 ^ x \<le> n / d < 10 ^ (x + 1)\<close>.\<close>

definition as_ratio :: "int \<Rightarrow> int \<Rightarrow> int \<times> int" where
  "as_ratio m e = (if 0 \<le> e then (m * 2 ^ nat e, 1) else (m, 2 ^ nat (- e)))"

definition dec_exp :: "int \<Rightarrow> int \<Rightarrow> int" where
  "dec_exp n d =
     (if d \<le> n then int (length (dec_digits (n div d))) - 1
      else - int (length (dec_digits ((d - 1) div n))))"

text \<open>The \<open>p\<close> significant digits, as an integer, and the exponent of the first of them.\<close>

definition sig_digits :: "nat \<Rightarrow> int \<Rightarrow> int \<Rightarrow> int \<times> int" where
  "sig_digits p n d =
     (let x = dec_exp n d; k = int p - 1 - x;
          q = (if 0 \<le> k then div_even (n * 10 ^ nat k) d else div_even n (d * 10 ^ nat (- k)))
      in if q = 10 ^ p then (10 ^ (p - 1), x + 1) else (q, x))"

definition strip_zeros :: "bytes \<Rightarrow> bytes" where
  "strip_zeros ds = rev (dropWhile (\<lambda>c. c = CHR ''0'') (rev ds))"

definition with_fraction :: "bytes \<Rightarrow> bytes \<Rightarrow> bytes" where
  "with_fraction ip fp = (let f = strip_zeros fp in if f = [] then ip else ip @ ''.'' @ f)"

definition exp_text :: "int \<Rightarrow> bytes" where
  "exp_text x =
     (let ds = dec_digits \<bar>x\<bar> in
      (if x < 0 then ''e-'' else ''e+'') @ (if length ds < 2 then ''0'' @ ds else ds))"

definition fmt_g_pos :: "nat \<Rightarrow> int \<Rightarrow> int \<Rightarrow> bytes" where
  "fmt_g_pos p n d =
     (case sig_digits p n d of (q, x) \<Rightarrow>
      let ds = dec_digits q in
      if - 4 \<le> x \<and> x < int p then
        (if 0 \<le> x then with_fraction (take (nat x + 1) ds) (drop (nat x + 1) ds)
         else with_fraction ''0'' (replicate (nat (- x) - 1) CHR ''0'' @ ds))
      else with_fraction (take 1 ds) (drop 1 ds) @ exp_text x)"

fun fmt_g :: "nat \<Rightarrow> double \<Rightarrow> bytes" where
  "fmt_g p NaN = ''nan''"
| "fmt_g p (Infinity s) = (if s then ''-inf'' else ''inf'')"
| "fmt_g p (Finite s m e) =
     (if s then ''-'' else []) @
     (if m = 0 then ''0'' else case as_ratio m e of (n, d) \<Rightarrow> fmt_g_pos p n d)"

text \<open>The conversion \<open>%lld\<close>.\<close>

definition fmt_int :: "int \<Rightarrow> bytes" where
  "fmt_int v = (if v < 0 then ''-'' @ dec_digits (- v) else dec_digits v)"

section \<open>Conversion to a 64-bit integer\<close>

lemma zdiv_less_mult: "x < n * d \<Longrightarrow> 0 < d \<Longrightarrow> x div d < n" for x n d :: int
proof (rule ccontr)
  assume "x < n * d" "0 < d" "\<not> x div d < n"
  then have "n * d \<le> x div d * d" by (simp add: mult_right_mono)
  moreover have "x div d * d \<le> x"
    using pos_mod_sign [OF \<open>0 < d\<close>, of x] div_mult_mod_eq [of x d] by linarith
  ultimately show False using \<open>x < n * d\<close> by simp
qed

lemma ipart_bound:
  assumes "\<bar>scaled s m e (min e 11)\<bar> < 2 ^ 52 * 2 ^ nat (11 - min e 11)"
  shows "0 \<le> ipart m e \<and> ipart m e < 2 ^ 63"
proof -
  have a: "\<bar>m\<bar> * 2 ^ nat (e - min e 11) < 2 ^ 52 * 2 ^ nat (11 - min e 11)"
    using assms by (cases s) (simp_all add: scaled_def abs_mult)
  have p: "0 < (2::int) ^ k" for k by simp
  consider "11 \<le> e" | "0 \<le> e" "e < 11" | "e < 0" by linarith
  then show ?thesis
  proof cases
    case 1
    then have "nat e = nat (e - 11) + 11" by linarith
    with a 1 show ?thesis by (simp add: ipart_def power_add)
  next
    case 2
    then have "nat (11 - e) + nat e = 11" by linarith
    then have "(2::int) ^ nat (11 - e) * 2 ^ nat e = 2 ^ 11" by (metis power_add)
    moreover have "\<bar>m\<bar> * 2 ^ nat e < 2 ^ 52 * 2 ^ nat (11 - e) * 2 ^ nat e"
      using a 2 by simp
    ultimately show ?thesis using 2 by (simp add: ipart_def mult.assoc)
  next
    case 3
    then have "nat (11 - e) = 11 + nat (- e)" by linarith
    then have "\<bar>m\<bar> < 2 ^ 63 * 2 ^ nat (- e)" using a 3 by (simp add: power_add)
    then have "\<bar>m\<bar> div 2 ^ nat (- e) < 2 ^ 63" by (rule zdiv_less_mult) simp
    then show ?thesis using 3 by (simp add: ipart_def pos_imp_zdiv_nonneg_iff)
  qed
qed

end
