(* ===== verification/Json.thy ===== *)
theory Json
  imports CDouble
begin

text \<open>
  The bounded JSON reader (\<^verbatim>\<open>src/gs_json.h\<close>, the first part of
  \<^verbatim>\<open>src/gs_decode.c\<close>). The cursor is the C struct: a buffer, the number of bytes of it
  that may be read, and a position. A reader that returns \<^verbatim>\<open>false\<close> has its message
  abandoned by every caller, so it returns \<^const>\<open>None\<close> here; otherwise it returns its value
  and the moved cursor.
\<close>

section \<open>The cursor\<close>

record gs_json =
  j_buf :: bytes
  j_len :: nat
  j_pos :: nat

datatype gs_json_type =
    GS_JSON_NONE | GS_JSON_OBJECT | GS_JSON_ARRAY | GS_JSON_STRING | GS_JSON_NUMBER
  | GS_JSON_TRUE | GS_JSON_FALSE | GS_JSON_NULL

definition GS_JSON_NUMBER_MAX :: nat where "GS_JSON_NUMBER_MAX = 64"
definition GS_JSON_DEPTH_MAX :: nat where "GS_JSON_DEPTH_MAX = 32"

abbreviation at :: "gs_json \<Rightarrow> nat \<Rightarrow> byte" where
  "at j i \<equiv> j_buf j ! i"

definition skip :: "nat \<Rightarrow> gs_json \<Rightarrow> gs_json" where
  "skip n j = j\<lparr>j_pos := j_pos j + n\<rparr>"

lemma skip_sel [simp]:
  "j_buf (skip n j) = j_buf j" "j_len (skip n j) = j_len j" "j_pos (skip n j) = j_pos j + n"
  by (simp_all add: skip_def)

text \<open>What every operation does to the cursor: it moves forward, never past the end.\<close>

definition adv :: "gs_json \<Rightarrow> gs_json \<Rightarrow> bool" where
  "adv j j' \<longleftrightarrow> j_buf j' = j_buf j \<and> j_len j' = j_len j \<and> j_pos j \<le> j_pos j' \<and>
     (j_pos j < j_pos j' \<longrightarrow> j_pos j' \<le> j_len j)"

lemma adv_refl [simp]: "adv j j"
  by (simp add: adv_def)

lemma adv_trans: "adv j j' \<Longrightarrow> adv j' j'' \<Longrightarrow> adv j j''"
  by (auto simp: adv_def)

lemma adv_skip: "j_pos j + n \<le> j_len j \<Longrightarrow> adv j (skip n j)"
  by (simp add: adv_def)

section \<open>Whitespace, peeking, punctuation\<close>

function gs_json_skip_ws :: "gs_json \<Rightarrow> gs_json" where
  "gs_json_skip_ws j =
     (if j_pos j < j_len j \<and> gs_is_ws (at j (j_pos j)) then gs_json_skip_ws (skip 1 j) else j)"
  by pat_completeness auto
termination
  by (relation "measure (\<lambda>j. j_len j - j_pos j)") auto

declare gs_json_skip_ws.simps [simp del]

definition gs_json_at_end :: "gs_json \<Rightarrow> bool \<times> gs_json" where
  "gs_json_at_end j = (let j = gs_json_skip_ws j in (j_len j \<le> j_pos j, j))"

definition peek_byte :: "byte \<Rightarrow> gs_json_type" where
  "peek_byte c =
     (if c = LBRACE then GS_JSON_OBJECT
      else if c = CHR ''['' then GS_JSON_ARRAY
      else if c = QUOTE then GS_JSON_STRING
      else if c = CHR ''t'' then GS_JSON_TRUE
      else if c = CHR ''f'' then GS_JSON_FALSE
      else if c = CHR ''n'' then GS_JSON_NULL
      else if c = CHR ''-'' \<or> c = CHR ''+'' \<or> c = CHR ''.'' \<or> is_digit c then GS_JSON_NUMBER
      else GS_JSON_NONE)"

definition gs_json_peek :: "gs_json \<Rightarrow> gs_json_type \<times> gs_json" where
  "gs_json_peek j =
     (let j = gs_json_skip_ws j in
      if j_len j \<le> j_pos j then (GS_JSON_NONE, j) else (peek_byte (at j (j_pos j)), j))"

definition gs_json_accept :: "gs_json \<Rightarrow> byte \<Rightarrow> bool \<times> gs_json" where
  "gs_json_accept j c =
     (let j = gs_json_skip_ws j in
      if j_pos j < j_len j \<and> at j (j_pos j) = c then (True, skip 1 j) else (False, j))"

section \<open>Strings\<close>

text \<open>
  One decoded byte into a field of \<open>out_size\<close> bytes (0 stands for a NULL \<^verbatim>\<open>out\<close> too): the
  bytes stored so far and the note that one did not fit.
\<close>

definition put :: "nat \<Rightarrow> byte \<Rightarrow> bytes \<times> bool \<Rightarrow> bytes \<times> bool" where
  "put out_size c = (\<lambda>(out, truncated).
     if out_size = 0 then (out, truncated)
     else if length out + 1 < out_size then (out @ [c], truncated)
     else (out, True))"

definition byte_of :: "u32 \<Rightarrow> byte" where
  "byte_of w = char_of (uint w)"

definition put_utf8 :: "nat \<Rightarrow> u32 \<Rightarrow> bytes \<times> bool \<Rightarrow> bytes \<times> bool" where
  "put_utf8 out_size cp st =
     (if cp < 0x80 then put out_size (byte_of cp) st
      else if cp < 0x800 then
        put out_size (byte_of (0x80 OR (cp AND 0x3f)))
          (put out_size (byte_of (0xc0 OR drop_bit 6 cp)) st)
      else if cp < 0x10000 then
        put out_size (byte_of (0x80 OR (cp AND 0x3f)))
          (put out_size (byte_of (0x80 OR (drop_bit 6 cp AND 0x3f)))
            (put out_size (byte_of (0xe0 OR drop_bit 12 cp)) st))
      else
        put out_size (byte_of (0x80 OR (cp AND 0x3f)))
          (put out_size (byte_of (0x80 OR (drop_bit 6 cp AND 0x3f)))
            (put out_size (byte_of (0x80 OR (drop_bit 12 cp AND 0x3f)))
              (put out_size (byte_of (0xf0 OR drop_bit 18 cp)) st))))"

fun hex4_loop :: "bytes \<Rightarrow> u32 \<Rightarrow> u32 option" where
  "hex4_loop [] v = Some v"
| "hex4_loop (c # cs) v =
     (case hex_val c of
        None \<Rightarrow> None
      | Some d \<Rightarrow> hex4_loop cs (push_bit 4 v OR word_of_int d))"

definition read_hex4 :: "gs_json \<Rightarrow> (u32 \<times> gs_json) option" where
  "read_hex4 j =
     (if j_len j < j_pos j + 4 then None
      else case hex4_loop [at j (j_pos j), at j (j_pos j + 1), at j (j_pos j + 2), at j (j_pos j + 3)] 0 of
             None \<Rightarrow> None
           | Some v \<Rightarrow> Some (v, skip 4 j))"

text \<open>The second half of a surrogate pair, when one follows; otherwise nothing is consumed.\<close>

definition read_low_surrogate :: "gs_json \<Rightarrow> u32 \<Rightarrow> u32 \<times> gs_json" where
  "read_low_surrogate j cp =
     (if 0xd800 \<le> cp \<and> cp \<le> 0xdbff \<and> j_pos j + 6 \<le> j_len j \<and>
         at j (j_pos j) = BACKSLASH \<and> at j (j_pos j + 1) = CHR ''u'' then
        (case read_hex4 (skip 2 j) of
           Some (low, j') \<Rightarrow>
             if 0xdc00 \<le> low \<and> low \<le> 0xdfff
             then (0x10000 + push_bit 10 (cp - 0xd800) + (low - 0xdc00), j') else (cp, j)
         | None \<Rightarrow> (cp, j))
      else (cp, j))"

definition simple_escape :: "byte \<Rightarrow> byte option" where
  "simple_escape c =
     (if c = QUOTE \<or> c = BACKSLASH \<or> c = CHR ''/'' then Some c
      else if c = CHR ''b'' then Some (CHR 0x08)
      else if c = CHR ''f'' then Some (CHR 0x0C)
      else if c = CHR ''n'' then Some LF
      else if c = CHR ''r'' then Some CR
      else if c = CHR ''t'' then Some TAB
      else None)"

lemma read_hex4_pos:
  "read_hex4 j = Some (v, j') \<Longrightarrow> j' = skip 4 j \<and> j_pos j + 4 \<le> j_len j"
  by (auto simp: read_hex4_def split: if_splits option.splits)

lemma read_low_surrogate_pos:
  "read_low_surrogate j cp = (cp', j') \<Longrightarrow> adv j j'"
  by (auto simp: read_low_surrogate_def adv_def split: if_splits option.splits dest!: read_hex4_pos)

function read_string_loop ::
  "nat \<Rightarrow> gs_json \<Rightarrow> bytes \<times> bool \<Rightarrow> ((bytes \<times> bool) \<times> gs_json) option" where
  "read_string_loop out_size j st =
     (if \<not> j_pos j < j_len j then None
      else
        (let c = at j (j_pos j); j = skip 1 j in
         if c = QUOTE then Some (st, j)
         else if c \<noteq> BACKSLASH then read_string_loop out_size j (put out_size c st)
         else if j_len j \<le> j_pos j then None
         else
           (let c = at j (j_pos j); j = skip 1 j in
            case simple_escape c of
              Some e \<Rightarrow> read_string_loop out_size j (put out_size e st)
            | None \<Rightarrow>
                if c = CHR ''u'' then
                  (case read_hex4 j of
                     None \<Rightarrow> None
                   | Some (cp, j) \<Rightarrow>
                       (case read_low_surrogate j cp of
                          (cp, j) \<Rightarrow> read_string_loop out_size j (put_utf8 out_size cp st)))
                else None)))"
  by pat_completeness auto
termination
  by (relation "measure (\<lambda>(_, j, _). j_len j - j_pos j)")
    (auto simp: adv_def dest!: read_hex4_pos read_low_surrogate_pos [OF sym])

declare read_string_loop.simps [simp del]

definition gs_json_read_string :: "gs_json \<Rightarrow> nat \<Rightarrow> ((bytes \<times> bool) \<times> gs_json) option" where
  "gs_json_read_string j out_size =
     (let j = gs_json_skip_ws j in
      if j_len j \<le> j_pos j \<or> at j (j_pos j) \<noteq> QUOTE then None
      else read_string_loop out_size (skip 1 j) ([], False))"

section \<open>Numbers and literals\<close>

definition is_number_char :: "byte \<Rightarrow> bool" where
  "is_number_char c \<longleftrightarrow> is_digit c \<or> c = CHR ''-'' \<or> c = CHR ''+'' \<or> c = CHR ''.'' \<or>
     c = CHR ''e'' \<or> c = CHR ''E''"

function number_token :: "gs_json \<Rightarrow> bytes \<Rightarrow> (bytes \<times> gs_json) option" where
  "number_token j tmp =
     (if j_pos j < j_len j \<and> is_number_char (at j (j_pos j)) then
        (if GS_JSON_NUMBER_MAX \<le> length tmp + 1 then None
         else number_token (skip 1 j) (tmp @ [at j (j_pos j)]))
      else Some (tmp, j))"
  by pat_completeness auto
termination
  by (relation "measure (\<lambda>(j, _). j_len j - j_pos j)") auto

declare number_token.simps [simp del]

definition gs_json_read_number :: "gs_json \<Rightarrow> (double \<times> gs_json) option" where
  "gs_json_read_number j =
     (case number_token (gs_json_skip_ws j) [] of
        None \<Rightarrow> None
      | Some (tmp, j) \<Rightarrow>
          if tmp = [] then None
          else (case strtod tmp of (v, n) \<Rightarrow> if n \<noteq> length tmp then None else Some (v, j)))"

definition gs_json_read_literal :: "gs_json \<Rightarrow> gs_json_type \<Rightarrow> (bool \<times> gs_json) option" where
  "gs_json_read_literal j type =
     (case (if type = GS_JSON_TRUE then Some (''true'', True)
            else if type = GS_JSON_FALSE then Some (''false'', False)
            else if type = GS_JSON_NULL then Some (''null'', False) else None) of
        None \<Rightarrow> None
      | Some (word, value) \<Rightarrow>
          (let n = length word; j = gs_json_skip_ws j in
           if j_len j < j_pos j + n \<or> take n (drop (j_pos j) (j_buf j)) \<noteq> word then None
           else Some (value, skip n j)))"

section \<open>Skipping a value\<close>

function skip_structure :: "gs_json \<Rightarrow> nat \<Rightarrow> bool \<Rightarrow> bool \<Rightarrow> gs_json option" where
  "skip_structure j depth in_string escape =
     (if \<not> j_pos j < j_len j then None
      else
        (let c = at j (j_pos j); j = skip 1 j in
         if in_string then
           (if escape then skip_structure j depth True False
            else if c = BACKSLASH then skip_structure j depth True True
            else if c = QUOTE then skip_structure j depth False escape
            else skip_structure j depth True escape)
         else if c = QUOTE then skip_structure j depth True escape
         else if c = LBRACE \<or> c = CHR ''['' then
           (if GS_JSON_DEPTH_MAX < depth + 1 then None
            else skip_structure j (depth + 1) in_string escape)
         else if c = RBRACE \<or> c = CHR '']'' then
           (if depth = 0 then None
            else if depth - 1 = 0 then Some j
            else skip_structure j (depth - 1) in_string escape)
         else skip_structure j depth in_string escape))"
  by pat_completeness auto
termination
  by (relation "measure (\<lambda>(j, _). j_len j - j_pos j)") auto

declare skip_structure.simps [simp del]

definition gs_json_skip_value :: "gs_json \<Rightarrow> gs_json option" where
  "gs_json_skip_value j =
     (case gs_json_peek j of (t, j) \<Rightarrow>
        if t = GS_JSON_OBJECT \<or> t = GS_JSON_ARRAY then skip_structure j 0 False False
        else if t = GS_JSON_STRING then map_option snd (gs_json_read_string j 0)
        else if t = GS_JSON_NUMBER then map_option snd (gs_json_read_number j)
        else if t = GS_JSON_TRUE \<or> t = GS_JSON_FALSE \<or> t = GS_JSON_NULL
        then map_option snd (gs_json_read_literal j t)
        else None)"

section \<open>The cursor moves forward and stays in bounds\<close>

lemma gs_json_skip_ws_adv: "adv j (gs_json_skip_ws j)"
proof (induction j rule: gs_json_skip_ws.induct)
  case (1 j)
  then show ?case
    by (subst gs_json_skip_ws.simps) (auto intro: adv_trans [OF adv_skip [of j 1]])
qed


lemma gs_json_accept_adv:
  "gs_json_accept j c = (b, j') \<Longrightarrow> adv j j' \<and> (b \<longrightarrow> j_pos j < j_pos j')"
  using gs_json_skip_ws_adv [of j]
  by (auto simp: gs_json_accept_def Let_def adv_def split: if_splits)

lemma gs_json_peek_adv: "gs_json_peek j = (t, j') \<Longrightarrow> adv j j'"
  using gs_json_skip_ws_adv [of j]
  by (auto simp: gs_json_peek_def Let_def split: if_splits)

lemma gs_json_at_end_adv: "gs_json_at_end j = (b, j') \<Longrightarrow> adv j j'"
  using gs_json_skip_ws_adv [of j]
  by (auto simp: gs_json_at_end_def Let_def)

lemma read_string_loop_step:
  assumes "read_string_loop n j st = Some (r, j')"
  shows "j_pos j < j_len j \<and> (j' = skip 1 j \<and> r = st \<or>
    (\<exists>k st'. adv j k \<and> j_pos j < j_pos k \<and>
      ((\<exists>c. st' = put n c st) \<or> (\<exists>cp. st' = put_utf8 n cp st)) \<and>
      read_string_loop n k st' = Some (r, j')))"
proof -
  from assms have lt: "j_pos j < j_len j"
    by (subst (asm) read_string_loop.simps) (auto split: if_splits)
  have one: "adv j (skip 1 j)" and two: "j_pos j + 1 < j_len j \<Longrightarrow> adv j (skip 1 (skip 1 j))"
    using lt by (simp_all add: adv_def)
  have hex: "adv j k \<and> j_pos j < j_pos k"
    if "read_hex4 (skip 1 (skip 1 j)) = Some (cp, k')" "read_low_surrogate k' cp = (cp', k)"
    for cp k' cp' k
    using that by (auto simp: adv_def dest!: read_hex4_pos read_low_surrogate_pos)
  consider "at j (j_pos j) = QUOTE" | "at j (j_pos j) \<noteq> QUOTE" "at j (j_pos j) \<noteq> BACKSLASH"
    | e where "at j (j_pos j) = BACKSLASH" "simple_escape (at j (j_pos j + 1)) = Some e"
    | "at j (j_pos j) = BACKSLASH" "simple_escape (at j (j_pos j + 1)) = None"
    by blast
  then show ?thesis
  proof cases
    case 1
    with assms lt show ?thesis by (simp add: read_string_loop.simps [of n j])
  next
    case 2
    with assms lt have "read_string_loop n (skip 1 j) (put n (at j (j_pos j)) st) = Some (r, j')"
      by (simp add: read_string_loop.simps [of n j])
    moreover have "j_pos j < j_pos (skip 1 j)" by simp
    ultimately show ?thesis using lt one by blast
  next
    case (3 e)
    with assms lt have "read_string_loop n (skip 1 (skip 1 j)) (put n e st) = Some (r, j')"
      and "j_pos j + 1 < j_len j"
      by (auto simp: read_string_loop.simps [of n j] Let_def split: if_splits)
    moreover have "j_pos j < j_pos (skip 1 (skip 1 j))" by simp
    ultimately show ?thesis using lt two by blast
  next
    case 4
    with assms lt obtain cp k' cp' k where "read_hex4 (skip 1 (skip 1 j)) = Some (cp, k')"
      "read_low_surrogate k' cp = (cp', k)"
      "read_string_loop n k (put_utf8 n cp' st) = Some (r, j')"
      by (auto simp: read_string_loop.simps [of n j] Let_def split: if_splits option.splits prod.splits)
    with hex lt show ?thesis by blast
  qed
qed

lemma read_string_loop_adv:
  "read_string_loop n j st = Some (r, j') \<Longrightarrow> adv j j' \<and> j_pos j < j_pos j'"
proof (induction "j_len j - j_pos j" arbitrary: j st rule: less_induct)
  case less
  have more: "adv j j' \<and> j_pos j < j_pos j'"
    if "j_pos j < j_len j" "adv j k" "j_pos j < j_pos k" "read_string_loop n k st' = Some (r, j')" for k st'
  proof -
    from that have "adv k j' \<and> j_pos k < j_pos j'"
      by (intro less.hyps) (auto simp: adv_def)
    with that show ?thesis by (auto intro: adv_trans)
  qed
  from read_string_loop_step [OF less.prems] show ?case
    using more by (auto simp: adv_skip)
qed

text \<open>What the two ways of storing a decoded character keep, reading a string keeps.\<close>

lemma read_string_loop_invariant:
  assumes "read_string_loop n j st = Some (r, j')" "P st"
    and "\<And>c st. P st \<Longrightarrow> P (put n c st)" and "\<And>cp st. P st \<Longrightarrow> P (put_utf8 n cp st)"
  shows "P r"
  using assms(1,2)
proof (induction "j_len j - j_pos j" arbitrary: j st rule: less_induct)
  case less
  from read_string_loop_step [OF less.prems(1)] less.prems(2) show ?case
  proof (elim conjE disjE exE)
    fix k st' x assume "j_pos j < j_len j" "adv j k" "j_pos j < j_pos k" "P st"
      "read_string_loop n k st' = Some (r, j')" "st' = put n x st"
    then show ?thesis
      by (intro less.hyps [of k st']) (auto simp: adv_def intro: assms(3))
  next
    fix k st' x assume "j_pos j < j_len j" "adv j k" "j_pos j < j_pos k" "P st"
      "read_string_loop n k st' = Some (r, j')" "st' = put_utf8 n x st"
    then show ?thesis
      by (intro less.hyps [of k st']) (auto simp: adv_def intro: assms(4))
  qed simp
qed

lemma put_length: "length (fst st) < n \<Longrightarrow> length (fst (put n c st)) < n"
  by (cases st) (simp add: put_def)

lemma put_utf8_length: "length (fst st) < n \<Longrightarrow> length (fst (put_utf8 n cp st)) < n"
  by (simp add: put_utf8_def put_length)

lemma gs_json_read_string_length:
  "gs_json_read_string j n = Some ((s, t), j') \<Longrightarrow> 0 < n \<Longrightarrow> length s < n"
  by (auto simp: gs_json_read_string_def Let_def split: if_splits
      dest!: read_string_loop_invariant [where P = "\<lambda>st. length (fst st) < n"]
      intro: put_length put_utf8_length)

lemma gs_json_read_string_adv:
  "gs_json_read_string j n = Some (r, j') \<Longrightarrow> adv j j' \<and> j_pos j < j_pos j'"
  using gs_json_skip_ws_adv [of j]
  by (auto simp: gs_json_read_string_def Let_def adv_def split: if_splits dest!: read_string_loop_adv)

lemma number_token_adv: "number_token j tmp = Some (r, j') \<Longrightarrow> adv j j'"
proof (induction j tmp rule: number_token.induct)
  case (1 j tmp)
  then show ?case
    by (subst (asm) (2) number_token.simps) (auto simp: adv_def split: if_splits)
qed

lemma gs_json_read_number_adv: "gs_json_read_number j = Some (v, j') \<Longrightarrow> adv j j'"
  using gs_json_skip_ws_adv [of j]
  by (auto simp: gs_json_read_number_def split: option.splits prod.splits if_splits
      dest!: number_token_adv intro: adv_trans)

lemma gs_json_read_literal_adv: "gs_json_read_literal j t = Some (v, j') \<Longrightarrow> adv j j'"
  using gs_json_skip_ws_adv [of j]
  by (auto simp: gs_json_read_literal_def Let_def adv_def split: option.splits if_splits)

lemma skip_structure_adv: "skip_structure j d s e = Some j' \<Longrightarrow> adv j j'"
proof (induction j d s e rule: skip_structure.induct)
  case (1 j d s e)
  from "1.prems" have lt: "j_pos j < j_len j"
    by (subst (asm) skip_structure.simps) (auto split: if_splits)
  then have "adv j (skip 1 j)"
    by (simp add: adv_skip)
  moreover have "skip 1 j = j' \<or> adv (skip 1 j) j'"
    using "1" lt by (subst (asm) (8) skip_structure.simps) (auto simp: Let_def split: if_splits)
  ultimately show ?case
    by (auto intro: adv_trans)
qed

lemma gs_json_skip_value_adv: "gs_json_skip_value j = Some j' \<Longrightarrow> adv j j'"
  by (auto simp: gs_json_skip_value_def split: prod.splits if_splits
      dest!: gs_json_peek_adv skip_structure_adv gs_json_read_string_adv gs_json_read_number_adv
        gs_json_read_literal_adv intro: adv_trans)

lemmas cursor_adv =
  gs_json_accept_adv gs_json_peek_adv gs_json_at_end_adv gs_json_read_string_adv
  gs_json_read_number_adv gs_json_read_literal_adv gs_json_skip_value_adv

section \<open>Nothing past \<open>len\<close> is read\<close>

text \<open>
  The part of the buffer the cursor may read. Every operation commutes with cutting the
  buffer down to it: no result depends on a byte at \<open>len\<close> or beyond.
\<close>

definition view :: "gs_json \<Rightarrow> gs_json" where
  "view j = j\<lparr>j_buf := take (j_len j) (j_buf j)\<rparr>"

lemma view_sel [cursor_simps]:
  "j_len (view j) = j_len j" "j_pos (view j) = j_pos j"
  "i < j_len j \<Longrightarrow> at (view j) i = at j i"
  "view (skip n j) = skip n (view j)"
  by (simp_all add: view_def skip_def)

lemma gs_json_skip_ws_view [cursor_simps]: "gs_json_skip_ws (view j) = view (gs_json_skip_ws j)"
proof (induction j rule: gs_json_skip_ws.induct)
  case (1 j)
  then show ?case
    by (simp add: gs_json_skip_ws.simps [of j] gs_json_skip_ws.simps [of "view j"] cursor_simps
        cong: conj_cong)
qed

lemma gs_json_at_end_view [cursor_simps]:
  "gs_json_at_end (view j) = apsnd view (gs_json_at_end j)"
  by (simp add: gs_json_at_end_def Let_def cursor_simps)

lemma gs_json_peek_view [cursor_simps]: "gs_json_peek (view j) = apsnd view (gs_json_peek j)"
  by (simp add: gs_json_peek_def Let_def cursor_simps)

lemma gs_json_accept_view [cursor_simps]:
  "gs_json_accept (view j) c = apsnd view (gs_json_accept j c)"
  by (simp add: gs_json_accept_def Let_def cursor_simps cong: conj_cong)

lemma read_hex4_view [cursor_simps]: "read_hex4 (view j) = map_option (apsnd view) (read_hex4 j)"
  by (simp add: read_hex4_def cursor_simps split: option.splits)

lemma read_low_surrogate_view [cursor_simps]:
  "read_low_surrogate (view j) cp = apsnd view (read_low_surrogate j cp)"
  using read_hex4_view [of "skip 2 j"]
  by (auto simp: read_low_surrogate_def cursor_simps split: option.splits)

lemma read_string_loop_view [cursor_simps]:
  "read_string_loop n (view j) st = map_option (apsnd view) (read_string_loop n j st)"
proof (induction n j st rule: read_string_loop.induct)
  case (1 n j st)
  show ?case
    using "1" read_hex4_view [of "skip 1 (skip 1 j)"]
    by (simp add: read_string_loop.simps [of n j] read_string_loop.simps [of n "view j"]
        cursor_simps Let_def split: option.splits prod.splits)
qed

lemma gs_json_read_string_view [cursor_simps]:
  "gs_json_read_string (view j) n = map_option (apsnd view) (gs_json_read_string j n)"
  using read_string_loop_view [of n "skip 1 (gs_json_skip_ws j)"]
  by (simp add: gs_json_read_string_def Let_def cursor_simps cong: disj_cong)

lemma number_token_view [cursor_simps]:
  "number_token (view j) tmp = map_option (apsnd view) (number_token j tmp)"
proof (induction j tmp rule: number_token.induct)
  case (1 j tmp)
  then show ?case
    by (simp add: number_token.simps [of j] number_token.simps [of "view j"] cursor_simps
        cong: conj_cong)
qed

lemma gs_json_read_number_view [cursor_simps]:
  "gs_json_read_number (view j) = map_option (apsnd view) (gs_json_read_number j)"
  by (auto simp: gs_json_read_number_def cursor_simps split: option.splits prod.splits)

lemma view_take:
  "\<not> j_len j < j_pos j + n \<Longrightarrow>
   take n (drop (j_pos j) (j_buf (view j))) = take n (drop (j_pos j) (j_buf j))"
  by (simp add: view_def drop_take min_def)

lemma gs_json_read_literal_view [cursor_simps]:
  "gs_json_read_literal (view j) t = map_option (apsnd view) (gs_json_read_literal j t)"
  using view_take [of "gs_json_skip_ws j"]
  by (simp add: gs_json_read_literal_def Let_def cursor_simps del: length_Cons
      split: option.splits cong: disj_cong)

lemma skip_structure_view [cursor_simps]:
  "skip_structure (view j) d s e = map_option view (skip_structure j d s e)"
proof (induction "j_len j - j_pos j" arbitrary: j d s e rule: less_induct)
  case less
  have "skip_structure (skip 1 (view j)) d s e = map_option view (skip_structure (skip 1 j) d s e)"
    if "j_pos j < j_len j" for d s e
    using less.hyps [of "skip 1 j"] that by (simp add: cursor_simps)
  then show ?case
    by (simp add: skip_structure.simps [of j] skip_structure.simps [of "view j"] cursor_simps Let_def)
qed

lemma map_option_snd_apsnd: "map_option snd (map_option (apsnd f) x) = map_option f (map_option snd x)"
  by (cases x) simp_all

lemma gs_json_skip_value_view [cursor_simps]:
  "gs_json_skip_value (view j) = map_option view (gs_json_skip_value j)"
  by (cases "gs_json_peek j") (simp add: gs_json_skip_value_def cursor_simps map_option_snd_apsnd)

end
