(* ===== verification/Protocol.thy ===== *)
theory Protocol
  imports Prelude
begin

text \<open>
  The wire vocabulary of \<^verbatim>\<open>include/gspro/protocol.h\<close> and its tables in
  \<^verbatim>\<open>src/gs_misc.c\<close>: status texts, units, handedness and clubs. Handedness and clubs
  travel in \<^verbatim>\<open>uint8_t\<close> fields that a host may fill with any value, so they are integers
  here and every table access keeps the range test of the source.
\<close>

section \<open>Constants\<close>

abbreviation (input) GSP_API_VERSION_TEXT :: bytes where "GSP_API_VERSION_TEXT \<equiv> ''1''"

abbreviation (input) GSP_CODE_SHOT_RECEIVED :: int where "GSP_CODE_SHOT_RECEIVED \<equiv> 200"
abbreviation (input) GSP_CODE_PLAYER_INFO :: int where "GSP_CODE_PLAYER_INFO \<equiv> 201"
abbreviation (input) GSP_CODE_READY :: int where "GSP_CODE_READY \<equiv> 202"
abbreviation (input) GSP_CODE_ROUND_ENDED :: int where "GSP_CODE_ROUND_ENDED \<equiv> 203"
abbreviation (input) GSP_CODE_FAILURE :: int where "GSP_CODE_FAILURE \<equiv> 501"

abbreviation (input) GSP_TEXT_SHOT_RECEIVED :: bytes where
  "GSP_TEXT_SHOT_RECEIVED \<equiv> ''Shot received successfully''"
abbreviation (input) GSP_TEXT_PLAYER_INFO :: bytes where
  "GSP_TEXT_PLAYER_INFO \<equiv> ''GSPro Player Information''"
abbreviation (input) GSP_TEXT_READY :: bytes where "GSP_TEXT_READY \<equiv> ''GSPro ready''"
abbreviation (input) GSP_TEXT_ROUND_ENDED :: bytes where "GSP_TEXT_ROUND_ENDED \<equiv> ''GSPro round ended''"
abbreviation (input) GSP_TEXT_BAD_JSON :: bytes where "GSP_TEXT_BAD_JSON \<equiv> ''Bad JSON data''"
abbreviation (input) GSP_TEXT_TOO_LARGE :: bytes where "GSP_TEXT_TOO_LARGE \<equiv> ''Payload too large''"
abbreviation (input) GSP_TEXT_INCOMPLETE :: bytes where "GSP_TEXT_INCOMPLETE \<equiv> ''Incomplete ball data''"

section \<open>Status texts\<close>

fun gsp_status_str :: "gsp_status \<Rightarrow> bytes" where
  "gsp_status_str GSP_OK = ''ok''"
| "gsp_status_str GSP_PENDING = ''pending''"
| "gsp_status_str GSP_ERR_INVALID_ARG = ''invalid argument''"
| "gsp_status_str GSP_ERR_INVALID_STATE = ''invalid state''"
| "gsp_status_str GSP_ERR_NO_MEMORY = ''out of memory''"
| "gsp_status_str GSP_ERR_BUFFER_TOO_SMALL = ''buffer too small''"
| "gsp_status_str GSP_ERR_NOT_SUPPORTED = ''not supported''"
| "gsp_status_str GSP_ERR_TOO_MANY_CONNECTIONS = ''too many connections''"
| "gsp_status_str GSP_ERR_UNKNOWN_CONNECTION = ''unknown connection''"
| "gsp_status_str GSP_ERR_MALFORMED = ''malformed message''"
| "gsp_status_str GSP_ERR_MESSAGE_TOO_LARGE = ''message too large''"
| "gsp_status_str GSP_ERR_QUEUE_FULL = ''write queue full''"
| "gsp_status_str GSP_ERR_CLOSED = ''server closed''"

section \<open>Units and handedness\<close>

datatype gsp_units = GSP_UNITS_UNKNOWN | GSP_UNITS_YARDS | GSP_UNITS_METERS

definition gsp_units_parse :: "bytes \<Rightarrow> gsp_units" where
  "gsp_units_parse text =
     (if gs_ci_equal text ''Yards'' then GSP_UNITS_YARDS
      else if gs_ci_equal text ''Meters'' then GSP_UNITS_METERS
      else GSP_UNITS_UNKNOWN)"

fun gsp_units_text :: "gsp_units \<Rightarrow> bytes" where
  "gsp_units_text GSP_UNITS_YARDS = ''Yards''"
| "gsp_units_text GSP_UNITS_METERS = ''Meters''"
| "gsp_units_text GSP_UNITS_UNKNOWN = ''''"

type_synonym gsp_handed = int
type_synonym gsp_club = int

abbreviation (input) GSP_HANDED_UNKNOWN :: gsp_handed where "GSP_HANDED_UNKNOWN \<equiv> 0"
abbreviation (input) GSP_HANDED_RIGHT :: gsp_handed where "GSP_HANDED_RIGHT \<equiv> 1"
abbreviation (input) GSP_HANDED_LEFT :: gsp_handed where "GSP_HANDED_LEFT \<equiv> 2"

definition gsp_handed_parse :: "bytes \<Rightarrow> gsp_handed" where
  "gsp_handed_parse text =
     (if gs_ci_equal text ''RH'' then GSP_HANDED_RIGHT
      else if gs_ci_equal text ''LH'' then GSP_HANDED_LEFT
      else GSP_HANDED_UNKNOWN)"

definition gsp_handed_text :: "gsp_handed \<Rightarrow> bytes" where
  "gsp_handed_text handed =
     (if handed = GSP_HANDED_RIGHT then ''RH''
      else if handed = GSP_HANDED_LEFT then ''LH'' else '''')"

section \<open>Clubs\<close>

abbreviation (input) GSP_CLUB_UNKNOWN :: gsp_club where "GSP_CLUB_UNKNOWN \<equiv> 0"
abbreviation (input) GSP_CLUB_COUNT :: gsp_club where "GSP_CLUB_COUNT \<equiv> 28"

definition CLUB_TABLE :: "(bytes \<times> bytes) list" where
  "CLUB_TABLE =
    [('''', ''''),
     (''DR'', ''Driver''),
     (''W2'', ''2 wood''), (''W3'', ''3 wood''), (''W4'', ''4 wood''),
     (''W5'', ''5 wood''), (''W6'', ''6 wood''), (''W7'', ''7 wood''),
     (''H2'', ''2 hybrid''), (''H3'', ''3 hybrid''), (''H4'', ''4 hybrid''),
     (''H5'', ''5 hybrid''), (''H6'', ''6 hybrid''), (''H7'', ''7 hybrid''),
     (''I1'', ''1 iron''), (''I2'', ''2 iron''), (''I3'', ''3 iron''),
     (''I4'', ''4 iron''), (''I5'', ''5 iron''), (''I6'', ''6 iron''),
     (''I7'', ''7 iron''), (''I8'', ''8 iron''), (''I9'', ''9 iron''),
     (''PW'', ''Pitching wedge''),
     (''GW'', ''Gap wedge''),
     (''SW'', ''Sand wedge''),
     (''LW'', ''Lob wedge''),
     (''PT'', ''Putter'')]"

text \<open>The loop of \<^verbatim>\<open>gsp_club_parse\<close> from entry \<open>i\<close> on.\<close>

fun club_search :: "gsp_club \<Rightarrow> (bytes \<times> bytes) list \<Rightarrow> bytes \<Rightarrow> gsp_club" where
  "club_search i [] code = GSP_CLUB_UNKNOWN"
| "club_search i ((c, _) # tab) code =
     (if gs_ci_equal c code then i else club_search (i + 1) tab code)"

definition gsp_club_parse :: "bytes \<Rightarrow> gsp_club" where
  "gsp_club_parse code =
     (if code = [] then GSP_CLUB_UNKNOWN else club_search 1 (drop 1 CLUB_TABLE) code)"

definition gsp_club_code :: "gsp_club \<Rightarrow> bytes" where
  "gsp_club_code club =
     (if club \<le> 0 \<or> GSP_CLUB_COUNT \<le> club then '''' else fst (CLUB_TABLE ! nat club))"

definition gsp_club_name :: "gsp_club \<Rightarrow> bytes" where
  "gsp_club_name club =
     (if club \<le> 0 \<or> GSP_CLUB_COUNT \<le> club then '''' else snd (CLUB_TABLE ! nat club))"

section \<open>The tables agree with the enumerators\<close>

lemma club_range:
  assumes "0 < (c :: int)" "c < 28"
  shows "c \<in> set [1..27]"
  using assms by simp

lemma gsp_club_parse_code:
  assumes "0 < c" "c < GSP_CLUB_COUNT"
  shows "gsp_club_parse (gsp_club_code c) = c"
proof -
  have "\<forall>c \<in> set [1..27]. gsp_club_parse (gsp_club_code c) = c"
    by code_simp
  with club_range [OF assms] show ?thesis by blast
qed

lemma gsp_club_code_nonempty: "gsp_club_code c \<noteq> [] \<longleftrightarrow> 0 < c \<and> c < GSP_CLUB_COUNT"
proof (cases "0 < c \<and> c < GSP_CLUB_COUNT")
  case True
  have "\<forall>c \<in> set [1..27]. gsp_club_code c \<noteq> []"
    by code_simp
  with True club_range [of c] show ?thesis by blast
next
  case False
  then show ?thesis by (auto simp: gsp_club_code_def)
qed

lemma club_search_range:
  "club_search i tab code = 0 \<or> (i \<le> club_search i tab code \<and> club_search i tab code < i + int (length tab))"
proof (induction i tab code rule: club_search.induct)
  case (1 i code)
  then show ?case by simp
next
  case (2 i c n tab code)
  then show ?case by (cases "gs_ci_equal c code") (auto simp: algebra_simps)
qed

lemma gsp_club_parse_range: "0 \<le> gsp_club_parse s \<and> gsp_club_parse s < GSP_CLUB_COUNT"
proof -
  have "length (drop 1 CLUB_TABLE) = 27"
    by (simp add: CLUB_TABLE_def)
  then show ?thesis
    using club_search_range [of 1 "drop 1 CLUB_TABLE" s] by (auto simp: gsp_club_parse_def)
qed

lemma gsp_handed_parse_text: "handed \<in> {1, 2} \<Longrightarrow> gsp_handed_parse (gsp_handed_text handed) = handed"
  by (auto simp: gsp_handed_parse_def gsp_handed_text_def gs_ascii_lower_def)

lemma club_search_ci: "gs_ci_equal s t \<Longrightarrow> club_search i tab s = club_search i tab t"
  by (induction tab arbitrary: i) (auto simp: gs_ci_equal_iff)

lemma club_search_hit:
  "0 < i \<Longrightarrow> club_search i tab s = c \<Longrightarrow> c \<noteq> 0 \<Longrightarrow>
   i \<le> c \<and> nat (c - i) < length tab \<and> gs_ci_equal (fst (tab ! nat (c - i))) s"
proof (induction i tab s rule: club_search.induct)
  case (1 i code)
  then show ?case by simp
next
  case (2 i cd n tab code)
  show ?case
  proof (cases "gs_ci_equal cd code")
    case True
    with 2 show ?thesis by simp
  next
    case False
    with 2 have IH: "i + 1 \<le> c" "nat (c - (i + 1)) < length tab"
      "gs_ci_equal (fst (tab ! nat (c - (i + 1)))) code" by simp_all
    then have "nat (c - i) = Suc (nat (c - (i + 1)))" by simp
    with IH show ?thesis by simp
  qed
qed

text \<open>
  C40. A text parses to club \<open>c\<close> exactly when it is that club's two-letter wire code, in any
  letter case: the code table and the enumerators cannot drift apart, and no code is taken
  for its neighbour.
\<close>

theorem club_roundtrip:
  assumes "0 < c" "c < GSP_CLUB_COUNT"
  shows "gsp_club_parse s = c \<longleftrightarrow> gs_ci_equal s (gsp_club_code c)"
proof
  assume p: "gsp_club_parse s = c"
  then have "club_search 1 (drop 1 CLUB_TABLE) s = c"
    using assms by (auto simp: gsp_club_parse_def split: if_splits)
  from club_search_hit [OF _ this] assms
  have "gs_ci_equal (fst (drop 1 CLUB_TABLE ! nat (c - 1))) s" by simp
  moreover have "drop 1 CLUB_TABLE ! nat (c - 1) = CLUB_TABLE ! nat c"
    using assms by (subst nth_drop) (simp_all add: CLUB_TABLE_def nat_diff_distrib)
  ultimately show "gs_ci_equal s (gsp_club_code c)"
    using assms by (simp add: gsp_club_code_def gs_ci_equal_sym)
next
  assume ci: "gs_ci_equal s (gsp_club_code c)"
  then have "s \<noteq> []" "gsp_club_code c \<noteq> []"
    using assms gsp_club_code_nonempty [of c] by (auto dest: gs_ci_equal_length)
  then show "gsp_club_parse s = c"
    using gsp_club_parse_code [OF assms] club_search_ci [OF ci] by (simp add: gsp_club_parse_def)
qed

theorem club_roundtrip_witness: "gsp_club_parse ''pT'' = 27"
proof -
  have "gs_ci_equal ''pT'' (gsp_club_code 27)" by code_simp
  then show ?thesis using club_roundtrip [of 27 "''pT''"] by simp
qed

end
