(* ===== verification/Message.thy ===== *)
theory Message
  imports CDouble Protocol
begin

text \<open>
  The decoded message and the player information (\<^verbatim>\<open>include/gspro/message.h\<close>) with
  the helpers of \<^verbatim>\<open>src/gs_misc.c\<close> on them: kind and completeness tests, the one
  derivation \<^verbatim>\<open>gsp_ball_data_derive\<close>, flag names and the equality that decides
  whether a 201 goes out. The \<^verbatim>\<open>reserved\<close> members of the structs are left out: no code
  reads or writes them beyond the zeroing.
\<close>

section \<open>The structs\<close>

abbreviation (input) GSP_CONN_NONE :: gsp_conn_id where "GSP_CONN_NONE \<equiv> 0"
abbreviation (input) GSP_TIME_UNKNOWN :: gsp_time_us where "GSP_TIME_UNKNOWN \<equiv> - (2 ^ 63)"

abbreviation (input) GSP_DEVICE_ID_MAX :: nat where "GSP_DEVICE_ID_MAX \<equiv> 64"
abbreviation (input) GSP_UNITS_TEXT_MAX :: nat where "GSP_UNITS_TEXT_MAX \<equiv> 16"
abbreviation (input) GSP_API_VERSION_MAX :: nat where "GSP_API_VERSION_MAX \<equiv> 8"
abbreviation (input) GSP_SURFACE_MAX :: nat where "GSP_SURFACE_MAX \<equiv> 16"

abbreviation (input) GSP_BALL_SPEED :: u32 where "GSP_BALL_SPEED \<equiv> 0x01"
abbreviation (input) GSP_BALL_SPIN_AXIS :: u32 where "GSP_BALL_SPIN_AXIS \<equiv> 0x02"
abbreviation (input) GSP_BALL_TOTAL_SPIN :: u32 where "GSP_BALL_TOTAL_SPIN \<equiv> 0x04"
abbreviation (input) GSP_BALL_BACK_SPIN :: u32 where "GSP_BALL_BACK_SPIN \<equiv> 0x08"
abbreviation (input) GSP_BALL_SIDE_SPIN :: u32 where "GSP_BALL_SIDE_SPIN \<equiv> 0x10"
abbreviation (input) GSP_BALL_HLA :: u32 where "GSP_BALL_HLA \<equiv> 0x20"
abbreviation (input) GSP_BALL_VLA :: u32 where "GSP_BALL_VLA \<equiv> 0x40"
abbreviation (input) GSP_BALL_CARRY_DISTANCE :: u32 where "GSP_BALL_CARRY_DISTANCE \<equiv> 0x80"

record gsp_ball_data =
  b_speed :: double
  b_spin_axis :: double
  b_total_spin :: double
  b_back_spin :: double
  b_side_spin :: double
  b_hla :: double
  b_vla :: double
  b_carry_distance :: double
  b_present :: u32
  b_derived :: u32

abbreviation (input) GSP_CLUB_SPEED :: u32 where "GSP_CLUB_SPEED \<equiv> 0x001"
abbreviation (input) GSP_CLUB_ANGLE_OF_ATTACK :: u32 where "GSP_CLUB_ANGLE_OF_ATTACK \<equiv> 0x002"
abbreviation (input) GSP_CLUB_FACE_TO_TARGET :: u32 where "GSP_CLUB_FACE_TO_TARGET \<equiv> 0x004"
abbreviation (input) GSP_CLUB_LIE :: u32 where "GSP_CLUB_LIE \<equiv> 0x008"
abbreviation (input) GSP_CLUB_LOFT :: u32 where "GSP_CLUB_LOFT \<equiv> 0x010"
abbreviation (input) GSP_CLUB_PATH :: u32 where "GSP_CLUB_PATH \<equiv> 0x020"
abbreviation (input) GSP_CLUB_SPEED_AT_IMPACT :: u32 where "GSP_CLUB_SPEED_AT_IMPACT \<equiv> 0x040"
abbreviation (input) GSP_CLUB_VERTICAL_FACE_IMPACT :: u32 where "GSP_CLUB_VERTICAL_FACE_IMPACT \<equiv> 0x080"
abbreviation (input) GSP_CLUB_HORIZONTAL_FACE_IMPACT :: u32 where "GSP_CLUB_HORIZONTAL_FACE_IMPACT \<equiv> 0x100"
abbreviation (input) GSP_CLUB_CLOSURE_RATE :: u32 where "GSP_CLUB_CLOSURE_RATE \<equiv> 0x200"

record gsp_club_data =
  c_speed :: double
  c_angle_of_attack :: double
  c_face_to_target :: double
  c_lie :: double
  c_loft :: double
  c_path :: double
  c_speed_at_impact :: double
  c_vertical_face_impact :: double
  c_horizontal_face_impact :: double
  c_closure_rate :: double
  c_present :: u32

abbreviation (input) GSP_OPT_CONTAINS_BALL_DATA :: u8 where "GSP_OPT_CONTAINS_BALL_DATA \<equiv> 0x01"
abbreviation (input) GSP_OPT_CONTAINS_CLUB_DATA :: u8 where "GSP_OPT_CONTAINS_CLUB_DATA \<equiv> 0x02"
abbreviation (input) GSP_OPT_LAUNCH_MONITOR_IS_READY :: u8 where "GSP_OPT_LAUNCH_MONITOR_IS_READY \<equiv> 0x04"
abbreviation (input) GSP_OPT_LAUNCH_MONITOR_BALL_DETECTED :: u8 where
  "GSP_OPT_LAUNCH_MONITOR_BALL_DETECTED \<equiv> 0x08"
abbreviation (input) GSP_OPT_IS_HEARTBEAT :: u8 where "GSP_OPT_IS_HEARTBEAT \<equiv> 0x10"

text \<open>The five \<^verbatim>\<open>uint8_t\<close> members are read as truth values only.\<close>

record gsp_shot_options =
  o_contains_ball_data :: bool
  o_contains_club_data :: bool
  o_launch_monitor_is_ready :: bool
  o_launch_monitor_ball_detected :: bool
  o_is_heartbeat :: bool
  o_present :: u8

datatype gsp_message_kind = GSP_MSG_NONE | GSP_MSG_SHOT | GSP_MSG_HEARTBEAT | GSP_MSG_STATUS

abbreviation (input) GSP_MSGF_MISSING_DEVICE_ID :: u32 where "GSP_MSGF_MISSING_DEVICE_ID \<equiv> 0x00001"
abbreviation (input) GSP_MSGF_MISSING_SHOT_NUMBER :: u32 where "GSP_MSGF_MISSING_SHOT_NUMBER \<equiv> 0x00002"
abbreviation (input) GSP_MSGF_SHOT_NUMBER_NOT_INTEGER :: u32 where
  "GSP_MSGF_SHOT_NUMBER_NOT_INTEGER \<equiv> 0x00004"
abbreviation (input) GSP_MSGF_MISSING_API_VERSION :: u32 where "GSP_MSGF_MISSING_API_VERSION \<equiv> 0x00008"
abbreviation (input) GSP_MSGF_UNKNOWN_API_VERSION :: u32 where "GSP_MSGF_UNKNOWN_API_VERSION \<equiv> 0x00010"
abbreviation (input) GSP_MSGF_MISSING_OPTIONS :: u32 where "GSP_MSGF_MISSING_OPTIONS \<equiv> 0x00020"
abbreviation (input) GSP_MSGF_BALL_FLAG_WITHOUT_OBJECT :: u32 where
  "GSP_MSGF_BALL_FLAG_WITHOUT_OBJECT \<equiv> 0x00040"
abbreviation (input) GSP_MSGF_BALL_OBJECT_WITHOUT_FLAG :: u32 where
  "GSP_MSGF_BALL_OBJECT_WITHOUT_FLAG \<equiv> 0x00080"
abbreviation (input) GSP_MSGF_CLUB_FLAG_WITHOUT_OBJECT :: u32 where
  "GSP_MSGF_CLUB_FLAG_WITHOUT_OBJECT \<equiv> 0x00100"
abbreviation (input) GSP_MSGF_CLUB_OBJECT_WITHOUT_FLAG :: u32 where
  "GSP_MSGF_CLUB_OBJECT_WITHOUT_FLAG \<equiv> 0x00200"
abbreviation (input) GSP_MSGF_BALL_INCOMPLETE :: u32 where "GSP_MSGF_BALL_INCOMPLETE \<equiv> 0x00400"
abbreviation (input) GSP_MSGF_UNKNOWN_UNITS :: u32 where "GSP_MSGF_UNKNOWN_UNITS \<equiv> 0x00800"
abbreviation (input) GSP_MSGF_KEY_CASE_MISMATCH :: u32 where "GSP_MSGF_KEY_CASE_MISMATCH \<equiv> 0x01000"
abbreviation (input) GSP_MSGF_UNKNOWN_KEYS :: u32 where "GSP_MSGF_UNKNOWN_KEYS \<equiv> 0x02000"
abbreviation (input) GSP_MSGF_SHOT_NUMBER_REPEATED :: u32 where "GSP_MSGF_SHOT_NUMBER_REPEATED \<equiv> 0x04000"
abbreviation (input) GSP_MSGF_STRING_TRUNCATED :: u32 where "GSP_MSGF_STRING_TRUNCATED \<equiv> 0x08000"
abbreviation (input) GSP_MSGF_TYPE_COERCED :: u32 where "GSP_MSGF_TYPE_COERCED \<equiv> 0x10000"

record gsp_message =
  m_conn :: gsp_conn_id
  m_sequence :: u32
  m_host_recv_us :: gsp_time_us
  m_kind :: gsp_message_kind
  m_units :: gsp_units
  m_flags :: u32
  m_shot_number :: int
  m_device_id :: bytes
  m_units_text :: bytes
  m_api_version :: bytes
  m_options :: gsp_shot_options
  m_ball :: gsp_ball_data
  m_club :: gsp_club_data
  m_wire_length :: u16
  m_unknown_keys :: u16

record gsp_player_info =
  p_handed :: gsp_handed
  p_club :: gsp_club
  p_has_distance :: bool
  p_distance_to_target :: double
  p_surface :: bytes

text \<open>What \<^verbatim>\<open>memset(x, 0, sizeof x)\<close> leaves.\<close>

definition zero_ball :: gsp_ball_data where
  "zero_ball = \<lparr>b_speed = dzero, b_spin_axis = dzero, b_total_spin = dzero, b_back_spin = dzero,
     b_side_spin = dzero, b_hla = dzero, b_vla = dzero, b_carry_distance = dzero,
     b_present = 0, b_derived = 0\<rparr>"

definition zero_club :: gsp_club_data where
  "zero_club = \<lparr>c_speed = dzero, c_angle_of_attack = dzero, c_face_to_target = dzero, c_lie = dzero,
     c_loft = dzero, c_path = dzero, c_speed_at_impact = dzero, c_vertical_face_impact = dzero,
     c_horizontal_face_impact = dzero, c_closure_rate = dzero, c_present = 0\<rparr>"

definition zero_options :: gsp_shot_options where
  "zero_options = \<lparr>o_contains_ball_data = False, o_contains_club_data = False,
     o_launch_monitor_is_ready = False, o_launch_monitor_ball_detected = False,
     o_is_heartbeat = False, o_present = 0\<rparr>"

definition zero_message :: gsp_message where
  "zero_message = \<lparr>m_conn = 0, m_sequence = 0, m_host_recv_us = 0, m_kind = GSP_MSG_NONE,
     m_units = GSP_UNITS_UNKNOWN, m_flags = 0, m_shot_number = 0, m_device_id = [],
     m_units_text = [], m_api_version = [], m_options = zero_options, m_ball = zero_ball,
     m_club = zero_club, m_wire_length = 0, m_unknown_keys = 0\<rparr>"

definition zero_player :: gsp_player_info where
  "zero_player = \<lparr>p_handed = 0, p_club = 0, p_has_distance = False,
     p_distance_to_target = dzero, p_surface = []\<rparr>"

section \<open>Questions about a message\<close>

definition gsp_message_is_shot :: "gsp_message \<Rightarrow> bool" where
  "gsp_message_is_shot m \<longleftrightarrow> m_kind m = GSP_MSG_SHOT"

definition gsp_message_ball_zero_speed :: "gsp_message \<Rightarrow> bool" where
  "gsp_message_ball_zero_speed m =
     (if \<not> gsp_message_is_shot m then False
      else b_present (m_ball m) AND GSP_BALL_SPEED \<noteq> 0 \<and> d_eq (b_speed (m_ball m)) dzero)"

definition gsp_message_ball_complete :: "gsp_ball_data \<Rightarrow> bool" where
  "gsp_message_ball_complete ball =
     (let p = b_present ball;
          need = GSP_BALL_SPEED OR GSP_BALL_HLA OR GSP_BALL_VLA;
          both = GSP_BALL_BACK_SPIN OR GSP_BALL_SIDE_SPIN in
      if p AND need \<noteq> need then False
      else
        (let pair = (p AND both = both) in
         if p AND GSP_BALL_TOTAL_SPIN = 0 \<and> \<not> pair then False
         else if p AND GSP_BALL_SPIN_AXIS = 0 \<and> \<not> pair then False
         else True))"

section \<open>Double arithmetic\<close>

fun d_neg :: "double \<Rightarrow> double" where
  "d_neg NaN = NaN"
| "d_neg (Infinity s) = Infinity (\<not> s)"
| "d_neg (Finite s m e) = Finite (\<not> s) m e"

fun fabs :: "double \<Rightarrow> double" where
  "fabs NaN = NaN"
| "fabs (Infinity s) = Infinity False"
| "fabs (Finite s m e) = Finite False m e"

definition round_scaled :: "bool \<Rightarrow> int \<Rightarrow> int \<Rightarrow> double" where
  "round_scaled s m e = (case as_ratio m e of (n, d) \<Rightarrow> round_ratio s n d)"

fun d_mul :: "double \<Rightarrow> double \<Rightarrow> double" where
  "d_mul NaN _ = NaN"
| "d_mul _ NaN = NaN"
| "d_mul (Infinity s) (Infinity t) = Infinity (s \<noteq> t)"
| "d_mul (Infinity s) (Finite t m e) = (if m = 0 then NaN else Infinity (s \<noteq> t))"
| "d_mul (Finite t m e) (Infinity s) = (if m = 0 then NaN else Infinity (s \<noteq> t))"
| "d_mul (Finite s m e) (Finite t m' e') = round_scaled (s \<noteq> t) (m * m') (e + e')"

fun d_add :: "double \<Rightarrow> double \<Rightarrow> double" where
  "d_add NaN _ = NaN"
| "d_add _ NaN = NaN"
| "d_add (Infinity s) (Infinity t) = (if s = t then Infinity s else NaN)"
| "d_add (Infinity s) (Finite _ _ _) = Infinity s"
| "d_add (Finite _ _ _) (Infinity t) = Infinity t"
| "d_add (Finite s m e) (Finite t m' e') =
     (let b = min e e'; v = scaled s m e b + scaled t m' e' b in
      if v = 0 then Finite (s \<and> t) 0 (- 1074) else round_scaled (v < 0) \<bar>v\<bar> b)"

definition d_sub :: "double \<Rightarrow> double \<Rightarrow> double" where
  "d_sub x y = d_add x (d_neg y)"

definition d_less :: "double \<Rightarrow> double \<Rightarrow> bool" where
  "d_less x y \<longleftrightarrow> d_le x y \<and> \<not> d_le y x"

section \<open>The one derivation\<close>

text \<open>
  The functions of \<^verbatim>\<open>math.h\<close> the derivation calls, which C leaves to the
  implementation; nothing below relies on their values.
\<close>

record libm =
  lm_cos :: "double \<Rightarrow> double"
  lm_sin :: "double \<Rightarrow> double"
  lm_atan2 :: "double \<Rightarrow> double \<Rightarrow> double"
  lm_hypot :: "double \<Rightarrow> double \<Rightarrow> double"

definition GS_RAD_TO_DEG :: double where
  "GS_RAD_TO_DEG = fst (strtod ''57.295779513082320876798'')"

definition GS_DEG_TO_RAD :: double where
  "GS_DEG_TO_RAD = fst (strtod ''0.017453292519943295769237'')"

definition gsp_ball_data_derive :: "libm \<Rightarrow> gsp_ball_data \<Rightarrow> gsp_status \<times> gsp_ball_data" where
  "gsp_ball_data_derive lm b =
     (let both = GSP_BALL_BACK_SPIN OR GSP_BALL_SIDE_SPIN;
          have_pair = (b_present b AND both = both);
          have_total = (b_present b AND GSP_BALL_TOTAL_SPIN \<noteq> 0);
          have_axis = (b_present b AND GSP_BALL_SPIN_AXIS \<noteq> 0);
          placeholder = (have_total \<and> d_eq (b_total_spin b) dzero \<and> have_pair \<and>
            (\<not> d_eq (b_back_spin b) dzero \<or> \<not> d_eq (b_side_spin b) dzero));
          have_total = (have_total \<and> \<not> placeholder);
          have_axis = (have_axis \<and> \<not> placeholder) in
      if have_pair \<and> have_total \<and> have_axis then
        (let rad = d_mul (b_spin_axis b) GS_DEG_TO_RAD;
             implied_back = d_mul (b_total_spin b) (lm_cos lm rad);
             implied_side = d_mul (b_total_spin b) (lm_sin lm rad);
             error = lm_hypot lm (d_sub implied_back (b_back_spin b))
                                 (d_sub implied_side (b_side_spin b));
             scale = fabs (b_total_spin b) in
         if d_less (d_mul (fst (strtod ''0.01'')) scale) error then (GSP_PENDING, b)
         else (GSP_OK, b))
      else if have_pair then
        (let b = (if have_total then b
                  else b\<lparr>b_total_spin := lm_hypot lm (b_back_spin b) (b_side_spin b),
                         b_present := b_present b OR GSP_BALL_TOTAL_SPIN,
                         b_derived := b_derived b OR GSP_BALL_TOTAL_SPIN\<rparr>);
             b = (if have_axis then b
                  else b\<lparr>b_spin_axis :=
                           d_mul (lm_atan2 lm (b_side_spin b) (b_back_spin b)) GS_RAD_TO_DEG,
                         b_present := b_present b OR GSP_BALL_SPIN_AXIS,
                         b_derived := b_derived b OR GSP_BALL_SPIN_AXIS\<rparr>) in
         (GSP_OK, b))
      else if have_total \<and> have_axis then
        (let rad = d_mul (b_spin_axis b) GS_DEG_TO_RAD;
             b = (if b_present b AND GSP_BALL_BACK_SPIN = 0 then
                    b\<lparr>b_back_spin := d_mul (b_total_spin b) (lm_cos lm rad),
                      b_present := b_present b OR GSP_BALL_BACK_SPIN,
                      b_derived := b_derived b OR GSP_BALL_BACK_SPIN\<rparr>
                  else b);
             b = (if b_present b AND GSP_BALL_SIDE_SPIN = 0 then
                    b\<lparr>b_side_spin := d_mul (b_total_spin b) (lm_sin lm rad),
                      b_present := b_present b OR GSP_BALL_SIDE_SPIN,
                      b_derived := b_derived b OR GSP_BALL_SIDE_SPIN\<rparr>
                  else b) in
         (GSP_OK, b))
      else (GSP_OK, b))"

section \<open>Names and player equality\<close>

definition FLAG_NAMES :: "bytes list" where
  "FLAG_NAMES =
    [''MISSING_DEVICE_ID'', ''MISSING_SHOT_NUMBER'', ''SHOT_NUMBER_NOT_INTEGER'',
     ''MISSING_API_VERSION'', ''UNKNOWN_API_VERSION'', ''MISSING_OPTIONS'',
     ''BALL_FLAG_WITHOUT_OBJECT'', ''BALL_OBJECT_WITHOUT_FLAG'', ''CLUB_FLAG_WITHOUT_OBJECT'',
     ''CLUB_OBJECT_WITHOUT_FLAG'', ''BALL_INCOMPLETE'', ''UNKNOWN_UNITS'',
     ''KEY_CASE_MISMATCH'', ''UNKNOWN_KEYS'', ''SHOT_NUMBER_REPEATED'',
     ''STRING_TRUNCATED'', ''TYPE_COERCED'']"

text \<open>
  The loop \<open>while ((v >> bit) != 1u) bit++\<close>. A shift by 32 is undefined in C, so the loop
  has no value there; \<open>flag_bit_total\<close> shows that a nonzero \<open>v\<close> never gets that far.
\<close>

fun flag_bit :: "nat \<Rightarrow> u32 \<Rightarrow> nat \<Rightarrow> nat option" where
  "flag_bit 0 v bt = None"
| "flag_bit (Suc fuel) v bt =
     (if drop_bit bt v = 1 then Some bt else flag_bit fuel v (bt + 1))"

definition gsp_message_flag_name :: "u32 \<Rightarrow> bytes option" where
  "gsp_message_flag_name v =
     (if v = 0 \<or> v AND (v - 1) \<noteq> 0 then Some ''''
      else case flag_bit 32 v 0 of
             None \<Rightarrow> None
           | Some bt \<Rightarrow> if length FLAG_NAMES \<le> bt then Some '''' else Some (FLAG_NAMES ! bt))"

text \<open>
  \<^verbatim>\<open>gsp_player_info_equal\<close> on two distinct objects (the server never passes one twice).
\<close>

definition gsp_player_info_equal :: "gsp_player_info \<Rightarrow> gsp_player_info \<Rightarrow> bool" where
  "gsp_player_info_equal a b =
     (if p_handed a \<noteq> p_handed b \<or> p_club a \<noteq> p_club b \<or> p_has_distance a \<noteq> p_has_distance b
      then False
      else if p_has_distance a \<and> \<not> d_eq (p_distance_to_target a) (p_distance_to_target b)
      then False
      else p_surface a = p_surface b)"

section \<open>Flag names: one bit, one name\<close>

lemma flag_bit_found: "flag_bit n v k = Some bt \<Longrightarrow> drop_bit bt v = 1"
  by (induction n v k rule: flag_bit.induct) (auto split: if_splits)

lemma flag_bit_search: "k \<le> bt \<Longrightarrow> bt < k + n \<Longrightarrow> drop_bit bt v = 1 \<Longrightarrow> flag_bit n v k \<noteq> None"
proof (induction n v k rule: flag_bit.induct)
  case (2 fuel v k)
  then show ?case by (cases "bt = k") auto
qed simp

lemma div_one_iff: "0 < d \<Longrightarrow> (n :: nat) div d = 1 \<longleftrightarrow> d \<le> n \<and> n < 2 * d"
  using less_eq_div_iff_mult_less_eq [of d 1 n] div_less_iff_less_mult [of d n 2]
  by (simp add: mult.commute) linarith

lemma drop_bit_one_iff: "drop_bit n (v :: u32) = 1 \<longleftrightarrow> 2 ^ n \<le> unat v \<and> unat v < 2 * 2 ^ n"
proof -
  have "drop_bit n v = 1 \<longleftrightarrow> unat (drop_bit n v) = 1"
    by (metis unat_1 word_unat_eq_iff)
  also have "\<dots> \<longleftrightarrow> unat v div 2 ^ n = 1"
    by (simp only: unat_drop_bit_eq) (simp add: drop_bit_eq_div)
  also have "\<dots> \<longleftrightarrow> 2 ^ n \<le> unat v \<and> unat v < 2 * 2 ^ n"
    by (rule div_one_iff) simp
  finally show ?thesis .
qed

lemma unat_two_power: "n < 32 \<Longrightarrow> unat ((2::u32) ^ n) = 2 ^ n"
  by transfer (simp add: take_bit_int_eq_self nat_power_eq)

lemma drop_bit_two_power: "drop_bit n ((2::u32) ^ i) = 1 \<Longrightarrow> i < 32 \<Longrightarrow> n = i"
  by (simp add: drop_bit_one_iff unat_two_power flip: power_Suc)

lemma flag_bit_total: "v \<noteq> 0 \<Longrightarrow> \<exists>bt < 32. flag_bit 32 v 0 = Some bt \<and> drop_bit bt v = 1"
proof -
  assume "v \<noteq> 0"
  then have "1 \<le> unat v" by (simp add: Suc_leI unat_gt_0)
  then obtain n where n: "2 ^ n \<le> unat v" "unat v < 2 ^ (n + 1)"
    using ex_power_ivl1 [of 2 "unat v"] by auto
  have ub: "k < 32" if "2 ^ k \<le> unat v" for k
    by (rule power_less_imp_less_exp [of "2 :: nat"])
      (use that unsigned_less [of v, where 'a = nat] in auto)
  from n have "drop_bit n v = 1" by (simp add: drop_bit_one_iff)
  with flag_bit_search [of 0 n 32 v] ub n obtain bt where bt: "flag_bit 32 v 0 = Some bt" by auto
  with flag_bit_found [OF bt] ub show ?thesis by (auto simp: drop_bit_one_iff)
qed

lemma single_bit:
  assumes "drop_bit n (v :: u32) = 1" "n < 32"
  shows "v AND (v - 1) = 0 \<longleftrightarrow> v = 2 ^ n"
proof
  have r: "2 ^ n \<le> unat v" "unat v < 2 * 2 ^ n" using assms by (auto simp: drop_bit_one_iff)
  assume z: "v AND (v - 1) = 0"
  show "v = 2 ^ n"
  proof (rule ccontr)
    assume "v \<noteq> 2 ^ n"
    then have "unat v \<noteq> 2 ^ n" using unat_two_power [OF assms(2)] by (metis word_unat_eq_iff)
    with r have gt: "2 ^ n < unat v" by simp
    then have "unat (v - 1) = unat v - 1" by (metis unat_dec_u32 not_less_zero unat_0)
    with r gt have "drop_bit n (v - 1) = 1" unfolding drop_bit_one_iff by linarith
    then have "drop_bit n (v AND (v - 1)) = 1" using assms by (simp add: drop_bit_and)
    with z show False by simp
  qed
next
  assume v: "v = 2 ^ n"
  have "(2 ^ n AND mask n :: u32) = 0"
    by (rule bit_word_eqI) (auto simp: bit_simps)
  with v show "v AND (v - 1) = 0"
    by (simp add: mask_eq_exp_minus_1)
qed

text \<open>
  \<^verbatim>\<open>gsp_message_flag_name\<close> always returns (its bit loop ends), names each of
  the seventeen flags by its own name, and answers the empty string for every other value: no
  combination of flags is taken for one of them.
\<close>

theorem flag_name_exact:
  "gsp_message_flag_name v = Some n \<longleftrightarrow>
     (\<exists>i < 17. v = 2 ^ i \<and> n = FLAG_NAMES ! i) \<or> (n = [] \<and> \<not> (\<exists>i < 17. v = 2 ^ i))"
proof (cases "v = 0")
  case True
  have "(2::u32) ^ i \<noteq> 0" if "i < 17" for i
    using that unat_two_power [of i] by auto
  with True show ?thesis by (auto simp: gsp_message_flag_name_def)
next
  case False
  then obtain bt where bt: "bt < 32" "flag_bit 32 v 0 = Some bt" "drop_bit bt v = 1"
    using flag_bit_total by blast
  have len: "length FLAG_NAMES = 17" by (simp add: FLAG_NAMES_def)
  have inj: "bt = i" if "v = 2 ^ i" "i < 17" for i
    using that bt drop_bit_two_power [of bt i] by simp
  show ?thesis
  proof (cases "v AND (v - 1) = 0")
    case True
    with single_bit bt have "v = 2 ^ bt" by simp
    with True False bt inj len show ?thesis 
      by (cases "bt < 17") (fastforce simp: gsp_message_flag_name_def)+
  next
    case False
    with single_bit [OF bt(3,1)] inj have "\<not> (\<exists>i < 17. v = 2 ^ i)" by auto
    with False show ?thesis by (auto simp: gsp_message_flag_name_def)
  qed
qed

section \<open>What the derivation touches\<close>

lemma mask_bit:
  "w AND 0x01 = 0 \<longleftrightarrow> \<not> bit w 0" "w AND 0x02 = 0 \<longleftrightarrow> \<not> bit w 1" "w AND 0x04 = 0 \<longleftrightarrow> \<not> bit w 2"
  "w AND 0x08 = 0 \<longleftrightarrow> \<not> bit w 3" "w AND 0x10 = 0 \<longleftrightarrow> \<not> bit w 4"
  for w :: u32
  using and_exp_eq_0_iff_not_bit [of w 0] and_exp_eq_0_iff_not_bit [of w 1]
    and_exp_eq_0_iff_not_bit [of w 2] and_exp_eq_0_iff_not_bit [of w 3] and_exp_eq_0_iff_not_bit [of w 4]
  by simp_all

lemma pair_bits: "w AND 0x18 = 0x18 \<longleftrightarrow> bit w 3 \<and> bit w 4" for w :: u32
  using and_or_full [of w "2 ^ 3" "2 ^ 4"] and_exp_full [of 3 w] and_exp_full [of 4 w] by simp

lemma launch_bits: "w AND 0x61 = 0x61 \<longleftrightarrow> bit w 0 \<and> bit w 5 \<and> bit w 6" for w :: u32
  using and_or_full [of w "2 ^ 0" "2 ^ 5 OR 2 ^ 6"] and_or_full [of w "2 ^ 5" "2 ^ 6"]
    and_exp_full [of 0 w] and_exp_full [of 5 w] and_exp_full [of 6 w] by simp

lemma derive_marks:
  assumes "b_derived b OR b_present b = b_present b" "gsp_ball_data_derive lm b = (st, b')"
  shows "b_present b' = b_present b OR b_derived b'"
  using assms
  by (auto simp: gsp_ball_data_derive_def Let_def or.commute or.left_commute or.assoc or_absorb_left split: if_splits)

lemma derive_keeps:
  assumes "gsp_ball_data_derive lm b = (st, b')"
  shows "b_speed b' = b_speed b \<and> b_hla b' = b_hla b \<and> b_vla b' = b_vla b \<and>
     b_carry_distance b' = b_carry_distance b"
  using assms
  by (auto simp: gsp_ball_data_derive_def Let_def split: if_splits)

lemma derive_spin:
  assumes "gsp_ball_data_derive lm b = (st, b')"
  shows "bit (b_derived b') 1 \<or> b_spin_axis b' = b_spin_axis b"
    "bit (b_derived b') 2 \<or> b_total_spin b' = b_total_spin b"
    "bit (b_derived b') 3 \<or> b_back_spin b' = b_back_spin b"
    "bit (b_derived b') 4 \<or> b_side_spin b' = b_side_spin b"
  using assms
  by (auto simp: gsp_ball_data_derive_def Let_def bit_or_iff split: if_splits)

lemma derive_status:
  assumes "gsp_ball_data_derive lm b = (st, b')"
  shows "st = GSP_OK \<or> st = GSP_PENDING \<and> b' = b"
  using assms
  by (auto simp: gsp_ball_data_derive_def Let_def split: if_splits)

lemma derive_overrides:
  assumes "gsp_ball_data_derive lm b = (st, b')" "b_derived b = 0"
    "bit (b_derived b') i" "bit (b_present b) i"
  shows "(i = 1 \<or> i = 2) \<and> bit (b_present b) 2 \<and> d_eq (b_total_spin b) dzero \<and>
    bit (b_present b) 3 \<and> bit (b_present b) 4 \<and>
    \<not> (d_eq (b_back_spin b) dzero \<and> d_eq (b_side_spin b) dzero)"
proof -
  have "bit ((2::u32) ^ n) i \<longleftrightarrow> i = n" if "n < 32" for n
    using that by (auto simp: bit_exp_iff)
  from this [of 1] this [of 2] this [of 3] this [of 4]
  have bits: "bit (0x02 :: u32) i \<longleftrightarrow> i = 1" "bit (0x04 :: u32) i \<longleftrightarrow> i = 2"
    "bit (0x08 :: u32) i \<longleftrightarrow> i = 3" "bit (0x10 :: u32) i \<longleftrightarrow> i = 4" by simp_all
  then have "bit (0x06 :: u32) i \<longleftrightarrow> i = 1 \<or> i = 2" "bit (0x18 :: u32) i \<longleftrightarrow> i = 3 \<or> i = 4"
    using bit_or_iff [of "0x02 :: u32" 4 i] bit_or_iff [of "0x08 :: u32" 16 i] by simp_all
  note bits = bits this
  show ?thesis
    using assms
    by (auto simp: gsp_ball_data_derive_def Let_def mask_bit pair_bits bits bit_or_iff simp del: bit_numeral_word_iff
        split: if_splits)
qed


text \<open>A ball as PiTrac sends it: a placeholder total and axis beside a real pair.\<close>

definition pitrac_ball :: gsp_ball_data where
  "pitrac_ball = zero_ball\<lparr>b_back_spin := Finite False 1 11, b_side_spin := Finite True 1 9,
     b_present := 0x7f\<rparr>"

definition crude_libm :: libm where
  "crude_libm = \<lparr>lm_cos = (\<lambda>_. dzero), lm_sin = (\<lambda>_. dzero), lm_atan2 = (\<lambda>y x. y), lm_hypot = (\<lambda>x y. x)\<rparr>"

lemma pitrac_derive:
  "gsp_ball_data_derive crude_libm pitrac_ball =
     (GSP_OK, pitrac_ball\<lparr>b_total_spin := Finite False 1 11,
        b_spin_axis := d_mul (Finite True 1 9) GS_RAD_TO_DEG, b_derived := 6\<rparr>)"
  by (simp add: gsp_ball_data_derive_def Let_def pitrac_ball_def crude_libm_def zero_ball_def
      dzero_def d_eq_def scaled_def)


text \<open>
  The completeness rule and the derivation agree: after \<^verbatim>\<open>gsp_ball_data_derive\<close>
  a ball that \<^verbatim>\<open>gsp_message_ball_complete\<close> accepts has all five members the vendor
  requires (speed, spin axis, total spin, HLA, VLA), and a ball it rejects has not gained them.
\<close>

theorem complete_iff_derivable:
  assumes "gsp_ball_data_derive lm b = (st, b')"
  shows "gsp_message_ball_complete b \<longleftrightarrow> (\<forall>i \<in> {0, 1, 2, 5, 6}. bit (b_present b') i)"
  using assms
  by (auto simp: gsp_message_ball_complete_def gsp_ball_data_derive_def Let_def bit_or_iff
      mask_bit pair_bits launch_bits split: if_splits)


theorem complete_iff_derivable_witness: "gsp_message_ball_complete pitrac_ball"
  using complete_iff_derivable [OF pitrac_derive] by (simp add: pitrac_ball_def)

end
