(* ===== verification/Decode.thy ===== *)
theory Decode
  imports Json Message
begin

text \<open>
  The decoders of \<^verbatim>\<open>src/gs_decode.c\<close>: the key tables and their two-pass lookup, the
  member walk, the readers of one member, the sections, \<^verbatim>\<open>gsp_message_decode\<close> with its
  classification and flag pass, and \<^verbatim>\<open>gsp_response_decode\<close>.

  A reader that returns \<open>-1\<close> (malformed) is \<^const>\<open>None\<close>; one that returns 0 (absent) or 1
  (read) gives \<^const>\<open>Some\<close> of an optional value, with the flag word it was passed and the
  moved cursor.
\<close>

section \<open>Key tables\<close>

abbreviation (input) GS_KEY_MAX :: nat where "GS_KEY_MAX \<equiv> 64"

text \<open>
  The \<^verbatim>\<open>offset\<close> of a table entry names a member of the section struct; it is the pair of
  the member's selector and its update here.
\<close>

record 's gs_num_key =
  nk_name :: bytes
  nk_bit :: u32
  nk_get :: "'s \<Rightarrow> double"
  nk_set :: "double \<Rightarrow> 's \<Rightarrow> 's"

record gs_bool_key =
  bk_name :: bytes
  bk_bit :: u8
  bk_get :: "gsp_shot_options \<Rightarrow> bool"
  bk_set :: "bool \<Rightarrow> gsp_shot_options \<Rightarrow> gsp_shot_options"

definition BALL_KEYS :: "gsp_ball_data gs_num_key list" where
  "BALL_KEYS =
    [\<lparr>nk_name = ''Speed'', nk_bit = GSP_BALL_SPEED, nk_get = b_speed,
      nk_set = (\<lambda>v s. s\<lparr>b_speed := v\<rparr>)\<rparr>,
     \<lparr>nk_name = ''SpinAxis'', nk_bit = GSP_BALL_SPIN_AXIS, nk_get = b_spin_axis,
      nk_set = (\<lambda>v s. s\<lparr>b_spin_axis := v\<rparr>)\<rparr>,
     \<lparr>nk_name = ''TotalSpin'', nk_bit = GSP_BALL_TOTAL_SPIN, nk_get = b_total_spin,
      nk_set = (\<lambda>v s. s\<lparr>b_total_spin := v\<rparr>)\<rparr>,
     \<lparr>nk_name = ''BackSpin'', nk_bit = GSP_BALL_BACK_SPIN, nk_get = b_back_spin,
      nk_set = (\<lambda>v s. s\<lparr>b_back_spin := v\<rparr>)\<rparr>,
     \<lparr>nk_name = ''SideSpin'', nk_bit = GSP_BALL_SIDE_SPIN, nk_get = b_side_spin,
      nk_set = (\<lambda>v s. s\<lparr>b_side_spin := v\<rparr>)\<rparr>,
     \<lparr>nk_name = ''HLA'', nk_bit = GSP_BALL_HLA, nk_get = b_hla,
      nk_set = (\<lambda>v s. s\<lparr>b_hla := v\<rparr>)\<rparr>,
     \<lparr>nk_name = ''VLA'', nk_bit = GSP_BALL_VLA, nk_get = b_vla,
      nk_set = (\<lambda>v s. s\<lparr>b_vla := v\<rparr>)\<rparr>,
     \<lparr>nk_name = ''CarryDistance'', nk_bit = GSP_BALL_CARRY_DISTANCE, nk_get = b_carry_distance,
      nk_set = (\<lambda>v s. s\<lparr>b_carry_distance := v\<rparr>)\<rparr>]"

definition CLUB_KEYS :: "gsp_club_data gs_num_key list" where
  "CLUB_KEYS =
    [\<lparr>nk_name = ''Speed'', nk_bit = GSP_CLUB_SPEED, nk_get = c_speed,
      nk_set = (\<lambda>v s. s\<lparr>c_speed := v\<rparr>)\<rparr>,
     \<lparr>nk_name = ''AngleOfAttack'', nk_bit = GSP_CLUB_ANGLE_OF_ATTACK, nk_get = c_angle_of_attack,
      nk_set = (\<lambda>v s. s\<lparr>c_angle_of_attack := v\<rparr>)\<rparr>,
     \<lparr>nk_name = ''FaceToTarget'', nk_bit = GSP_CLUB_FACE_TO_TARGET, nk_get = c_face_to_target,
      nk_set = (\<lambda>v s. s\<lparr>c_face_to_target := v\<rparr>)\<rparr>,
     \<lparr>nk_name = ''Lie'', nk_bit = GSP_CLUB_LIE, nk_get = c_lie,
      nk_set = (\<lambda>v s. s\<lparr>c_lie := v\<rparr>)\<rparr>,
     \<lparr>nk_name = ''Loft'', nk_bit = GSP_CLUB_LOFT, nk_get = c_loft,
      nk_set = (\<lambda>v s. s\<lparr>c_loft := v\<rparr>)\<rparr>,
     \<lparr>nk_name = ''Path'', nk_bit = GSP_CLUB_PATH, nk_get = c_path,
      nk_set = (\<lambda>v s. s\<lparr>c_path := v\<rparr>)\<rparr>,
     \<lparr>nk_name = ''SpeedAtImpact'', nk_bit = GSP_CLUB_SPEED_AT_IMPACT, nk_get = c_speed_at_impact,
      nk_set = (\<lambda>v s. s\<lparr>c_speed_at_impact := v\<rparr>)\<rparr>,
     \<lparr>nk_name = ''VerticalFaceImpact'', nk_bit = GSP_CLUB_VERTICAL_FACE_IMPACT,
      nk_get = c_vertical_face_impact, nk_set = (\<lambda>v s. s\<lparr>c_vertical_face_impact := v\<rparr>)\<rparr>,
     \<lparr>nk_name = ''HorizontalFaceImpact'', nk_bit = GSP_CLUB_HORIZONTAL_FACE_IMPACT,
      nk_get = c_horizontal_face_impact, nk_set = (\<lambda>v s. s\<lparr>c_horizontal_face_impact := v\<rparr>)\<rparr>,
     \<lparr>nk_name = ''ClosureRate'', nk_bit = GSP_CLUB_CLOSURE_RATE, nk_get = c_closure_rate,
      nk_set = (\<lambda>v s. s\<lparr>c_closure_rate := v\<rparr>)\<rparr>]"

definition OPTION_KEYS :: "gs_bool_key list" where
  "OPTION_KEYS =
    [\<lparr>bk_name = ''ContainsBallData'', bk_bit = GSP_OPT_CONTAINS_BALL_DATA,
      bk_get = o_contains_ball_data, bk_set = (\<lambda>v s. s\<lparr>o_contains_ball_data := v\<rparr>)\<rparr>,
     \<lparr>bk_name = ''ContainsClubData'', bk_bit = GSP_OPT_CONTAINS_CLUB_DATA,
      bk_get = o_contains_club_data, bk_set = (\<lambda>v s. s\<lparr>o_contains_club_data := v\<rparr>)\<rparr>,
     \<lparr>bk_name = ''LaunchMonitorIsReady'', bk_bit = GSP_OPT_LAUNCH_MONITOR_IS_READY,
      bk_get = o_launch_monitor_is_ready, bk_set = (\<lambda>v s. s\<lparr>o_launch_monitor_is_ready := v\<rparr>)\<rparr>,
     \<lparr>bk_name = ''LaunchMonitorBallDetected'', bk_bit = GSP_OPT_LAUNCH_MONITOR_BALL_DETECTED,
      bk_get = o_launch_monitor_ball_detected,
      bk_set = (\<lambda>v s. s\<lparr>o_launch_monitor_ball_detected := v\<rparr>)\<rparr>,
     \<lparr>bk_name = ''IsHeartBeat'', bk_bit = GSP_OPT_IS_HEARTBEAT,
      bk_get = o_is_heartbeat, bk_set = (\<lambda>v s. s\<lparr>o_is_heartbeat := v\<rparr>)\<rparr>]"

datatype root_id =
    ROOT_DEVICE_ID | ROOT_UNITS | ROOT_SHOT_NUMBER | ROOT_API_VERSION
  | ROOT_BALL_DATA | ROOT_CLUB_DATA | ROOT_OPTIONS

datatype response_id = RESP_CODE | RESP_MESSAGE | RESP_PLAYER

datatype player_id = PLAYER_HANDED | PLAYER_CLUB | PLAYER_DISTANCE | PLAYER_SURFACE

definition ROOT_KEYS :: "(bytes \<times> root_id) list" where
  "ROOT_KEYS =
    [(''DeviceID'', ROOT_DEVICE_ID), (''Units'', ROOT_UNITS), (''ShotNumber'', ROOT_SHOT_NUMBER),
     (''APIversion'', ROOT_API_VERSION), (''BallData'', ROOT_BALL_DATA),
     (''ClubData'', ROOT_CLUB_DATA), (''ShotDataOptions'', ROOT_OPTIONS)]"

definition RESPONSE_KEYS :: "(bytes \<times> response_id) list" where
  "RESPONSE_KEYS = [(''Code'', RESP_CODE), (''Message'', RESP_MESSAGE), (''Player'', RESP_PLAYER)]"

definition PLAYER_KEYS :: "(bytes \<times> player_id) list" where
  "PLAYER_KEYS =
    [(''Handed'', PLAYER_HANDED), (''Club'', PLAYER_CLUB), (''DistanceToTarget'', PLAYER_DISTANCE),
     (''Surface'', PLAYER_SURFACE)]"

text \<open>
  The two passes of \<^verbatim>\<open>lookup\<close>, \<^verbatim>\<open>lookup_num\<close> and \<^verbatim>\<open>lookup_bool\<close>, which differ
  only in their table type: the entry, and whether only the second pass found it.
\<close>

definition lookup_key :: "('k \<Rightarrow> bytes) \<Rightarrow> 'k list \<Rightarrow> bytes \<Rightarrow> ('k \<times> bool) option" where
  "lookup_key name tab key =
     (case find (\<lambda>k. name k = key) tab of
        Some k \<Rightarrow> Some (k, False)
      | None \<Rightarrow>
          (case find (\<lambda>k. gs_ci_equal (name k) key) tab of
             Some k \<Rightarrow> Some (k, True)
           | None \<Rightarrow> None))"

definition lookup :: "(bytes \<times> 'id) list \<Rightarrow> bytes \<Rightarrow> ('id \<times> bool) option" where
  "lookup tab key = map_option (apfst snd) (lookup_key fst tab key)"

definition lookup_num :: "'s gs_num_key list \<Rightarrow> bytes \<Rightarrow> ('s gs_num_key \<times> bool) option" where
  "lookup_num tab key = lookup_key nk_name tab key"

definition lookup_bool :: "gs_bool_key list \<Rightarrow> bytes \<Rightarrow> (gs_bool_key \<times> bool) option" where
  "lookup_bool tab key = lookup_key bk_name tab key"

section \<open>Walking members\<close>

text \<open>\<open>Some (None, j)\<close>: the object ended; \<open>Some (Some key, j)\<close>: at the member's value.\<close>

definition next_member :: "gs_json \<Rightarrow> bool \<Rightarrow> (bytes option \<times> gs_json) option" where
  "next_member j first =
     (case gs_json_accept j RBRACE of
        (True, j) \<Rightarrow> Some (None, j)
      | (False, j) \<Rightarrow>
          (case (if first then (True, j) else gs_json_accept j CHR '','') of
             (False, j) \<Rightarrow> None
           | (True, j) \<Rightarrow>
               (case gs_json_read_string j GS_KEY_MAX of
                  None \<Rightarrow> None
                | Some ((key, _), j) \<Rightarrow>
                    (case gs_json_accept j CHR '':'' of
                       (False, _) \<Rightarrow> None
                     | (True, j) \<Rightarrow> Some (Some (cstr key), j)))))"

definition count_unknown :: "u16 \<Rightarrow> u16" where
  "count_unknown unknown = (if unknown < 0xffff then unknown + 1 else unknown)"

definition read_number_member :: "gs_json \<Rightarrow> u32 \<Rightarrow> ((double option \<times> u32) \<times> gs_json) option" where
  "read_number_member j flags =
     (case gs_json_peek j of (t, j) \<Rightarrow>
        if t = GS_JSON_NUMBER then
          (case gs_json_read_number j of
             None \<Rightarrow> None
           | Some (v, j) \<Rightarrow> Some ((Some v, flags), j))
        else if t = GS_JSON_STRING then
          (case gs_json_read_string j GS_JSON_NUMBER_MAX of
             None \<Rightarrow> None
           | Some ((tmp, _), j) \<Rightarrow>
               if cstr tmp = [] then Some ((None, flags), j)
               else
                 (case strtod (cstr tmp) of (d, n) \<Rightarrow>
                    if n = 0 \<or> n \<noteq> length (cstr tmp) then Some ((None, flags), j)
                    else Some ((Some d, flags OR GSP_MSGF_TYPE_COERCED), j)))
        else if t = GS_JSON_NULL then
          (case gs_json_read_literal j t of
             None \<Rightarrow> None
           | Some (_, j) \<Rightarrow> Some ((None, flags), j))
        else
          (case gs_json_skip_value j of
             None \<Rightarrow> None
           | Some j \<Rightarrow> Some ((None, flags), j)))"

definition read_bool_member :: "gs_json \<Rightarrow> u32 \<Rightarrow> ((bool option \<times> u32) \<times> gs_json) option" where
  "read_bool_member j flags =
     (case gs_json_peek j of (t, j) \<Rightarrow>
        if t = GS_JSON_TRUE \<or> t = GS_JSON_FALSE then
          (case gs_json_read_literal j t of
             None \<Rightarrow> None
           | Some (v, j) \<Rightarrow> Some ((Some v, flags), j))
        else if t = GS_JSON_STRING then
          (case gs_json_read_string j 16 of
             None \<Rightarrow> None
           | Some ((tmp, _), j) \<Rightarrow>
               if gs_ci_equal (cstr tmp) ''true'' then
                 Some ((Some True, flags OR GSP_MSGF_TYPE_COERCED), j)
               else if gs_ci_equal (cstr tmp) ''false'' then
                 Some ((Some False, flags OR GSP_MSGF_TYPE_COERCED), j)
               else Some ((None, flags), j))
        else if t = GS_JSON_NULL then
          (case gs_json_read_literal j t of
             None \<Rightarrow> None
           | Some (_, j) \<Rightarrow> Some ((None, flags), j))
        else if t = GS_JSON_NUMBER then
          (case gs_json_read_number j of
             None \<Rightarrow> None
           | Some (d, j) \<Rightarrow>
               Some ((Some (\<not> d_eq d dzero), flags OR GSP_MSGF_TYPE_COERCED), j))
        else
          (case gs_json_skip_value j of
             None \<Rightarrow> None
           | Some j \<Rightarrow> Some ((None, flags), j)))"

definition read_string_member ::
  "gs_json \<Rightarrow> nat \<Rightarrow> u32 \<Rightarrow> ((bytes option \<times> u32) \<times> gs_json) option" where
  "read_string_member j out_size flags =
     (case gs_json_peek j of (t, j) \<Rightarrow>
        if t = GS_JSON_STRING then
          (case gs_json_read_string j out_size of
             None \<Rightarrow> None
           | Some ((out, truncated), j) \<Rightarrow>
               Some ((Some (cstr out),
                 if truncated then flags OR GSP_MSGF_STRING_TRUNCATED else flags), j))
        else if t = GS_JSON_NULL then
          (case gs_json_read_literal j t of
             None \<Rightarrow> None
           | Some (_, j) \<Rightarrow> Some ((None, flags), j))
        else
          (case gs_json_skip_value j of
             None \<Rightarrow> None
           | Some j \<Rightarrow> Some ((None, flags), j)))"

lemma next_member_adv:
  "next_member j first = Some (k, j') \<Longrightarrow> adv j j' \<and> j_pos j < j_pos j'"
  by (auto simp: next_member_def adv_def split: prod.splits bool.splits if_splits option.splits
      dest!: cursor_adv)

lemma read_number_member_adv: "read_number_member j f = Some (r, j') \<Longrightarrow> adv j j'"
  by (auto simp: read_number_member_def split: prod.splits if_splits option.splits
      dest!: cursor_adv intro: adv_trans)

lemma read_bool_member_adv: "read_bool_member j f = Some (r, j') \<Longrightarrow> adv j j'"
  by (auto simp: read_bool_member_def split: prod.splits if_splits option.splits
      dest!: cursor_adv intro: adv_trans)

lemma read_string_member_adv: "read_string_member j n f = Some (r, j') \<Longrightarrow> adv j j'"
  by (auto simp: read_string_member_def split: prod.splits if_splits option.splits
      dest!: cursor_adv intro: adv_trans)

lemmas member_adv =
  next_member_adv read_number_member_adv read_bool_member_adv read_string_member_adv
  gs_json_skip_value_adv gs_json_peek_adv

text \<open>The room left shrinks with every member, so that the member loops end.\<close>

lemma member_progress:
  "next_member j first = Some (k, j1) \<Longrightarrow> adv j1 j2 \<Longrightarrow> j_len j2 - j_pos j2 < j_len j - j_pos j"
  by (auto simp: adv_def dest!: next_member_adv)

section \<open>Sections\<close>

function numeric_loop ::
  "'s gs_num_key list \<Rightarrow> gs_json \<Rightarrow> bool \<Rightarrow> ('s \<times> u32) \<times> u32 \<times> u16 \<Rightarrow>
   ((('s \<times> u32) \<times> u32 \<times> u16) \<times> gs_json) option" where
  "numeric_loop tab j first ((section, present), flags, unknown) =
     (case next_member j first of
        None \<Rightarrow> None
      | Some (None, j) \<Rightarrow> Some (((section, present), flags, unknown), j)
      | Some (Some key, j) \<Rightarrow>
          (case lookup_num tab key of
             None \<Rightarrow>
               (case gs_json_skip_value j of
                  None \<Rightarrow> None
                | Some j \<Rightarrow>
                    numeric_loop tab j False ((section, present), flags, count_unknown unknown))
           | Some (k, mismatch) \<Rightarrow>
               (case read_number_member j
                       (if mismatch then flags OR GSP_MSGF_KEY_CASE_MISMATCH else flags) of
                  None \<Rightarrow> None
                | Some ((None, flags), j) \<Rightarrow>
                    numeric_loop tab j False ((section, present), flags, unknown)
                | Some ((Some v, flags), j) \<Rightarrow>
                    numeric_loop tab j False
                      ((nk_set k v section, present OR nk_bit k), flags, unknown))))"
  by pat_completeness auto
termination
  by (relation "measure (\<lambda>(_, j, _). j_len j - j_pos j)")
    (auto intro: member_progress dest: member_adv)

declare numeric_loop.simps [simp del]

definition decode_numeric_section ::
  "gs_json \<Rightarrow> 's \<Rightarrow> u32 \<Rightarrow> 's gs_num_key list \<Rightarrow> u32 \<Rightarrow> u16 \<Rightarrow>
   ((('s \<times> u32) \<times> u32 \<times> u16) \<times> gs_json) option" where
  "decode_numeric_section j section present tab flags unknown =
     (case gs_json_accept j LBRACE of
        (False, _) \<Rightarrow> None
      | (True, j) \<Rightarrow> numeric_loop tab j True ((section, present), flags, unknown))"

function options_loop ::
  "gs_json \<Rightarrow> bool \<Rightarrow> gsp_shot_options \<times> u32 \<times> u16 \<Rightarrow>
   ((gsp_shot_options \<times> u32 \<times> u16) \<times> gs_json) option" where
  "options_loop j first (opt, flags, unknown) =
     (case next_member j first of
        None \<Rightarrow> None
      | Some (None, j) \<Rightarrow> Some ((opt, flags, unknown), j)
      | Some (Some key, j) \<Rightarrow>
          (case lookup_bool OPTION_KEYS key of
             None \<Rightarrow>
               (case gs_json_skip_value j of
                  None \<Rightarrow> None
                | Some j \<Rightarrow> options_loop j False (opt, flags, count_unknown unknown))
           | Some (k, mismatch) \<Rightarrow>
               (case read_bool_member j
                       (if mismatch then flags OR GSP_MSGF_KEY_CASE_MISMATCH else flags) of
                  None \<Rightarrow> None
                | Some ((None, flags), j) \<Rightarrow> options_loop j False (opt, flags, unknown)
                | Some ((Some v, flags), j) \<Rightarrow>
                    options_loop j False
                      ((bk_set k v opt)\<lparr>o_present := o_present opt OR bk_bit k\<rparr>, flags, unknown))))"
  by pat_completeness auto
termination
  by (relation "measure (\<lambda>(j, _). j_len j - j_pos j)")
    (auto intro: member_progress dest: member_adv)

declare options_loop.simps [simp del]

definition decode_options ::
  "gs_json \<Rightarrow> gsp_shot_options \<Rightarrow> u32 \<Rightarrow> u16 \<Rightarrow>
   ((gsp_shot_options \<times> u32 \<times> u16) \<times> gs_json) option" where
  "decode_options j opt flags unknown =
     (case gs_json_accept j LBRACE of
        (False, _) \<Rightarrow> None
      | (True, j) \<Rightarrow> options_loop j True (opt, flags, unknown))"

definition clamp_int64 :: "double \<Rightarrow> int" where
  "clamp_int64 d =
     (if \<not> d_eq d d then 0
      else if d_le d (Finite True (2 ^ 52) 11) then - (2 ^ 63)
      else if d_le (Finite False (2 ^ 52) 11) d then 2 ^ 63 - 1
      else d_to_int d)"

lemma numeric_loop_adv: "numeric_loop tab j first st = Some (r, j') \<Longrightarrow> adv j j'"
proof (induction "j_len j - j_pos j" arbitrary: j first st rule: less_induct)
  case less
  obtain s p f u where st: "st = ((s, p), f, u)" by (metis prod_cases4 surj_pair)
  have IH: "adv j j'" if "next_member j first = Some (k, j1)" "adv j1 j2"
    "numeric_loop tab j2 False st2 = Some (r, j')" for k j1 j2 st2
    using less.hyps [OF member_progress [OF that(1,2)] that(3)] that next_member_adv adv_trans by blast
  from less.prems show ?case
    unfolding st by (subst (asm) numeric_loop.simps)
      (auto split: option.splits prod.splits if_splits intro: IH dest: member_adv)
qed

lemma options_loop_adv: "options_loop j first st = Some (r, j') \<Longrightarrow> adv j j'"
proof (induction "j_len j - j_pos j" arbitrary: j first st rule: less_induct)
  case less
  obtain opt f u where st: "st = (opt, f, u)" by (metis prod_cases3)
  have IH: "adv j j'" if "next_member j first = Some (k, j1)" "adv j1 j2"
    "options_loop j2 False st2 = Some (r, j')" for k j1 j2 st2
    using less.hyps [OF member_progress [OF that(1,2)] that(3)] that next_member_adv adv_trans by blast
  from less.prems show ?case
    unfolding st by (subst (asm) options_loop.simps)
      (auto split: option.splits prod.splits if_splits intro: IH dest: member_adv)
qed

lemma decode_numeric_section_adv:
  "decode_numeric_section j s p tab f u = Some (r, j') \<Longrightarrow> adv j j'"
  by (auto simp: decode_numeric_section_def split: prod.splits bool.splits
      dest!: gs_json_accept_adv numeric_loop_adv intro: adv_trans)

lemma decode_options_adv: "decode_options j opt f u = Some (r, j') \<Longrightarrow> adv j j'"
  by (auto simp: decode_options_def split: prod.splits bool.splits
      dest!: gs_json_accept_adv options_loop_adv intro: adv_trans)

lemmas section_adv = member_adv decode_numeric_section_adv decode_options_adv

section \<open>gsp_message_decode\<close>

text \<open>The locals of \<^verbatim>\<open>gsp_message_decode\<close> its member loop updates.\<close>

record decode_locals =
  dl_out :: gsp_message
  dl_flags :: u32
  dl_unknown :: u16
  have_device_id :: bool
  have_shot_number :: bool
  have_api_version :: bool
  have_units :: bool
  have_ball_object :: bool
  have_club_object :: bool
  have_options :: bool

text \<open>The body of the loop once the key is known: one member of the root object.\<close>

fun decode_member :: "root_id \<Rightarrow> gs_json \<Rightarrow> decode_locals \<Rightarrow> (decode_locals \<times> gs_json) option" where
  "decode_member ROOT_DEVICE_ID j d =
     (case read_string_member j GSP_DEVICE_ID_MAX (dl_flags d) of
        None \<Rightarrow> None
      | Some ((None, flags), j) \<Rightarrow> Some (d\<lparr>dl_flags := flags\<rparr>, j)
      | Some ((Some s, flags), j) \<Rightarrow>
          Some (d\<lparr>dl_out := (dl_out d)\<lparr>m_device_id := s\<rparr>, dl_flags := flags, have_device_id := True\<rparr>, j))"
| "decode_member ROOT_UNITS j d =
     (case read_string_member j GSP_UNITS_TEXT_MAX (dl_flags d) of
        None \<Rightarrow> None
      | Some ((None, flags), j) \<Rightarrow> Some (d\<lparr>dl_flags := flags\<rparr>, j)
      | Some ((Some s, flags), j) \<Rightarrow>
          Some (d\<lparr>dl_out := (dl_out d)\<lparr>m_units_text := s\<rparr>, dl_flags := flags, have_units := True\<rparr>, j))"
| "decode_member ROOT_API_VERSION j d =
     (case read_string_member j GSP_API_VERSION_MAX (dl_flags d) of
        None \<Rightarrow> None
      | Some ((None, flags), j) \<Rightarrow> Some (d\<lparr>dl_flags := flags\<rparr>, j)
      | Some ((Some s, flags), j) \<Rightarrow>
          Some (d\<lparr>dl_out := (dl_out d)\<lparr>m_api_version := s\<rparr>, dl_flags := flags,
                  have_api_version := True\<rparr>, j))"
| "decode_member ROOT_SHOT_NUMBER j d =
     (case read_number_member j (dl_flags d) of
        None \<Rightarrow> None
      | Some ((None, flags), j) \<Rightarrow> Some (d\<lparr>dl_flags := flags\<rparr>, j)
      | Some ((Some v, flags), j) \<Rightarrow>
          Some (d\<lparr>dl_out := (dl_out d)\<lparr>m_shot_number := clamp_int64 v\<rparr>,
                  dl_flags := (if has_fraction v then flags OR GSP_MSGF_SHOT_NUMBER_NOT_INTEGER
                               else flags),
                  have_shot_number := True\<rparr>, j))"
| "decode_member ROOT_BALL_DATA j d =
     (case gs_json_peek j of (t, j) \<Rightarrow>
        if t = GS_JSON_OBJECT then
          (let ball = m_ball (dl_out d) in
           case decode_numeric_section j ball (b_present ball) BALL_KEYS (dl_flags d) (dl_unknown d) of
             None \<Rightarrow> None
           | Some (((ball, present), flags, unknown), j) \<Rightarrow>
               Some (d\<lparr>dl_out := (dl_out d)\<lparr>m_ball := ball\<lparr>b_present := present\<rparr>\<rparr>,
                       dl_flags := flags, dl_unknown := unknown, have_ball_object := True\<rparr>, j))
        else (case gs_json_skip_value j of None \<Rightarrow> None | Some j \<Rightarrow> Some (d, j)))"
| "decode_member ROOT_CLUB_DATA j d =
     (case gs_json_peek j of (t, j) \<Rightarrow>
        if t = GS_JSON_OBJECT then
          (let club = m_club (dl_out d) in
           case decode_numeric_section j club (c_present club) CLUB_KEYS (dl_flags d) (dl_unknown d) of
             None \<Rightarrow> None
           | Some (((club, present), flags, unknown), j) \<Rightarrow>
               Some (d\<lparr>dl_out := (dl_out d)\<lparr>m_club := club\<lparr>c_present := present\<rparr>\<rparr>,
                       dl_flags := flags, dl_unknown := unknown, have_club_object := True\<rparr>, j))
        else (case gs_json_skip_value j of None \<Rightarrow> None | Some j \<Rightarrow> Some (d, j)))"
| "decode_member ROOT_OPTIONS j d =
     (case gs_json_peek j of (t, j) \<Rightarrow>
        if t = GS_JSON_OBJECT then
          (case decode_options j (m_options (dl_out d)) (dl_flags d) (dl_unknown d) of
             None \<Rightarrow> None
           | Some ((opt, flags, unknown), j) \<Rightarrow>
               Some (d\<lparr>dl_out := (dl_out d)\<lparr>m_options := opt\<rparr>,
                       dl_flags := flags, dl_unknown := unknown, have_options := True\<rparr>, j))
        else (case gs_json_skip_value j of None \<Rightarrow> None | Some j \<Rightarrow> Some (d, j)))"

lemma decode_member_adv: "decode_member i j d = Some (r, j') \<Longrightarrow> adv j j'"
  by (cases i)
    (auto simp: Let_def split: option.splits prod.splits if_splits dest!: section_adv intro: adv_trans)

function message_loop :: "gs_json \<Rightarrow> bool \<Rightarrow> decode_locals \<Rightarrow> (decode_locals \<times> gs_json) option" where
  "message_loop j first d =
     (case next_member j first of
        None \<Rightarrow> None
      | Some (None, j) \<Rightarrow> Some (d, j)
      | Some (Some key, j) \<Rightarrow>
          (case lookup ROOT_KEYS key of
             None \<Rightarrow>
               (case gs_json_skip_value j of
                  None \<Rightarrow> None
                | Some j \<Rightarrow> message_loop j False (d\<lparr>dl_unknown := count_unknown (dl_unknown d)\<rparr>))
           | Some (i, mismatch) \<Rightarrow>
               (case decode_member i j
                       (if mismatch then d\<lparr>dl_flags := dl_flags d OR GSP_MSGF_KEY_CASE_MISMATCH\<rparr>
                        else d) of
                  None \<Rightarrow> None
                | Some (d, j) \<Rightarrow> message_loop j False d)))"
  by pat_completeness auto
termination
  by (relation "measure (\<lambda>(j, _). j_len j - j_pos j)")
    (auto intro: member_progress dest: member_adv decode_member_adv)

declare message_loop.simps [simp del]

text \<open>The classification, then the flag pass.\<close>

definition classify :: "gsp_shot_options \<Rightarrow> gsp_message_kind" where
  "classify opt =
     (if o_contains_ball_data opt \<or> o_contains_club_data opt then GSP_MSG_SHOT
      else if o_is_heartbeat opt then GSP_MSG_HEARTBEAT
      else GSP_MSG_STATUS)"

definition flag_if :: "bool \<Rightarrow> u32 \<Rightarrow> u32 \<Rightarrow> u32" where
  "flag_if c f flags = (if c then flags OR f else flags)"

definition finish_decode :: "decode_locals \<Rightarrow> gsp_message" where
  "finish_decode d =
     (let out = dl_out d;
          flags = dl_flags d;
          out = (if have_units d then out\<lparr>m_units := gsp_units_parse (m_units_text out)\<rparr> else out);
          flags = flag_if (have_units d \<and> m_units out = GSP_UNITS_UNKNOWN) GSP_MSGF_UNKNOWN_UNITS flags;
          flags = flag_if (\<not> have_device_id d) GSP_MSGF_MISSING_DEVICE_ID flags;
          flags = flag_if (\<not> have_shot_number d) GSP_MSGF_MISSING_SHOT_NUMBER flags;
          flags = (if \<not> have_api_version d then flags OR GSP_MSGF_MISSING_API_VERSION
                   else if m_api_version out \<noteq> GSP_API_VERSION_TEXT
                   then flags OR GSP_MSGF_UNKNOWN_API_VERSION else flags);
          flags = flag_if (\<not> have_options d) GSP_MSGF_MISSING_OPTIONS flags;
          opt = m_options out;
          out = out\<lparr>m_kind := classify opt\<rparr>;
          flags = flag_if (o_contains_ball_data opt \<and> \<not> have_ball_object d)
                    GSP_MSGF_BALL_FLAG_WITHOUT_OBJECT flags;
          flags = flag_if (have_ball_object d \<and> \<not> o_contains_ball_data opt)
                    GSP_MSGF_BALL_OBJECT_WITHOUT_FLAG flags;
          flags = flag_if (o_contains_club_data opt \<and> \<not> have_club_object d)
                    GSP_MSGF_CLUB_FLAG_WITHOUT_OBJECT flags;
          flags = flag_if (have_club_object d \<and> \<not> o_contains_club_data opt \<and> m_kind out \<noteq> GSP_MSG_SHOT)
                    GSP_MSGF_CLUB_OBJECT_WITHOUT_FLAG flags;
          flags = flag_if (m_kind out = GSP_MSG_SHOT \<and> o_contains_ball_data opt \<and>
                           \<not> gsp_message_ball_complete (m_ball out))
                    GSP_MSGF_BALL_INCOMPLETE flags;
          out = out\<lparr>m_unknown_keys := dl_unknown d\<rparr>;
          flags = flag_if (0 < dl_unknown d) GSP_MSGF_UNKNOWN_KEYS flags
      in out\<lparr>m_flags := flags\<rparr>)"

definition start_decode :: "nat \<Rightarrow> decode_locals" where
  "start_decode len =
     \<lparr>dl_out = zero_message\<lparr>m_conn := GSP_CONN_NONE, m_host_recv_us := GSP_TIME_UNKNOWN,
        m_wire_length := (if 0xffff < int len then 0xffff else word_of_int (int len))\<rparr>,
      dl_flags = 0, dl_unknown = 0, have_device_id = False, have_shot_number = False,
      have_api_version = False, have_units = False, have_ball_object = False,
      have_club_object = False, have_options = False\<rparr>"

text \<open>
  On an error the caller's struct holds a partial result that no caller reads; the model
  returns the status alone.
\<close>

definition gsp_message_decode :: "bytes \<Rightarrow> nat \<Rightarrow> gsp_status + gsp_message" where
  "gsp_message_decode json len =
     (case gs_json_accept \<lparr>j_buf = json, j_len = len, j_pos = 0\<rparr> LBRACE of
        (False, _) \<Rightarrow> Inl GSP_ERR_MALFORMED
      | (True, j) \<Rightarrow>
          (case message_loop j True (start_decode len) of
             None \<Rightarrow> Inl GSP_ERR_MALFORMED
           | Some (d, j) \<Rightarrow>
               if \<not> fst (gs_json_at_end j) then Inl GSP_ERR_MALFORMED
               else Inr (finish_decode d)))"

section \<open>gsp_response_decode\<close>

abbreviation (input) GSP_RESPONSE_TEXT_MAX :: nat where "GSP_RESPONSE_TEXT_MAX \<equiv> 96"

record gsp_response =
  r_code :: int
  r_has_message :: bool
  r_has_player :: bool
  r_message :: bytes
  r_player :: gsp_player_info

definition zero_response :: gsp_response where
  "zero_response = \<lparr>r_code = 0, r_has_message = False, r_has_player = False, r_message = [],
     r_player = zero_player\<rparr>"

text \<open>One member of the Player object; the flag words go into a variable nothing reads.\<close>

fun decode_player_member ::
  "player_id option \<Rightarrow> gs_json \<Rightarrow> gsp_player_info \<Rightarrow> (gsp_player_info \<times> gs_json) option" where
  "decode_player_member (Some PLAYER_HANDED) j p =
     (case read_string_member j 16 0 of
        None \<Rightarrow> None
      | Some ((None, _), j) \<Rightarrow> Some (p, j)
      | Some ((Some text, _), j) \<Rightarrow> Some (p\<lparr>p_handed := gsp_handed_parse text\<rparr>, j))"
| "decode_player_member (Some PLAYER_CLUB) j p =
     (case read_string_member j 16 0 of
        None \<Rightarrow> None
      | Some ((None, _), j) \<Rightarrow> Some (p, j)
      | Some ((Some text, _), j) \<Rightarrow> Some (p\<lparr>p_club := gsp_club_parse text\<rparr>, j))"
| "decode_player_member (Some PLAYER_DISTANCE) j p =
     (case read_number_member j 0 of
        None \<Rightarrow> None
      | Some ((None, _), j) \<Rightarrow> Some (p, j)
      | Some ((Some v, _), j) \<Rightarrow>
          Some (p\<lparr>p_distance_to_target := v, p_has_distance := True\<rparr>, j))"
| "decode_player_member (Some PLAYER_SURFACE) j p =
     (case read_string_member j GSP_SURFACE_MAX 0 of
        None \<Rightarrow> None
      | Some ((None, _), j) \<Rightarrow> Some (p, j)
      | Some ((Some s, _), j) \<Rightarrow> Some (p\<lparr>p_surface := s\<rparr>, j))"
| "decode_player_member None j p =
     (case gs_json_skip_value j of None \<Rightarrow> None | Some j \<Rightarrow> Some (p, j))"

lemma decode_player_member_adv: "decode_player_member i j p = Some (r, j') \<Longrightarrow> adv j j'"
  by (cases "(i, j, p)" rule: decode_player_member.cases)
    (auto split: option.splits dest!: section_adv)

function player_loop :: "gs_json \<Rightarrow> bool \<Rightarrow> gsp_player_info \<Rightarrow> (gsp_player_info \<times> gs_json) option" where
  "player_loop j first p =
     (case next_member j first of
        None \<Rightarrow> None
      | Some (None, j) \<Rightarrow> Some (p, j)
      | Some (Some key, j) \<Rightarrow>
          (case decode_player_member (map_option fst (lookup PLAYER_KEYS key)) j p of
             None \<Rightarrow> None
           | Some (p, j) \<Rightarrow> player_loop j False p))"
  by pat_completeness auto
termination
  by (relation "measure (\<lambda>(j, _). j_len j - j_pos j)")
    (auto intro: member_progress dest: decode_player_member_adv)

declare player_loop.simps [simp del]

text \<open>The caller's \<^verbatim>\<open>has_player\<close> is set where this returns.\<close>

definition decode_player :: "gs_json \<Rightarrow> gsp_player_info \<Rightarrow> (gsp_player_info \<times> gs_json) option" where
  "decode_player j p =
     (case gs_json_accept j LBRACE of
        (False, _) \<Rightarrow> None
      | (True, j) \<Rightarrow> player_loop j True p)"

lemma player_loop_adv: "player_loop j first p = Some (r, j') \<Longrightarrow> adv j j'"
proof (induction "j_len j - j_pos j" arbitrary: j first p rule: less_induct)
  case less
  have IH: "adv j j'" if "next_member j first = Some (k, j1)" "adv j1 j2"
    "player_loop j2 False p2 = Some (r, j')" for k j1 j2 p2
    using less.hyps [OF member_progress [OF that(1,2)] that(3)] that next_member_adv adv_trans by blast
  from less.prems show ?case
    by (subst (asm) player_loop.simps)
      (auto split: option.splits prod.splits intro: IH dest: next_member_adv decode_player_member_adv)
qed

lemma decode_player_adv: "decode_player j p = Some (r, j') \<Longrightarrow> adv j j'"
  by (auto simp: decode_player_def split: prod.splits bool.splits
      dest!: gs_json_accept_adv player_loop_adv intro: adv_trans)

fun decode_response_member ::
  "response_id option \<Rightarrow> gs_json \<Rightarrow> gsp_response \<Rightarrow> (gsp_response \<times> gs_json) option" where
  "decode_response_member (Some RESP_CODE) j r =
     (case read_number_member j 0 of
        None \<Rightarrow> None
      | Some ((None, _), j) \<Rightarrow> Some (r, j)
      | Some ((Some v, _), j) \<Rightarrow>
          (let c = clamp_int64 v;
               c = (if 2 ^ 31 - 1 < c then 2 ^ 31 - 1 else c);
               c = (if c < - (2 ^ 31) then - (2 ^ 31) else c)
           in Some (r\<lparr>r_code := c\<rparr>, j)))"
| "decode_response_member (Some RESP_MESSAGE) j r =
     (case read_string_member j GSP_RESPONSE_TEXT_MAX 0 of
        None \<Rightarrow> None
      | Some ((None, _), j) \<Rightarrow> Some (r, j)
      | Some ((Some s, _), j) \<Rightarrow> Some (r\<lparr>r_message := s, r_has_message := True\<rparr>, j))"
| "decode_response_member (Some RESP_PLAYER) j r =
     (case gs_json_peek j of (t, j) \<Rightarrow>
        if t = GS_JSON_OBJECT then
          (case decode_player j (r_player r) of
             None \<Rightarrow> None
           | Some (p, j) \<Rightarrow> Some (r\<lparr>r_player := p, r_has_player := True\<rparr>, j))
        else (case gs_json_skip_value j of None \<Rightarrow> None | Some j \<Rightarrow> Some (r, j)))"
| "decode_response_member None j r =
     (case gs_json_skip_value j of None \<Rightarrow> None | Some j \<Rightarrow> Some (r, j))"

lemma decode_response_member_adv: "decode_response_member i j r = Some (r', j') \<Longrightarrow> adv j j'"
  by (cases "(i, j, r)" rule: decode_response_member.cases)
    (auto simp: Let_def split: option.splits prod.splits if_splits
      dest!: section_adv decode_player_adv intro: adv_trans)

function response_loop :: "gs_json \<Rightarrow> bool \<Rightarrow> gsp_response \<Rightarrow> (gsp_response \<times> gs_json) option" where
  "response_loop j first r =
     (case next_member j first of
        None \<Rightarrow> None
      | Some (None, j) \<Rightarrow> Some (r, j)
      | Some (Some key, j) \<Rightarrow>
          (case decode_response_member (map_option fst (lookup RESPONSE_KEYS key)) j r of
             None \<Rightarrow> None
           | Some (r, j) \<Rightarrow> response_loop j False r))"
  by pat_completeness auto
termination
  by (relation "measure (\<lambda>(j, _). j_len j - j_pos j)")
    (auto intro: member_progress dest: decode_response_member_adv)

declare response_loop.simps [simp del]

definition gsp_response_decode :: "bytes \<Rightarrow> nat \<Rightarrow> gsp_status + gsp_response" where
  "gsp_response_decode json len =
     (case gs_json_accept \<lparr>j_buf = json, j_len = len, j_pos = 0\<rparr> LBRACE of
        (False, _) \<Rightarrow> Inl GSP_ERR_MALFORMED
      | (True, j) \<Rightarrow>
          (case response_loop j True zero_response of
             None \<Rightarrow> Inl GSP_ERR_MALFORMED
           | Some (r, j) \<Rightarrow>
               if \<not> fst (gs_json_at_end j) then Inl GSP_ERR_MALFORMED else Inr r))"

section \<open>Nothing past \<open>len\<close> is read\<close>

lemma next_member_view [cursor_simps]:
  "next_member (view j) first = map_option (apsnd view) (next_member j first)"
  by (auto simp: next_member_def cursor_simps split: prod.splits bool.splits option.splits)

lemma read_number_member_view [cursor_simps]:
  "read_number_member (view j) f = map_option (apsnd view) (read_number_member j f)"
  by (cases "gs_json_peek j") (auto simp: read_number_member_def cursor_simps split: prod.splits option.splits)

lemma read_bool_member_view [cursor_simps]:
  "read_bool_member (view j) f = map_option (apsnd view) (read_bool_member j f)"
  by (cases "gs_json_peek j") (auto simp: read_bool_member_def cursor_simps split: prod.splits option.splits)

lemma read_string_member_view [cursor_simps]:
  "read_string_member (view j) n f = map_option (apsnd view) (read_string_member j n f)"
  by (cases "gs_json_peek j") (auto simp: read_string_member_def cursor_simps split: prod.splits option.splits)

lemma numeric_loop_view [cursor_simps]:
  "numeric_loop tab (view j) first st = map_option (apsnd view) (numeric_loop tab j first st)"
proof (induction "j_len j - j_pos j" arbitrary: j first st rule: less_induct)
  case less
  obtain s p f u where st: "st = ((s, p), f, u)" by (metis surj_pair)
  have IH: "numeric_loop tab (view j2) False st2 = map_option (apsnd view) (numeric_loop tab j2 False st2)"
    if "next_member j first = Some (k, j1)" "adv j1 j2" for k j1 j2 st2
    using less.hyps [OF member_progress [OF that]] .
  show ?case
    unfolding st
    by (auto simp: numeric_loop.simps [of tab j] numeric_loop.simps [of tab "view j"] cursor_simps
        split: option.splits prod.splits intro!: IH dest: member_adv)
qed


lemma options_loop_view [cursor_simps]:
  "options_loop (view j) first st = map_option (apsnd view) (options_loop j first st)"
proof (induction "j_len j - j_pos j" arbitrary: j first st rule: less_induct)
  case less
  obtain opt f u where st: "st = (opt, f, u)" by (metis prod_cases3)
  have IH: "options_loop (view j2) False st2 = map_option (apsnd view) (options_loop j2 False st2)"
    if "next_member j first = Some (k, j1)" "adv j1 j2" for k j1 j2 st2
    using less.hyps [OF member_progress [OF that]] .
  show ?case
    unfolding st
    by (auto simp: options_loop.simps [of j] options_loop.simps [of "view j"] cursor_simps
        split: option.splits prod.splits intro!: IH dest: member_adv)
qed

lemma decode_sections_view [cursor_simps]:
  "decode_numeric_section (view j) s p tab f u =
     map_option (apsnd view) (decode_numeric_section j s p tab f u)"
  "decode_options (view j) opt f u = map_option (apsnd view) (decode_options j opt f u)"
  by (auto simp: decode_numeric_section_def decode_options_def cursor_simps
      split: prod.splits bool.splits)

lemma decode_member_view [cursor_simps]:
  "decode_member i (view j) d = map_option (apsnd view) (decode_member i j d)"
  by (cases i; cases "gs_json_peek j")
    (auto simp: Let_def cursor_simps split: option.splits prod.splits)

lemma message_loop_view [cursor_simps]:
  "message_loop (view j) first d = map_option (apsnd view) (message_loop j first d)"
proof (induction "j_len j - j_pos j" arbitrary: j first d rule: less_induct)
  case less
  have IH: "message_loop (view j2) False d2 = map_option (apsnd view) (message_loop j2 False d2)"
    if "next_member j first = Some (k, j1)" "adv j1 j2" for k j1 j2 d2
    using less.hyps [OF member_progress [OF that]] .
  show ?case
    by (auto simp: message_loop.simps [of j] message_loop.simps [of "view j"] cursor_simps
        split: option.splits prod.splits intro!: IH dest: member_adv decode_member_adv)
qed

lemma view_start: "view \<lparr>j_buf = b, j_len = n, j_pos = 0\<rparr> = \<lparr>j_buf = take n b, j_len = n, j_pos = 0\<rparr>"
  by (simp add: view_def)


lemma decode_player_member_view [cursor_simps]:
  "decode_player_member i (view j) p = map_option (apsnd view) (decode_player_member i j p)"
  by (cases "(i, j, p)" rule: decode_player_member.cases)
    (auto simp: cursor_simps split: option.splits)

lemma player_loop_view [cursor_simps]:
  "player_loop (view j) first p = map_option (apsnd view) (player_loop j first p)"
proof (induction "j_len j - j_pos j" arbitrary: j first p rule: less_induct)
  case less
  have IH: "player_loop (view j2) False p2 = map_option (apsnd view) (player_loop j2 False p2)"
    if "next_member j first = Some (k, j1)" "adv j1 j2" for k j1 j2 p2
    using less.hyps [OF member_progress [OF that]] .
  show ?case
    by (auto simp: player_loop.simps [of j] player_loop.simps [of "view j"] cursor_simps
        split: option.splits prod.splits intro!: IH dest: decode_player_member_adv)
qed

lemma decode_response_member_view [cursor_simps]:
  "decode_response_member i (view j) r = map_option (apsnd view) (decode_response_member i j r)"
  by (cases "(i, j, r)" rule: decode_response_member.cases; cases "gs_json_peek j")
    (auto simp: Let_def decode_player_def cursor_simps split: option.splits prod.splits bool.splits)

lemma response_loop_view [cursor_simps]:
  "response_loop (view j) first r = map_option (apsnd view) (response_loop j first r)"
proof (induction "j_len j - j_pos j" arbitrary: j first r rule: less_induct)
  case less
  have IH: "response_loop (view j2) False r2 = map_option (apsnd view) (response_loop j2 False r2)"
    if "next_member j first = Some (k, j1)" "adv j1 j2" for k j1 j2 r2
    using less.hyps [OF member_progress [OF that]] .
  show ?case
    by (auto simp: response_loop.simps [of j] response_loop.simps [of "view j"] cursor_simps
        split: option.splits prod.splits intro!: IH dest: decode_response_member_adv)
qed

text \<open>
  The same for \<^verbatim>\<open>gsp_response_decode\<close>.
\<close>

theorem gsp_response_decode_bounded:
  "gsp_response_decode json len = gsp_response_decode (take len json) len"
  using gs_json_accept_view [of "\<lparr>j_buf = json, j_len = len, j_pos = 0\<rparr>" LBRACE, unfolded view_start]
  by (auto simp: gsp_response_decode_def cursor_simps split: prod.splits bool.splits option.splits)

section \<open>What the loops keep\<close>

lemma lookup_key_mem: "lookup_key name tab key = Some (k, m) \<Longrightarrow> k \<in> set tab \<and> gs_ci_equal (name k) key"
  by (auto simp: lookup_key_def find_Some_iff split: option.splits)

lemma read_number_member_flags:
  "read_number_member j f = Some ((v, f'), j') \<Longrightarrow> f' = f \<or> f' = f OR GSP_MSGF_TYPE_COERCED"
  by (auto simp: read_number_member_def split: prod.splits if_splits option.splits)

lemma read_bool_member_flags:
  "read_bool_member j f = Some ((v, f'), j') \<Longrightarrow> f' = f \<or> f' = f OR GSP_MSGF_TYPE_COERCED"
  by (auto simp: read_bool_member_def split: prod.splits if_splits option.splits)

lemma read_string_member_flags:
  "read_string_member j n f = Some ((v, f'), j') \<Longrightarrow> f' = f \<or> f' = f OR GSP_MSGF_STRING_TRUNCATED"
  by (auto simp: read_string_member_def split: prod.splits if_splits option.splits)

lemma read_string_member_bounded:
  "read_string_member j n f = Some ((Some s, f'), j') \<Longrightarrow> 0 < n \<Longrightarrow> length s < n \<and> NUL \<notin> set s"
  by (auto simp: read_string_member_def split: prod.splits if_splits option.splits
      dest!: gs_json_read_string_length intro: le_less_trans [OF length_cstr])

lemma numeric_loop_invariant:
  assumes "numeric_loop tab j first st = Some (r, j')" "P st"
    and unknown: "\<And>s p f u. P ((s, p), f, u) \<Longrightarrow> P ((s, p), f, count_unknown u)"
    and flags: "\<And>s p f u c. c = GSP_MSGF_KEY_CASE_MISMATCH \<or> c = GSP_MSGF_TYPE_COERCED \<Longrightarrow>
      P ((s, p), f, u) \<Longrightarrow> P ((s, p), f OR c, u)"
    and store: "\<And>k v s p f u. k \<in> set tab \<Longrightarrow> P ((s, p), f, u) \<Longrightarrow>
      P ((nk_set k v s, p OR nk_bit k), f, u)"
  shows "P r"
  using assms(1,2)
proof (induction "j_len j - j_pos j" arbitrary: j first st rule: less_induct)
  case less
  obtain s p f u where st: "st = ((s, p), f, u)" by (metis surj_pair)
  have IH: "P r" if "next_member j first = Some (k, j1)" "adv j1 j2" 
      "numeric_loop tab j2 False st2 = Some (r, j')" "P st2" for k j1 j2 st2
    using less.hyps [OF member_progress [OF that(1,2)] that(3,4)] .
  have Pm: "P ((s, p), if m then f OR 0x1000 else f, u)" for m
    using less.prems(2) by (auto simp: st intro: flags)
  have Pc: "P ((s, p), f', u) \<and> adv j1 j2" if "read_number_member j1 (if m then f OR 0x1000 else f) = Some ((v, f'), j2)"
    for j1 m v f' j2
    using Pm [of m] read_number_member_flags [OF that] read_number_member_adv [OF that]
    by (auto intro: flags)
  from less.prems show ?case
    unfolding st
    by (subst (asm) numeric_loop.simps)
      (auto simp: lookup_num_def split: option.splits prod.splits
        dest: member_adv dest!: Pc lookup_key_mem intro: IH unknown store)
qed


lemma options_loop_invariant:
  assumes "options_loop j first st = Some (r, j')" "P st"
    and unknown: "\<And>opt f u. P (opt, f, u) \<Longrightarrow> P (opt, f, count_unknown u)"
    and flags: "\<And>opt f u c. c = GSP_MSGF_KEY_CASE_MISMATCH \<or> c = GSP_MSGF_TYPE_COERCED \<Longrightarrow>
      P (opt, f, u) \<Longrightarrow> P (opt, f OR c, u)"
    and store: "\<And>k v opt f u. k \<in> set OPTION_KEYS \<Longrightarrow> P (opt, f, u) \<Longrightarrow>
      P ((bk_set k v opt)\<lparr>o_present := o_present opt OR bk_bit k\<rparr>, f, u)"
  shows "P r"
  using assms(1,2)
proof (induction "j_len j - j_pos j" arbitrary: j first st rule: less_induct)
  case less
  obtain opt f u where st: "st = (opt, f, u)" by (metis prod_cases3)
  have IH: "P r" if "next_member j first = Some (k, j1)" "adv j1 j2"
      "options_loop j2 False st2 = Some (r, j')" "P st2" for k j1 j2 st2
    using less.hyps [OF member_progress [OF that(1,2)] that(3,4)] .
  have Pm: "P (opt, if m then f OR 0x1000 else f, u)" for m
    using less.prems(2) by (auto simp: st intro: flags)
  have Pc: "P (opt, f', u) \<and> adv j1 j2"
    if "read_bool_member j1 (if m then f OR 0x1000 else f) = Some ((v, f'), j2)" for j1 m v f' j2
    using Pm [of m] read_bool_member_flags [OF that] read_bool_member_adv [OF that]
    by (auto intro: flags)
  from less.prems show ?case
    unfolding st
    by (subst (asm) options_loop.simps)
      (auto simp: lookup_bool_def split: option.splits prod.splits
        dest: member_adv dest!: Pc lookup_key_mem intro: IH unknown store)
qed

lemma message_loop_invariant:
  assumes "message_loop j first d = Some (r, j')" "P d"
    and unknown: "\<And>d. P d \<Longrightarrow> P (d\<lparr>dl_unknown := count_unknown (dl_unknown d)\<rparr>)"
    and mismatch: "\<And>d. P d \<Longrightarrow> P (d\<lparr>dl_flags := dl_flags d OR GSP_MSGF_KEY_CASE_MISMATCH\<rparr>)"
    and member: "\<And>i j d d' j'. decode_member i j d = Some (d', j') \<Longrightarrow> P d \<Longrightarrow> P d'"
  shows "P r"
  using assms(1,2)
proof (induction "j_len j - j_pos j" arbitrary: j first d rule: less_induct)
  case less
  have IH: "P r" if "next_member j first = Some (k, j1)" "adv j1 j2"
      "message_loop j2 False d2 = Some (r, j')" "P d2" for k j1 j2 d2
    using less.hyps [OF member_progress [OF that(1,2)] that(3,4)] .
  have Pm: "P d' \<and> adv j1 j2"
    if "decode_member i j1 (if m then d\<lparr>dl_flags := dl_flags d OR 0x1000\<rparr> else d) = Some (d', j2)"
    for i j1 m d' j2
    using that less.prems(2) by (auto dest: decode_member_adv intro: member mismatch split: if_splits)
  from less.prems show ?case
    by (subst (asm) message_loop.simps)
      (auto split: option.splits prod.splits
        dest: member_adv dest!: Pm intro: IH unknown)
qed

section \<open>Section tables\<close>

text \<open>
  What the section reader and the section writer rely on in a key table: the entries name
  different members, and reading a member back gives what was stored.
\<close>

text \<open>A member whose bit is clear holds the zero it was initialised with.\<close>

definition absent_zero :: "'s gs_num_key list \<Rightarrow> 's \<Rightarrow> u32 \<Rightarrow> bool" where
  "absent_zero tab s p \<longleftrightarrow> (\<forall>k \<in> set tab. p AND nk_bit k = 0 \<longrightarrow> nk_get k s = dzero)"

locale section_table =
  fixes tab :: "'s gs_num_key list" and used :: u32
  assumes get_set: "\<forall>k \<in> set tab. \<forall>k' \<in> set tab. \<forall>v s.
      nk_get k (nk_set k' v s) = (if nk_name k = nk_name k' then v else nk_get k s)"
    and names_apart: "\<forall>k \<in> set tab. \<forall>k' \<in> set tab. nk_name k = nk_name k' \<longrightarrow> k = k'"
    and names_ci_apart: "\<forall>k \<in> set tab. \<forall>k' \<in> set tab.
      gs_ci_equal (nk_name k) (nk_name k') \<longrightarrow> nk_name k = nk_name k'"
    and bits_apart: "\<forall>k \<in> set tab. \<forall>k' \<in> set tab.
      (nk_bit k AND nk_bit k' = 0) = (nk_name k \<noteq> nk_name k')"
    and bits_used: "\<forall>k \<in> set tab. within used (nk_bit k)"
begin

lemma absent_zero_store:
  assumes "absent_zero tab s p" "k \<in> set tab"
  shows "absent_zero tab (nk_set k v s) (p OR nk_bit k)"
  unfolding absent_zero_def
proof (intro ballI impI)
  fix k' assume k': "k' \<in> set tab" "(p OR nk_bit k) AND nk_bit k' = 0"
  then have "p AND nk_bit k' = 0" "nk_bit k AND nk_bit k' = 0"
    by (simp_all add: bit.conj_disj_distrib2 or_eq_0_iff)
  with assms k' bits_apart get_set show "nk_get k' (nk_set k v s) = dzero"
    by (auto simp: absent_zero_def)
qed

text \<open>Reading a section keeps that, and sets no bit the table does not have.\<close>

lemma section_absent_zero:
  assumes "decode_numeric_section j s p tab f u = Some (((s', p'), f', u'), j')"
    "absent_zero tab s p" "within used p"
  shows "absent_zero tab s' p' \<and> within used p'"
proof -
  from assms(1) obtain j1 where
    "numeric_loop tab j1 True ((s, p), f, u) = Some (((s', p'), f', u'), j')"
    by (auto simp: decode_numeric_section_def split: prod.splits bool.splits)
  from numeric_loop_invariant [OF this, of "\<lambda>((s, p), f, u). absent_zero tab s p \<and> within used p"]
  show ?thesis using assms(2,3) bits_used by (auto intro: absent_zero_store within_or)
qed

text \<open>The key of an entry finds that entry, in any letter case.\<close>

lemma lookup_entry:
  assumes "k \<in> set tab" "gs_ci_equal (nk_name k) key"
  shows "\<exists>m. lookup_num tab key = Some (k, m)"
proof -
  have "k' = k" if "k' \<in> set tab" "gs_ci_equal (nk_name k') key" for k'
    using assms that names_ci_apart names_apart by (metis gs_ci_equal_iff)
  moreover from assms have "lookup_key nk_name tab key \<noteq> None"
    by (auto simp: lookup_key_def find_None_iff split: option.splits)
  ultimately show ?thesis
    by (metis lookup_key_mem lookup_num_def not_None_eq surj_pair)
qed

end

lemma ball_get_set:
  "\<forall>k \<in> set BALL_KEYS. \<forall>k' \<in> set BALL_KEYS. \<forall>v s.
     nk_get k (nk_set k' v s) = (if nk_name k = nk_name k' then v else nk_get k s)"
  by (simp add: BALL_KEYS_def)

lemma ball_names:
  "\<forall>k \<in> set BALL_KEYS. \<forall>k' \<in> set BALL_KEYS. nk_name k = nk_name k' \<longrightarrow> k = k'"
  by (simp add: BALL_KEYS_def)

lemma ball_bits:
  "\<forall>k \<in> set BALL_KEYS. \<forall>k' \<in> set BALL_KEYS.
     (nk_bit k AND nk_bit k' = 0) = (nk_name k \<noteq> nk_name k')"
  by code_simp

lemma ball_ci:
  "\<forall>k \<in> set BALL_KEYS. \<forall>k' \<in> set BALL_KEYS. gs_ci_equal (nk_name k) (nk_name k') \<longrightarrow> nk_name k = nk_name k'"
  by code_simp

lemma ball_used:
  "\<forall>k \<in> set BALL_KEYS. within 0xff (nk_bit k)"
  by code_simp
lemma club_get_set:
  "\<forall>k \<in> set CLUB_KEYS. \<forall>k' \<in> set CLUB_KEYS. \<forall>v s.
     nk_get k (nk_set k' v s) = (if nk_name k = nk_name k' then v else nk_get k s)"
  by (simp add: CLUB_KEYS_def)

lemma club_names:
  "\<forall>k \<in> set CLUB_KEYS. \<forall>k' \<in> set CLUB_KEYS. nk_name k = nk_name k' \<longrightarrow> k = k'"
  by (simp add: CLUB_KEYS_def)

lemma club_bits:
  "\<forall>k \<in> set CLUB_KEYS. \<forall>k' \<in> set CLUB_KEYS.
     (nk_bit k AND nk_bit k' = 0) = (nk_name k \<noteq> nk_name k')"
  by code_simp

lemma club_ci:
  "\<forall>k \<in> set CLUB_KEYS. \<forall>k' \<in> set CLUB_KEYS. gs_ci_equal (nk_name k) (nk_name k') \<longrightarrow> nk_name k = nk_name k'"
  by code_simp

lemma club_used: "\<forall>k \<in> set CLUB_KEYS. within 0x3ff (nk_bit k)"
  by code_simp

interpretation ball_table: section_table BALL_KEYS "0xff"
  by unfold_locales (fact ball_get_set ball_names ball_ci ball_bits ball_used)+

interpretation club_table: section_table CLUB_KEYS "0x3ff"
  by unfold_locales (fact club_get_set club_names club_ci club_bits club_used)+

section \<open>Well-formed messages\<close>

definition c_string :: "nat \<Rightarrow> bytes \<Rightarrow> bool" where
  "c_string n s \<longleftrightarrow> length s < n \<and> NUL \<notin> set s"

definition message_wf :: "gsp_message \<Rightarrow> bool" where
  "message_wf m \<longleftrightarrow>
     c_string GSP_DEVICE_ID_MAX (m_device_id m) \<and> c_string GSP_UNITS_TEXT_MAX (m_units_text m) \<and>
     c_string GSP_API_VERSION_MAX (m_api_version m) \<and>
     - (2 ^ 63) \<le> m_shot_number m \<and> m_shot_number m < 2 ^ 63 \<and>
     absent_zero BALL_KEYS (m_ball m) (b_present (m_ball m)) \<and> within 0xff (b_present (m_ball m)) \<and>
     b_derived (m_ball m) = 0 \<and>
     absent_zero CLUB_KEYS (m_club m) (c_present (m_club m)) \<and> within 0x3ff (c_present (m_club m)) \<and>
     within 0x1f (o_present (m_options m))"

lemma clamp_int64_range: "- (2 ^ 63) \<le> clamp_int64 d \<and> clamp_int64 d < 2 ^ 63"
proof (cases d)
  case (Finite s m e)
  have "0 \<le> ipart m e \<and> ipart m e < 2 ^ 63"
    if "\<not> d_le d (Finite True (2 ^ 52) 11)" "\<not> d_le (Finite False (2 ^ 52) 11) d"
    using that ipart_bound [of s m e] Finite
    by (simp add: Let_def scaled_def min.commute abs_less_iff)
  with Finite show ?thesis by (auto simp: clamp_int64_def d_eq_def)
qed (simp_all add: clamp_int64_def d_eq_def)

lemma BALL_keep: "k \<in> set BALL_KEYS \<Longrightarrow> b_derived (nk_set k v s) = b_derived s \<and> b_present (nk_set k v s) = b_present s"
  by (auto simp: BALL_KEYS_def)

lemma CLUB_keep: "k \<in> set CLUB_KEYS \<Longrightarrow> c_present (nk_set k v s) = c_present s"
  by (auto simp: CLUB_KEYS_def)

lemma absent_zero_present [simp]:
  "absent_zero BALL_KEYS (b\<lparr>b_present := q\<rparr>) p = absent_zero BALL_KEYS b p"
  "absent_zero CLUB_KEYS (c\<lparr>c_present := q\<rparr>) p = absent_zero CLUB_KEYS c p"
  by (simp_all add: absent_zero_def BALL_KEYS_def CLUB_KEYS_def)

lemma decode_ball_section:
  assumes "decode_numeric_section j s p BALL_KEYS f u = Some (((s', p'), f', u'), j')"
  shows "b_derived s' = b_derived s"
proof -
  from assms obtain j1 where
    "numeric_loop BALL_KEYS j1 True ((s, p), f, u) = Some (((s', p'), f', u'), j')"
    by (auto simp: decode_numeric_section_def split: prod.splits bool.splits)
  from numeric_loop_invariant [OF this, of "\<lambda>((s', p), f, u). b_derived s' = b_derived s"]
  show ?thesis by (auto simp: BALL_keep)
qed

lemma option_bits: "k \<in> set OPTION_KEYS \<Longrightarrow> within 0x1f (bk_bit k)"
  by (auto simp: OPTION_KEYS_def within_def)

lemma decode_options_within:
  assumes "decode_options j opt f u = Some ((opt', f', u'), j')" "within 0x1f (o_present opt)"
  shows "within 0x1f (o_present opt')"
proof -
  from assms(1) obtain j1 where "options_loop j1 True (opt, f, u) = Some ((opt', f', u'), j')"
    by (auto simp: decode_options_def split: prod.splits bool.splits)
  from options_loop_invariant [OF this, of "\<lambda>(opt, f, u). within 0x1f (o_present opt)"]
  show ?thesis using assms(2) by (auto intro: within_or option_bits)
qed

lemma message_wf_zero: "message_wf zero_message"
  by (simp add: message_wf_def c_string_def zero_message_def zero_ball_def zero_club_def
      zero_options_def absent_zero_def BALL_KEYS_def CLUB_KEYS_def)

lemma loop_flags: "within 0x19004 f \<Longrightarrow> c \<in> {0x1000, 0x10000, 0x8000, 0x4} \<Longrightarrow> within 0x19004 (f OR c)"
  for f :: u32
  by (rule within_or) (auto simp: within_def)

lemma decode_numeric_section_flags:
  assumes "decode_numeric_section j s p tab f u = Some ((sp, f', u'), j')" "within 0x19004 f"
  shows "within 0x19004 f'"
proof -
  from assms(1) obtain j1 where "numeric_loop tab j1 True ((s, p), f, u) = Some ((sp, f', u'), j')"
    by (auto simp: decode_numeric_section_def split: prod.splits bool.splits)
  from numeric_loop_invariant [OF this, of "\<lambda>(_, f, _). within 0x19004 f"] show ?thesis
    using assms(2) by (auto intro: loop_flags)
qed

lemma decode_options_flags:
  assumes "decode_options j opt f u = Some ((opt', f', u'), j')" "within 0x19004 f"
  shows "within 0x19004 f'"
proof -
  from assms(1) obtain j1 where "options_loop j1 True (opt, f, u) = Some ((opt', f', u'), j')"
    by (auto simp: decode_options_def split: prod.splits bool.splits)
  from options_loop_invariant [OF this, of "\<lambda>(_, f, _). within 0x19004 f"] show ?thesis
    using assms(2) by (auto intro: loop_flags)
qed


text \<open>What one member does to the locals, branch by branch.\<close>

definition flags_kept :: "u32 \<Rightarrow> u32 \<Rightarrow> bool" where
  "flags_kept f f' \<longleftrightarrow> (within 0x19004 f \<longrightarrow> within 0x19004 f')"

lemma read_member_flags_kept:
  "read_string_member j n f = Some ((vs, f'), j') \<Longrightarrow> flags_kept f f'"
  "read_number_member j f = Some ((vn, f'), j') \<Longrightarrow> flags_kept f f'"
  by (auto simp: flags_kept_def loop_flags dest!: read_string_member_flags read_number_member_flags)

lemma read_string_member_c_string:
  "read_string_member j n f = Some ((Some s, f'), j') \<Longrightarrow> 0 < n \<Longrightarrow> c_string n s"
  by (auto simp: c_string_def dest: read_string_member_bounded)

lemma read_string_member_kept:
  assumes "read_string_member j n fl = Some ((v, f), j')" and "0 < n"
  shows "flags_kept fl f" and "v = Some s \<Longrightarrow> c_string n s"
  using assms by (auto dest: read_member_flags_kept(1) read_string_member_c_string)

lemma decode_member_cases:
  assumes "decode_member i j d = Some (d', j')"
  obtains
    (none) f where "d' = d\<lparr>dl_flags := f\<rparr>" "flags_kept (dl_flags d) f"
  | (device) s f where "c_string GSP_DEVICE_ID_MAX s" "flags_kept (dl_flags d) f"
      "d' = d\<lparr>dl_out := (dl_out d)\<lparr>m_device_id := s\<rparr>, dl_flags := f, have_device_id := True\<rparr>"
  | (units) s f where "c_string GSP_UNITS_TEXT_MAX s" "flags_kept (dl_flags d) f"
      "d' = d\<lparr>dl_out := (dl_out d)\<lparr>m_units_text := s\<rparr>, dl_flags := f, have_units := True\<rparr>"
  | (api) s f where "c_string GSP_API_VERSION_MAX s" "flags_kept (dl_flags d) f"
      "d' = d\<lparr>dl_out := (dl_out d)\<lparr>m_api_version := s\<rparr>, dl_flags := f, have_api_version := True\<rparr>"
  | (shot) v f where "flags_kept (dl_flags d) f"
      "d' = d\<lparr>dl_out := (dl_out d)\<lparr>m_shot_number := clamp_int64 v\<rparr>, dl_flags := f, have_shot_number := True\<rparr>"
  | (ball) ball p f u k where
      "decode_numeric_section k (m_ball (dl_out d)) (b_present (m_ball (dl_out d))) BALL_KEYS
         (dl_flags d) (dl_unknown d) = Some (((ball, p), f, u), j')"
      "d' = d\<lparr>dl_out := (dl_out d)\<lparr>m_ball := ball\<lparr>b_present := p\<rparr>\<rparr>, dl_flags := f, dl_unknown := u,
         have_ball_object := True\<rparr>"
  | (club) club p f u k where
      "decode_numeric_section k (m_club (dl_out d)) (c_present (m_club (dl_out d))) CLUB_KEYS
         (dl_flags d) (dl_unknown d) = Some (((club, p), f, u), j')"
      "d' = d\<lparr>dl_out := (dl_out d)\<lparr>m_club := club\<lparr>c_present := p\<rparr>\<rparr>, dl_flags := f, dl_unknown := u,
         have_club_object := True\<rparr>"
  | (options) opt f u k where
      "decode_options k (m_options (dl_out d)) (dl_flags d) (dl_unknown d) = Some ((opt, f, u), j')"
      "d' = d\<lparr>dl_out := (dl_out d)\<lparr>m_options := opt\<rparr>, dl_flags := f, dl_unknown := u, have_options := True\<rparr>"
proof (cases i)
  case ROOT_DEVICE_ID
  with assms obtain v f where r: "read_string_member j GSP_DEVICE_ID_MAX (dl_flags d) = Some ((v, f), j')"
    and d': "d' = (case v of None \<Rightarrow> d\<lparr>dl_flags := f\<rparr> | Some s \<Rightarrow>
      d\<lparr>dl_out := (dl_out d)\<lparr>m_device_id := s\<rparr>, dl_flags := f, have_device_id := True\<rparr>)"
    by (auto split: option.splits)
  from d' read_string_member_kept [OF r] show thesis
    by (cases v) (auto intro: none device)
next
  case ROOT_UNITS
  with assms obtain v f where r: "read_string_member j GSP_UNITS_TEXT_MAX (dl_flags d) = Some ((v, f), j')"
    and d': "d' = (case v of None \<Rightarrow> d\<lparr>dl_flags := f\<rparr> | Some s \<Rightarrow>
      d\<lparr>dl_out := (dl_out d)\<lparr>m_units_text := s\<rparr>, dl_flags := f, have_units := True\<rparr>)"
    by (auto split: option.splits)
  from d' read_string_member_kept [OF r] show thesis
    by (cases v) (auto intro: none units)
next
  case ROOT_API_VERSION
  with assms obtain v f where r: "read_string_member j GSP_API_VERSION_MAX (dl_flags d) = Some ((v, f), j')"
    and d': "d' = (case v of None \<Rightarrow> d\<lparr>dl_flags := f\<rparr> | Some s \<Rightarrow>
      d\<lparr>dl_out := (dl_out d)\<lparr>m_api_version := s\<rparr>, dl_flags := f, have_api_version := True\<rparr>)"
    by (auto split: option.splits)
  from d' read_string_member_kept [OF r] show thesis
    by (cases v) (auto intro: none api)
next
  case ROOT_SHOT_NUMBER
  with assms obtain v f where r: "read_number_member j (dl_flags d) = Some ((v, f), j')"
    and d': "d' = (case v of None \<Rightarrow> d\<lparr>dl_flags := f\<rparr> | Some v \<Rightarrow>
      d\<lparr>dl_out := (dl_out d)\<lparr>m_shot_number := clamp_int64 v\<rparr>,
        dl_flags := (if has_fraction v then f OR 4 else f), have_shot_number := True\<rparr>)"
    by (auto split: option.splits)
  have "flags_kept (dl_flags d) (if b then f OR 4 else f)" for b
    using read_member_flags_kept(2) [OF r] by (auto simp: flags_kept_def loop_flags)
  note kept = this read_member_flags_kept(2) [OF r]
  show thesis
  proof (cases v)
    case (Some x)
    with d' shot [OF kept(1) [of "has_fraction x"], of x] show thesis by simp
  qed (use d' none kept(2) in simp)
next
  case ROOT_BALL_DATA
  with assms show thesis
    by (auto simp: Let_def flags_kept_def split: option.splits prod.splits if_splits
        intro: ball none [of "dl_flags d"])
next
  case ROOT_CLUB_DATA
  with assms show thesis
    by (auto simp: Let_def flags_kept_def split: option.splits prod.splits if_splits
        intro: club none [of "dl_flags d"])
next
  case ROOT_OPTIONS
  with assms show thesis
    by (auto simp: flags_kept_def split: option.splits prod.splits if_splits
        intro: options none [of "dl_flags d"])
qed

lemma decode_member_wf:
  assumes "decode_member i j d = Some (d', j')" "message_wf (dl_out d)"
  shows "message_wf (dl_out d')"
  using assms(1)
proof (cases rule: decode_member_cases)
  case (shot v f)
  with assms clamp_int64_range [of v] show ?thesis by (simp add: message_wf_def)
next
  case (ball b p f u k)
  with assms ball_table.section_absent_zero [OF ball(1)] decode_ball_section [OF ball(1)]
  show ?thesis by (simp add: message_wf_def)
next
  case (club c p f u k)
  with assms club_table.section_absent_zero [OF club(1)] show ?thesis by (simp add: message_wf_def)
next
  case (options opt f u k)
  with assms decode_options_within [OF options(1)] show ?thesis by (simp add: message_wf_def)
qed (use assms in \<open>simp_all add: message_wf_def\<close>)

lemma message_loop_wf:
  "message_loop j first d = Some (r, j') \<Longrightarrow> message_wf (dl_out d) \<Longrightarrow> message_wf (dl_out r)"
  by (erule message_loop_invariant [where P = "\<lambda>d. message_wf (dl_out d)"])
    (auto intro: decode_member_wf)

lemma gsp_message_decode_run:
  assumes "gsp_message_decode json len = Inr m"
  obtains j d j' where "message_loop j True (start_decode len) = Some (d, j')" "m = finish_decode d"
  using assms by (auto simp: gsp_message_decode_def split: prod.splits bool.splits option.splits if_splits)

lemma finish_decode_sel:
  "m_device_id (finish_decode d) = m_device_id (dl_out d)"
  "m_units_text (finish_decode d) = m_units_text (dl_out d)"
  "m_api_version (finish_decode d) = m_api_version (dl_out d)"
  "m_shot_number (finish_decode d) = m_shot_number (dl_out d)"
  "m_options (finish_decode d) = m_options (dl_out d)"
  "m_ball (finish_decode d) = m_ball (dl_out d)"
  "m_club (finish_decode d) = m_club (dl_out d)"
  "m_conn (finish_decode d) = m_conn (dl_out d)"
  "m_sequence (finish_decode d) = m_sequence (dl_out d)"
  "m_host_recv_us (finish_decode d) = m_host_recv_us (dl_out d)"
  "m_wire_length (finish_decode d) = m_wire_length (dl_out d)"
  "m_kind (finish_decode d) = classify (m_options (dl_out d))"
  "m_unknown_keys (finish_decode d) = dl_unknown d"
  by (simp_all add: finish_decode_def Let_def)

text \<open>
  C32. Whatever untrusted bytes arrive, a message that decodes is well formed: its strings are
  NUL-terminated within their arrays, the shot number is a 64-bit integer (no overflow on a
  value such as 1e999), the presence words have no bit outside their tables, a section member
  whose presence bit is clear holds the zero it was initialised with, nothing is marked as
  derived, and the kind is the one its options give.
\<close>

theorem gsp_message_decode_wf:
  assumes "gsp_message_decode json len = Inr m"
  shows "message_wf m \<and> m_kind m = classify (m_options m)"
proof -
  from assms obtain j d j' where d: "message_loop j True (start_decode len) = Some (d, j')"
    and m: "m = finish_decode d" by (rule gsp_message_decode_run)
  have "message_wf (dl_out (start_decode len))"
    using message_wf_zero by (simp add: start_decode_def message_wf_def)
  from message_loop_wf [OF d this] show ?thesis
    by (simp add: m message_wf_def finish_decode_sel)
qed

section \<open>Flags\<close>

text \<open>
  The invariant of the member loop behind the flag pass: the loop itself raises only four of
  the flags, and a member it has not seen is still zero.
\<close>

definition locals_ok :: "decode_locals \<Rightarrow> bool" where
  "locals_ok d \<longleftrightarrow>
     within 0x19004 (dl_flags d) \<and> m_units (dl_out d) = GSP_UNITS_UNKNOWN \<and>
     (have_device_id d \<or> m_device_id (dl_out d) = []) \<and>
     (have_shot_number d \<or> m_shot_number (dl_out d) = 0) \<and>
     (have_api_version d \<or> m_api_version (dl_out d) = []) \<and>
     (have_units d \<or> m_units_text (dl_out d) = []) \<and>
     (have_ball_object d \<or> m_ball (dl_out d) = zero_ball) \<and>
     (have_club_object d \<or> m_club (dl_out d) = zero_club) \<and>
     (have_options d \<or> m_options (dl_out d) = zero_options)"


lemma decode_member_ok:
  assumes "decode_member i j d = Some (d', j')" "locals_ok d"
  shows "locals_ok d'"
  using assms(1)
proof (cases rule: decode_member_cases)
  case (ball b p f u k)
  with assms decode_numeric_section_flags [OF ball(1)] show ?thesis by (simp add: locals_ok_def)
next
  case (club c p f u k)
  with assms decode_numeric_section_flags [OF club(1)] show ?thesis by (simp add: locals_ok_def)
next
  case (options opt f u k)
  with assms decode_options_flags [OF options(1)] show ?thesis by (simp add: locals_ok_def)
qed (use assms in \<open>simp_all add: locals_ok_def flags_kept_def\<close>)

lemma message_loop_ok:
  assumes "message_loop j first d = Some (r, j')" "locals_ok d"
  shows "locals_ok r"
  using assms(1)
proof (rule message_loop_invariant)
  show "locals_ok (d\<lparr>dl_flags := dl_flags d OR 0x1000\<rparr>)" if "locals_ok d" for d
    using that by (simp add: locals_ok_def loop_flags)
  show "locals_ok (d\<lparr>dl_unknown := count_unknown (dl_unknown d)\<rparr>)" if "locals_ok d" for d
    using that by (simp add: locals_ok_def)
qed (use assms decode_member_ok in auto)

lemma bit_flag_if: "bit (flag_if c f x) i \<longleftrightarrow> bit x i \<or> c \<and> bit f i"
  by (simp add: flag_if_def bit_or_iff)

lemma loop_flags_clear:
  "within 0x19004 f \<Longrightarrow> i \<in> {0, 1, 3, 4, 5, 6, 7, 8, 9, 10, 11, 13, 14} \<Longrightarrow> \<not> bit f i" for f :: u32
  by (rule within_clear) auto

lemma finish_decode_bits:
  assumes "within 0x19004 (dl_flags d)"
  defines "f \<equiv> m_flags (finish_decode d)" and "m \<equiv> finish_decode d"
  shows "bit f 0 \<longleftrightarrow> \<not> have_device_id d" "bit f 1 \<longleftrightarrow> \<not> have_shot_number d"
    "bit f 3 \<longleftrightarrow> \<not> have_api_version d"
    "bit f 4 \<longleftrightarrow> have_api_version d \<and> m_api_version m \<noteq> GSP_API_VERSION_TEXT"
    "bit f 5 \<longleftrightarrow> \<not> have_options d"
    "bit f 6 \<longleftrightarrow> o_contains_ball_data (m_options m) \<and> \<not> have_ball_object d"
    "bit f 7 \<longleftrightarrow> have_ball_object d \<and> \<not> o_contains_ball_data (m_options m)"
    "bit f 8 \<longleftrightarrow> o_contains_club_data (m_options m) \<and> \<not> have_club_object d"
    "bit f 9 \<longleftrightarrow> have_club_object d \<and> \<not> o_contains_club_data (m_options m) \<and> m_kind m \<noteq> GSP_MSG_SHOT"
    "bit f 10 \<longleftrightarrow> o_contains_ball_data (m_options m) \<and> \<not> gsp_message_ball_complete (m_ball m)"
    "bit f 11 \<longleftrightarrow> have_units d \<and> m_units m = GSP_UNITS_UNKNOWN"
    "bit f 13 \<longleftrightarrow> m_unknown_keys m \<noteq> 0" "\<not> bit f 14"
proof -
  have z: "\<not> bit (dl_flags d) 0" "\<not> bit (dl_flags d) 1" "\<not> bit (dl_flags d) 3" "\<not> bit (dl_flags d) 4"
    "\<not> bit (dl_flags d) 5" "\<not> bit (dl_flags d) 6" "\<not> bit (dl_flags d) 7" "\<not> bit (dl_flags d) 8"
    "\<not> bit (dl_flags d) 9" "\<not> bit (dl_flags d) 10" "\<not> bit (dl_flags d) 11" "\<not> bit (dl_flags d) 13"
    "\<not> bit (dl_flags d) 14"
    using loop_flags_clear [OF assms(1)] by simp_all
  note defs = f_def m_def finish_decode_def Let_def bit_flag_if bit_or_iff classify_def word_greater_zero_iff
  show "bit f 0 \<longleftrightarrow> \<not> have_device_id d" "bit f 1 \<longleftrightarrow> \<not> have_shot_number d"
    "bit f 3 \<longleftrightarrow> \<not> have_api_version d"
    "bit f 4 \<longleftrightarrow> have_api_version d \<and> m_api_version m \<noteq> GSP_API_VERSION_TEXT"
    "bit f 5 \<longleftrightarrow> \<not> have_options d"
    "bit f 6 \<longleftrightarrow> o_contains_ball_data (m_options m) \<and> \<not> have_ball_object d"
    "bit f 7 \<longleftrightarrow> have_ball_object d \<and> \<not> o_contains_ball_data (m_options m)"
    "bit f 8 \<longleftrightarrow> o_contains_club_data (m_options m) \<and> \<not> have_club_object d"
    "bit f 9 \<longleftrightarrow> have_club_object d \<and> \<not> o_contains_club_data (m_options m) \<and> m_kind m \<noteq> GSP_MSG_SHOT"
    "bit f 10 \<longleftrightarrow> o_contains_ball_data (m_options m) \<and> \<not> gsp_message_ball_complete (m_ball m)"
    "bit f 11 \<longleftrightarrow> have_units d \<and> m_units m = GSP_UNITS_UNKNOWN"
    "bit f 13 \<longleftrightarrow> m_unknown_keys m \<noteq> 0" "\<not> bit f 14"
    using z by (simp_all add: defs)
qed


text \<open>A shot that claims ball data it lacks, beside a key no table has.\<close>

definition sample_text :: bytes where
  "sample_text = ''{ '' @ [QUOTE] @ ''shotDataOptions'' @ [QUOTE] @ '':{'' @ [QUOTE] @ ''ContainsBallData'' @
     [QUOTE] @ '':true},'' @ [QUOTE] @ ''X'' @ [QUOTE] @ '':[1]}''"

definition sample_message :: gsp_message where
  "sample_message = projr (gsp_message_decode sample_text (length sample_text))"

lemma sample_decodes: "gsp_message_decode sample_text (length sample_text) = Inr sample_message"
proof -
  have "\<not> isl (gsp_message_decode sample_text (length sample_text))" by code_simp
  then show ?thesis by (simp add: sample_message_def)
qed


theorem gsp_message_decode_wf_witness: "m_kind sample_message = GSP_MSG_SHOT"
proof -
  have "classify (m_options sample_message) = GSP_MSG_SHOT" by code_simp
  then show ?thesis using gsp_message_decode_wf [OF sample_decodes] by simp
qed

end
