(* ===== verification/Encode.thy ===== *)
theory Encode
  imports Decode Framer
begin

text \<open>
  The encoders of \<^verbatim>\<open>src/gs_encode.c\<close>: the counting writer, the JSON string and
  number writers, \<^verbatim>\<open>gsp_response_encode\<close> and \<^verbatim>\<open>gsp_message_encode\<close>. The writer
  is the C struct with its buffer as an array of bytes (\<^const>\<open>None\<close> while measuring), so that
  the two passes and what a failed call leaves in the caller's buffer are part of the model.

  The reference definitions (\<open>response_text\<close>, \<open>message_text\<close> and their parts) say as plain
  text what the writers produce; every writer is shown to append exactly that text.
\<close>

section \<open>The counting writer\<close>

record gs_out =
  o_buf :: "bytes option"
  o_size :: nat
  o_used :: nat

definition ow_char :: "gs_out \<Rightarrow> byte \<Rightarrow> gs_out" where
  "ow_char ow c =
     (let ow = (case o_buf ow of
                 Some b \<Rightarrow> if o_used ow < o_size ow then ow\<lparr>o_buf := Some (b[o_used ow := c])\<rparr> else ow
               | None \<Rightarrow> ow)
      in ow\<lparr>o_used := o_used ow + 1\<rparr>)"

text \<open>\<open>s\<close> is a C string.\<close>

fun ow_str :: "gs_out \<Rightarrow> bytes \<Rightarrow> gs_out" where
  "ow_str ow [] = ow"
| "ow_str ow (c # s) = ow_str (ow_char ow c) s"

definition hex_digits :: bytes where
  "hex_digits = ''0123456789abcdef''"

definition ow_json_char :: "gs_out \<Rightarrow> byte \<Rightarrow> gs_out" where
  "ow_json_char ow c =
     (if c = QUOTE \<or> c = BACKSLASH then ow_char (ow_char ow BACKSLASH) c
      else if c = LF then ow_str ow [BACKSLASH, CHR ''n'']
      else if c = CR then ow_str ow [BACKSLASH, CHR ''r'']
      else if c = TAB then ow_str ow [BACKSLASH, CHR ''t'']
      else if c = CHR 0x08 then ow_str ow [BACKSLASH, CHR ''b'']
      else if c = CHR 0x0C then ow_str ow [BACKSLASH, CHR ''f'']
      else if ord c < 0x20 then
        ow_char
          (ow_char (ow_str ow [BACKSLASH, CHR ''u'', CHR ''0'', CHR ''0''])
            (hex_digits ! nat (ord c div 16)))
          (hex_digits ! nat (ord c mod 16))
      else ow_char ow c)"

text \<open>The loop of \<^verbatim>\<open>ow_json_string\<close>: at most \<open>n\<close> bytes, and none past a NUL.\<close>

fun json_string_loop :: "gs_out \<Rightarrow> bytes \<Rightarrow> nat \<Rightarrow> gs_out" where
  "json_string_loop ow (c # s) (Suc n) =
     (if c = NUL then ow else json_string_loop (ow_json_char ow c) s n)"
| "json_string_loop ow s n = ow"

definition ow_json_string :: "gs_out \<Rightarrow> bytes \<Rightarrow> nat \<Rightarrow> gs_out" where
  "ow_json_string ow s n = ow_char (json_string_loop (ow_char ow QUOTE) s n) QUOTE"

definition ow_int64 :: "gs_out \<Rightarrow> int \<Rightarrow> gs_out" where
  "ow_int64 ow v = ow_str ow (fmt_int v)"

definition ow_double :: "gs_out \<Rightarrow> double \<Rightarrow> gs_out" where
  "ow_double ow v =
     (if \<not> isfinite v then ow_char ow CHR ''0''
      else if d_eq (fst (strtod (fmt_g 15 v))) v then ow_str ow (fmt_g 15 v)
      else if d_eq (fst (strtod (fmt_g 16 v))) v then ow_str ow (fmt_g 16 v)
      else ow_str ow (fmt_g 17 v))"

definition ow_break :: "gs_out \<Rightarrow> bool \<Rightarrow> nat \<Rightarrow> gs_out" where
  "ow_break ow indent depth =
     (if \<not> indent then ow else ow_str (ow_char ow LF) (replicate (depth * 2) SPACE))"

section \<open>gsp_response_encode\<close>

definition code_is_ours :: "int \<Rightarrow> bool" where
  "code_is_ours code \<longleftrightarrow> code = GSP_CODE_SHOT_RECEIVED \<or> code = GSP_CODE_PLAYER_INFO \<or>
     code = GSP_CODE_READY \<or> code = GSP_CODE_ROUND_ENDED \<or> code = GSP_CODE_FAILURE"

text \<open>A key in its quotes with the colon, as the string literals of the source have it.\<close>

definition key_text :: "bytes \<Rightarrow> bytes" where
  "key_text k = [QUOTE] @ k @ [QUOTE, CHR '':'']"

definition comma :: "gs_out \<Rightarrow> bool \<Rightarrow> gs_out" where
  "comma ow first = (if \<not> first then ow_char ow CHR '','' else ow)"

definition emit_player :: "gs_out \<Rightarrow> gsp_player_info \<Rightarrow> gs_out" where
  "emit_player ow p =
     (let handed = gsp_handed_text (p_handed p);
          club = gsp_club_code (p_club p);
          first = True;
          ow = ow_str ow [LBRACE];
          (ow, first) = (if handed \<noteq> [] then
            (ow_json_string (ow_str ow (key_text ''Handed'')) handed (length handed), False)
            else (ow, first));
          (ow, first) = (if club \<noteq> [] then
            (ow_json_string (ow_str (comma ow first) (key_text ''Club'')) club (length club), False)
            else (ow, first));
          (ow, first) = (if p_has_distance p then
            (ow_double (ow_str (comma ow first) (key_text ''DistanceToTarget''))
              (p_distance_to_target p), False)
            else (ow, first));
          ow = (if p_surface p \<noteq> [] then
            ow_json_string (ow_str (comma ow first) (key_text ''Surface'')) (p_surface p) GSP_SURFACE_MAX
            else ow)
      in ow_str ow [RBRACE])"

definition emit_response ::
  "gs_out \<Rightarrow> int \<Rightarrow> bytes option \<Rightarrow> gsp_player_info option \<Rightarrow> gs_out" where
  "emit_response ow code message player =
     (let ow = ow_int64 (ow_str ow (LBRACE # key_text ''Code'')) code;
          ow = (case message of
                 Some s \<Rightarrow> ow_json_string (ow_str ow (CHR '','' # key_text ''Message'')) s (length s)
               | None \<Rightarrow> ow);
          ow = (case player of
                 Some p \<Rightarrow> emit_player (ow_str ow (CHR '','' # key_text ''Player'')) p
               | None \<Rightarrow> ow)
      in ow_char ow RBRACE)"

text \<open>
  The caller's array before and after, and the length written. \<open>out\<close> is the whole array, so
  that its length is \<^verbatim>\<open>out_size\<close>.
\<close>

definition gsp_response_encode ::
  "int \<Rightarrow> bytes option \<Rightarrow> gsp_player_info option \<Rightarrow> bytes \<Rightarrow> gsp_status \<times> bytes \<times> nat option" where
  "gsp_response_encode code message player out =
     (if out = [] then (GSP_ERR_INVALID_ARG, out, None)
      else if \<not> code_is_ours code then (GSP_ERR_INVALID_ARG, out, None)
      else
        (let probe = emit_response \<lparr>o_buf = None, o_size = 0, o_used = 0\<rparr> code message player in
         if length out < o_used probe + 1 then (GSP_ERR_BUFFER_TOO_SMALL, out, None)
         else
           (let real = emit_response \<lparr>o_buf = Some out, o_size = length out - 1, o_used = 0\<rparr>
                         code message player
            in (GSP_OK, (the (o_buf real))[o_used real := NUL], Some (o_used real)))))"

section \<open>gsp_message_encode\<close>

text \<open>\<^verbatim>\<open>member\<close> of the source, without the \<^verbatim>\<open>first\<close> flag it clears.\<close>

definition ow_member :: "gs_out \<Rightarrow> bool \<Rightarrow> nat \<Rightarrow> bool \<Rightarrow> bytes \<Rightarrow> gs_out" where
  "ow_member ow indent depth first name =
     (let ow = comma ow first;
          ow = ow_break ow indent depth;
          ow = ow_json_string ow name (length name);
          ow = ow_char ow CHR '':''
      in if indent then ow_char ow SPACE else ow)"

fun numeric_members ::
  "gs_out \<Rightarrow> bool \<Rightarrow> nat \<Rightarrow> bool \<Rightarrow> 's gs_num_key list \<Rightarrow> 's \<Rightarrow> u32 \<Rightarrow> gs_out \<times> bool" where
  "numeric_members ow indent depth first [] s present = (ow, first)"
| "numeric_members ow indent depth first (k # tab) s present =
     (if present AND nk_bit k = 0 then numeric_members ow indent depth first tab s present
      else numeric_members (ow_double (ow_member ow indent depth first (nk_name k)) (nk_get k s))
             indent depth False tab s present)"

text \<open>
  The local table of names, bits and values the caller builds has the entries of the
  decoder's table in the same order.
\<close>

definition emit_numeric_section ::
  "gs_out \<Rightarrow> bool \<Rightarrow> nat \<Rightarrow> 's gs_num_key list \<Rightarrow> 's \<Rightarrow> u32 \<Rightarrow> gs_out" where
  "emit_numeric_section ow indent depth tab s present =
     (case numeric_members (ow_char ow LBRACE) indent (depth + 1) True tab s present of
        (ow, first) \<Rightarrow> ow_char (if \<not> first then ow_break ow indent depth else ow) RBRACE)"

definition bool_text :: "bool \<Rightarrow> bytes" where
  "bool_text b = (if b then ''true'' else ''false'')"

definition emit_options :: "gs_out \<Rightarrow> bool \<Rightarrow> nat \<Rightarrow> gsp_shot_options \<Rightarrow> gs_out" where
  "emit_options ow indent depth opt =
     (let d = depth + 1;
          ow = ow_char ow LBRACE;
          ow = ow_str (ow_member ow indent d True ''ContainsBallData'') (bool_text (o_contains_ball_data opt));
          ow = ow_str (ow_member ow indent d False ''ContainsClubData'') (bool_text (o_contains_club_data opt));
          ow = (if o_present opt AND GSP_OPT_LAUNCH_MONITOR_IS_READY \<noteq> 0 then
                 ow_str (ow_member ow indent d False ''LaunchMonitorIsReady'')
                   (bool_text (o_launch_monitor_is_ready opt)) else ow);
          ow = (if o_present opt AND GSP_OPT_LAUNCH_MONITOR_BALL_DETECTED \<noteq> 0 then
                 ow_str (ow_member ow indent d False ''LaunchMonitorBallDetected'')
                   (bool_text (o_launch_monitor_ball_detected opt)) else ow);
          ow = (if o_present opt AND GSP_OPT_IS_HEARTBEAT \<noteq> 0 then
                 ow_str (ow_member ow indent d False ''IsHeartBeat'')
                   (bool_text (o_is_heartbeat opt)) else ow)
      in ow_char (ow_break ow indent depth) RBRACE)"

definition emit_message :: "gs_out \<Rightarrow> gsp_message \<Rightarrow> bool \<Rightarrow> gs_out" where
  "emit_message ow m indent =
     (let first = True;
          ow = ow_char ow LBRACE;
          (ow, first) = (if m_device_id m \<noteq> [] then
            (ow_json_string (ow_member ow indent 1 first ''DeviceID'') (m_device_id m) GSP_DEVICE_ID_MAX, False)
            else (ow, first));
          units = (if m_units_text m \<noteq> [] then m_units_text m else gsp_units_text (m_units m));
          (ow, first) = (if units \<noteq> [] then
            (ow_json_string (ow_member ow indent 1 first ''Units'') units GSP_UNITS_TEXT_MAX, False)
            else (ow, first));
          ow = ow_int64 (ow_member ow indent 1 first ''ShotNumber'') (m_shot_number m);
          ow = (if m_api_version m \<noteq> [] then
            ow_json_string (ow_member ow indent 1 False ''APIversion'') (m_api_version m) GSP_API_VERSION_MAX
            else ow);
          ow = (if b_present (m_ball m) \<noteq> 0 then
            emit_numeric_section (ow_member ow indent 1 False ''BallData'') indent 1 BALL_KEYS (m_ball m)
              (b_present (m_ball m))
            else ow);
          ow = (if c_present (m_club m) \<noteq> 0 then
            emit_numeric_section (ow_member ow indent 1 False ''ClubData'') indent 1 CLUB_KEYS (m_club m)
              (c_present (m_club m))
            else ow);
          ow = emit_options (ow_member ow indent 1 False ''ShotDataOptions'') indent 1 (m_options m)
      in ow_char (ow_break ow indent 0) RBRACE)"

definition gsp_message_encode :: "gsp_message \<Rightarrow> bool \<Rightarrow> bytes \<Rightarrow> gsp_status \<times> bytes \<times> nat option" where
  "gsp_message_encode m indent out =
     (if out = [] then (GSP_ERR_INVALID_ARG, out, None)
      else
        (let probe = emit_message \<lparr>o_buf = None, o_size = 0, o_used = 0\<rparr> m indent in
         if length out < o_used probe + 1 then (GSP_ERR_BUFFER_TOO_SMALL, out, None)
         else
           (let real = emit_message \<lparr>o_buf = Some out, o_size = length out - 1, o_used = 0\<rparr> m indent
            in (GSP_OK, (the (o_buf real))[o_used real := NUL], Some (o_used real)))))"

section \<open>Reference texts\<close>

definition json_char_text :: "byte \<Rightarrow> bytes" where
  "json_char_text c =
     (if c = QUOTE \<or> c = BACKSLASH then [BACKSLASH, c]
      else if c = LF then [BACKSLASH, CHR ''n'']
      else if c = CR then [BACKSLASH, CHR ''r'']
      else if c = TAB then [BACKSLASH, CHR ''t'']
      else if c = CHR 0x08 then [BACKSLASH, CHR ''b'']
      else if c = CHR 0x0C then [BACKSLASH, CHR ''f'']
      else if ord c < 0x20 then
        [BACKSLASH, CHR ''u'', CHR ''0'', CHR ''0'',
         hex_digits ! nat (ord c div 16), hex_digits ! nat (ord c mod 16)]
      else [c])"

definition json_text :: "bytes \<Rightarrow> bytes" where
  "json_text s = [QUOTE] @ concat (map json_char_text s) @ [QUOTE]"

definition double_text :: "double \<Rightarrow> bytes" where
  "double_text v =
     (if \<not> isfinite v then ''0''
      else if d_eq (fst (strtod (fmt_g 15 v))) v then fmt_g 15 v
      else if d_eq (fst (strtod (fmt_g 16 v))) v then fmt_g 16 v
      else fmt_g 17 v)"

definition break_text :: "bool \<Rightarrow> nat \<Rightarrow> bytes" where
  "break_text indent depth = (if indent then LF # replicate (depth * 2) SPACE else [])"

definition member_head :: "bool \<Rightarrow> nat \<Rightarrow> bytes \<Rightarrow> bytes" where
  "member_head indent depth k =
     break_text indent depth @ json_text k @ '':'' @ (if indent then [SPACE] else [])"

definition member_text :: "bool \<Rightarrow> nat \<Rightarrow> bytes \<times> bytes \<Rightarrow> bytes" where
  "member_text indent depth = (\<lambda>(k, v). member_head indent depth k @ v)"

text \<open>The members after the first, each with its comma; then a whole object.\<close>

definition more_text :: "bool \<Rightarrow> nat \<Rightarrow> (bytes \<times> bytes) list \<Rightarrow> bytes" where
  "more_text indent depth ms = concat (map (\<lambda>m. CHR '','' # member_text indent depth m) ms)"

fun members_text :: "bool \<Rightarrow> nat \<Rightarrow> (bytes \<times> bytes) list \<Rightarrow> bytes" where
  "members_text indent depth [] = []"
| "members_text indent depth (m # ms) = member_text indent depth m @ more_text indent depth ms"

definition object_text :: "bool \<Rightarrow> nat \<Rightarrow> (bytes \<times> bytes) list \<Rightarrow> bytes" where
  "object_text indent depth ms =
     [LBRACE] @ members_text indent (depth + 1) ms @
     (if ms = [] then [] else break_text indent depth) @ [RBRACE]"

definition player_members :: "gsp_player_info \<Rightarrow> (bytes \<times> bytes) list" where
  "player_members p =
     (if gsp_handed_text (p_handed p) = [] then [] else [(''Handed'', json_text (gsp_handed_text (p_handed p)))]) @
     (if gsp_club_code (p_club p) = [] then [] else [(''Club'', json_text (gsp_club_code (p_club p)))]) @
     (if p_has_distance p then [(''DistanceToTarget'', double_text (p_distance_to_target p))] else []) @
     (if p_surface p = [] then [] else [(''Surface'', json_text (cstr (take GSP_SURFACE_MAX (p_surface p))))])"

definition response_text :: "int \<Rightarrow> bytes option \<Rightarrow> gsp_player_info option \<Rightarrow> bytes" where
  "response_text code message player =
     object_text False 0
       ([(''Code'', fmt_int code)] @
        (case message of None \<Rightarrow> [] | Some s \<Rightarrow> [(''Message'', json_text (cstr s))]) @
        (case player of None \<Rightarrow> [] | Some p \<Rightarrow> [(''Player'', object_text False 1 (player_members p))]))"

definition section_members :: "'s gs_num_key list \<Rightarrow> 's \<Rightarrow> u32 \<Rightarrow> (bytes \<times> bytes) list" where
  "section_members tab s present =
     map (\<lambda>k. (nk_name k, double_text (nk_get k s))) (filter (\<lambda>k. present AND nk_bit k \<noteq> 0) tab)"

definition options_members :: "gsp_shot_options \<Rightarrow> (bytes \<times> bytes) list" where
  "options_members opt =
     [(''ContainsBallData'', bool_text (o_contains_ball_data opt)),
      (''ContainsClubData'', bool_text (o_contains_club_data opt))] @
     (if o_present opt AND GSP_OPT_LAUNCH_MONITOR_IS_READY = 0 then []
      else [(''LaunchMonitorIsReady'', bool_text (o_launch_monitor_is_ready opt))]) @
     (if o_present opt AND GSP_OPT_LAUNCH_MONITOR_BALL_DETECTED = 0 then []
      else [(''LaunchMonitorBallDetected'', bool_text (o_launch_monitor_ball_detected opt))]) @
     (if o_present opt AND GSP_OPT_IS_HEARTBEAT = 0 then []
      else [(''IsHeartBeat'', bool_text (o_is_heartbeat opt))])"

definition message_members :: "gsp_message \<Rightarrow> bool \<Rightarrow> (bytes \<times> bytes) list" where
  "message_members m indent =
     (let units = (if m_units_text m \<noteq> [] then m_units_text m else gsp_units_text (m_units m)) in
      (if m_device_id m = [] then [] else [(''DeviceID'', json_text (cstr (take GSP_DEVICE_ID_MAX (m_device_id m))))]) @
      (if units = [] then [] else [(''Units'', json_text (cstr (take GSP_UNITS_TEXT_MAX units)))]) @
      [(''ShotNumber'', fmt_int (m_shot_number m))] @
      (if m_api_version m = [] then []
       else [(''APIversion'', json_text (cstr (take GSP_API_VERSION_MAX (m_api_version m))))]) @
      (if b_present (m_ball m) = 0 then []
       else [(''BallData'', object_text indent 1 (section_members BALL_KEYS (m_ball m) (b_present (m_ball m))))]) @
      (if c_present (m_club m) = 0 then []
       else [(''ClubData'', object_text indent 1 (section_members CLUB_KEYS (m_club m) (c_present (m_club m))))]) @
      [(''ShotDataOptions'', object_text indent 1 (options_members (m_options m)))])"

definition message_text :: "gsp_message \<Rightarrow> bool \<Rightarrow> bytes" where
  "message_text m indent = object_text indent 0 (message_members m indent)"

section \<open>Every writer appends its text\<close>

lemma ow_str_append [writer_simps]: "ow_str ow (s @ t) = ow_str (ow_str ow s) t"
  by (induction s arbitrary: ow) simp_all

lemma ow_json_char_text [writer_simps]: "ow_json_char ow c = ow_str ow (json_char_text c)"
  by (simp add: ow_json_char_def json_char_text_def)

lemma json_string_loop_text [writer_simps]:
  "json_string_loop ow s n = ow_str ow (concat (map json_char_text (cstr (take n s))))"
  by (induction ow s n rule: json_string_loop.induct) (simp_all add: cstr_def writer_simps)

lemma ow_json_string_text [writer_simps]:
  "ow_json_string ow s n = ow_str ow (json_text (cstr (take n s)))"
  by (simp add: ow_json_string_def json_text_def writer_simps)

lemma ow_int64_text [writer_simps]: "ow_int64 ow v = ow_str ow (fmt_int v)"
  by (simp add: ow_int64_def)

lemma ow_double_text [writer_simps]: "ow_double ow v = ow_str ow (double_text v)"
  by (simp add: ow_double_def double_text_def)

lemma ow_break_text [writer_simps]: "ow_break ow indent depth = ow_str ow (break_text indent depth)"
  by (simp add: ow_break_def break_text_def)

definition plain :: "byte \<Rightarrow> bool" where
  "plain c \<longleftrightarrow> c \<noteq> QUOTE \<and> c \<noteq> BACKSLASH \<and> 0x20 \<le> ord c"

lemma json_char_text_plain: "plain c \<Longrightarrow> json_char_text c = [c]"
proof -
  assume p: "plain c"
  then have "c \<noteq> LF" "c \<noteq> CR" "c \<noteq> TAB" "c \<noteq> CHR 0x08" "c \<noteq> CHR 0x0C"
    by (auto simp: plain_def)
  with p show ?thesis by (simp add: json_char_text_def plain_def)
qed

lemma json_text_plain: "list_all plain k \<Longrightarrow> json_text k = [QUOTE] @ k @ [QUOTE]"
  by (induction k) (simp_all add: json_text_def json_char_text_plain)

lemma key_text_json: "list_all plain k \<Longrightarrow> key_text k = json_text k @ '':''"
  by (simp add: key_text_def json_text_plain)

lemma not_plain_NUL: "\<not> plain NUL"
  by (simp add: plain_def)

lemma cstr_plain: "list_all plain k \<Longrightarrow> cstr k = k"
  using not_plain_NUL by (intro cstr_id) (auto simp only: list_all_iff)

lemma plain_handed: "list_all plain (gsp_handed_text h)"
  by (simp add: gsp_handed_text_def plain_def)

lemma plain_club: "list_all plain (gsp_club_code c)"
proof (cases "0 < c \<and> c < GSP_CLUB_COUNT")
  case True
  have "\<forall>c \<in> set [1..27]. list_all plain (gsp_club_code c)"
    by code_simp
  with True club_range [of c] show ?thesis by blast
next
  case False
  then show ?thesis by (auto simp: gsp_club_code_def)
qed

lemma emit_player_text [writer_simps]:
  "emit_player ow p = ow_str ow (object_text False d (player_members p))"
proof -
  have k: "key_text ''Handed'' = json_text ''Handed'' @ '':''" "key_text ''Club'' = json_text ''Club'' @ '':''"
    "key_text ''DistanceToTarget'' = json_text ''DistanceToTarget'' @ '':''"
    "key_text ''Surface'' = json_text ''Surface'' @ '':''"
    by (simp_all add: key_text_json plain_def)
  show ?thesis
    by (simp add: emit_player_def Let_def comma_def object_text_def player_members_def member_text_def member_head_def
        more_text_def break_text_def k cstr_plain plain_handed plain_club writer_simps)
qed

lemma emit_response_text [writer_simps]:
  "emit_response ow code message player = ow_str ow (response_text code message player)"
proof -
  have k: "key_text ''Code'' = json_text ''Code'' @ '':''" "key_text ''Message'' = json_text ''Message'' @ '':''"
    "key_text ''Player'' = json_text ''Player'' @ '':''"
    by (simp_all add: key_text_json plain_def)
  show ?thesis
    by (simp add: emit_response_def response_text_def Let_def object_text_def member_text_def member_head_def
        more_text_def break_text_def k emit_player_text [where d = 1] writer_simps split: option.split)
qed

lemma ow_member_text [writer_simps]:
  "list_all plain name \<Longrightarrow> ow_member ow indent depth first name =
     ow_str ow ((if first then [] else '','') @ member_head indent depth name)"
  by (simp add: ow_member_def Let_def comma_def member_head_def cstr_plain writer_simps)

lemma numeric_members_text:
  assumes "\<forall>k \<in> set tab. list_all plain (nk_name k)"
  shows "numeric_members ow indent depth first tab s present =
    (ow_str ow ((if first then members_text else more_text) indent depth (section_members tab s present)),
     first \<and> section_members tab s present = [])"
  using assms
proof (induction ow indent depth first tab s present rule: numeric_members.induct)
  case (2 ow indent depth first k tab s present)
  show ?case
  proof (cases "present AND nk_bit k = 0")
    case True
    with 2 show ?thesis by (simp add: section_members_def)
  next
    case False
    then have sm: "section_members (k # tab) s present =
        (nk_name k, double_text (nk_get k s)) # section_members tab s present"
      by (simp add: section_members_def)
    with 2 False show ?thesis
      by (cases first) (simp_all add: sm more_text_def member_text_def writer_simps)
  qed
qed (simp add: section_members_def more_text_def)

lemma emit_numeric_section_text [writer_simps]:
  assumes "\<forall>k \<in> set tab. list_all plain (nk_name k)"
  shows "emit_numeric_section ow indent depth tab s present =
    ow_str ow (object_text indent depth (section_members tab s present))"
  using assms
  by (simp add: emit_numeric_section_def numeric_members_text object_text_def writer_simps)

lemma emit_options_text [writer_simps]:
  "emit_options ow indent depth opt = ow_str ow (object_text indent depth (options_members opt))"
proof -
  have p: "list_all plain ''ContainsBallData''" "list_all plain ''ContainsClubData''"
    "list_all plain ''LaunchMonitorIsReady''" "list_all plain ''LaunchMonitorBallDetected''"
    "list_all plain ''IsHeartBeat''" by (simp_all add: plain_def)
  show ?thesis
    by (simp add: emit_options_def Let_def options_members_def object_text_def more_text_def member_text_def
        ow_member_text [OF p(1)] ow_member_text [OF p(2)] ow_member_text [OF p(3)]
        ow_member_text [OF p(4)] ow_member_text [OF p(5)] ow_str_append ow_break_text)
qed

lemma table_names_plain:
  "\<forall>k \<in> set BALL_KEYS. list_all plain (nk_name k)" "\<forall>k \<in> set CLUB_KEYS. list_all plain (nk_name k)"
  by code_simp+

lemma emit_message_text [writer_simps]:
  "emit_message ow m indent = ow_str ow (message_text m indent)"
proof -
  have p: "list_all plain ''DeviceID''" "list_all plain ''Units''" "list_all plain ''ShotNumber''"
    "list_all plain ''APIversion''" "list_all plain ''BallData''" "list_all plain ''ClubData''"
    "list_all plain ''ShotDataOptions''" by (simp_all add: plain_def)
  note heads = ow_member_text [OF p(1)] ow_member_text [OF p(2)] ow_member_text [OF p(3)]
    ow_member_text [OF p(4)] ow_member_text [OF p(5)] ow_member_text [OF p(6)] ow_member_text [OF p(7)]
  note sections = emit_numeric_section_text [OF table_names_plain(1)]
    emit_numeric_section_text [OF table_names_plain(2)] emit_options_text
  show ?thesis
    unfolding emit_message_def message_text_def message_members_def Let_def heads sections
      ow_json_string_text ow_int64_text ow_break_text
    by (simp add: object_text_def [of indent 0] more_text_def member_text_def ow_str_append)
qed

section \<open>The buffer\<close>

text \<open>Measuring: only the count moves.\<close>

lemma ow_str_count: "o_used (ow_str ow s) = o_used ow + length s"
  by (induction s arbitrary: ow) (simp_all add: ow_char_def Let_def split: option.split)

text \<open>Writing with room: the text lands at the cursor, nothing else of the array changes.\<close>

lemma ow_str_fits:
  assumes "o_buf ow = Some b" "o_used ow + length s \<le> o_size ow" "o_size ow \<le> length b"
  shows "o_buf (ow_str ow s) = Some (take (o_used ow) b @ s @ drop (o_used ow + length s) b)"
  using assms
proof (induction s arbitrary: ow b)
  case (Cons c s)
  let ?b = "b[o_used ow := c]"
  have "o_buf (ow_char ow c) = Some ?b" "o_used (ow_char ow c) = o_used ow + 1" "o_size (ow_char ow c) = o_size ow"
    using Cons.prems by (simp_all add: ow_char_def)
  with Cons.IH [of "ow_char ow c" ?b] Cons.prems
  show ?case
    by (simp add: take_update_swap upd_conv_take_nth_drop take_Suc_conv_app_nth add.commute)
qed simp

text \<open>What a call of an encoder does, for the text it emits.\<close>

definition encodes :: "bytes \<Rightarrow> bytes \<Rightarrow> gsp_status \<times> bytes \<times> nat option" where
  "encodes t out =
     (if length out < length t + 1 then (GSP_ERR_BUFFER_TOO_SMALL, out, None)
      else (GSP_OK, t @ [NUL] @ drop (length t + 1) out, Some (length t)))"

lemma two_pass:
  assumes "\<And>ow. emit ow = ow_str ow t" "out \<noteq> []"
  shows "(let probe = emit \<lparr>o_buf = None, o_size = 0, o_used = 0\<rparr> in
      if length out < o_used probe + 1 then (GSP_ERR_BUFFER_TOO_SMALL, out, None)
      else (let real = emit \<lparr>o_buf = Some out, o_size = length out - 1, o_used = 0\<rparr>
            in (GSP_OK, (the (o_buf real))[o_used real := NUL], Some (o_used real)))) = encodes t out"
proof (cases "length out < length t + 1")
  case True
  then show ?thesis by (simp add: assms ow_str_count encodes_def)
next
  case False
  then have "drop (length t) out = out ! length t # drop (length t + 1) out"
    by (simp add: Cons_nth_drop_Suc)
  with False show ?thesis
    using ow_str_fits [of "\<lparr>o_buf = Some out, o_size = length out - 1, o_used = 0\<rparr>" out t]
    by (simp add: assms ow_str_count encodes_def list_update_append)
qed

lemma gsp_response_encode_value:
  assumes "out \<noteq> []" "code \<in> {200, 201, 202, 203, 501}"
  shows "gsp_response_encode code message player out = encodes (response_text code message player) out"
  using assms two_pass [where t = "response_text code message player" and out = out
      and emit = "\<lambda>ow. emit_response ow code message player"]
  by (auto simp: gsp_response_encode_def code_is_ours_def emit_response_text)

text \<open>
  C34. What \<^verbatim>\<open>gsp_response_encode\<close> does, on every call: only the five codes of the
  protocol are accepted; a reply that does not fit with its NUL is refused and the caller's
  buffer is untouched; otherwise the buffer holds exactly the reference text and a NUL, every
  byte after them is as it was, and the length returned is the text's.
\<close>

theorem gsp_response_encode_exact:
  "gsp_response_encode code message player out =
     (if out \<noteq> [] \<and> code \<in> {200, 201, 202, 203, 501}
      then encodes (response_text code message player) out
      else (GSP_ERR_INVALID_ARG, out, None))"
  using gsp_response_encode_value [of out code message player]
  by (auto simp: gsp_response_encode_def code_is_ours_def)

text \<open>
  C35. The same for \<^verbatim>\<open>gsp_message_encode\<close>, in its compact and its indented form.
\<close>

theorem gsp_message_encode_exact:
  "gsp_message_encode m indent out =
     (if out = [] then (GSP_ERR_INVALID_ARG, out, None) else encodes (message_text m indent) out)"
  using two_pass [of "\<lambda>ow. emit_message ow m indent" "message_text m indent" out]
  by (auto simp: gsp_message_encode_def emit_message_text)

section \<open>An encoder's output is one framed object\<close>

lemma is_digit_char_of: "is_digit (char_of (48 + n mod 10))" for n :: int
proof -
  have "0 \<le> n mod 10" "n mod 10 < 10" by simp_all
  then show ?thesis by (simp add: is_digit_def)
qed

lemma dec_digits_digits: "list_all is_digit (dec_digits n)"
proof (induction n rule: dec_digits.induct)
  case (1 n)
  then show ?case
    by (subst dec_digits.simps) (simp add: is_digit_char_of)
qed

lemma dec_digits_nonempty: "dec_digits n \<noteq> []"
  by (subst dec_digits.simps) simp

lemma digit_number: "list_all is_digit s \<Longrightarrow> list_all is_number_char s"
  by (auto simp: list_all_iff is_number_char_def)

lemma strip_zeros_digits: "list_all is_digit s \<Longrightarrow> list_all is_digit (strip_zeros s)"
  by (auto simp: strip_zeros_def list_all_iff dest: set_dropWhileD)

lemma with_fraction_number:
  "list_all is_digit ip \<Longrightarrow> list_all is_digit fp \<Longrightarrow> list_all is_number_char (with_fraction ip fp)"
  using strip_zeros_digits [of fp]
  by (auto simp: with_fraction_def Let_def digit_number) (auto simp: is_number_char_def)

lemma digits_take: "list_all is_digit s \<Longrightarrow> list_all is_digit (take n s) \<and> list_all is_digit (drop n s)"
  by (auto simp: list_all_iff dest: in_set_takeD in_set_dropD)

lemma fmt_g_number:
  assumes "isfinite v"
  shows "list_all is_number_char (fmt_g p v)"
proof -
  have e: "list_all is_number_char (exp_text x)" for x
    using dec_digits_digits [of "\<bar>x\<bar>"]
    by (auto simp: exp_text_def Let_def digit_number) (auto simp: is_number_char_def is_digit_def)
  have z: "list_all is_digit (replicate k CHR ''0'' @ dec_digits q)" for k q
    using dec_digits_digits [of q] by (auto simp: list_all_iff is_digit_def)
  have 0: "list_all is_digit ''0''" by (simp add: is_digit_def)
  have "list_all is_number_char (fmt_g_pos p n d)" for n d
    using digits_take [OF dec_digits_digits] z e 0
    by (auto simp: fmt_g_pos_def Let_def split: prod.split intro!: with_fraction_number)
  with assms show ?thesis
    by (cases v) (auto split: prod.split simp: is_number_char_def is_digit_def)
qed

lemma double_text_number: "list_all is_number_char (double_text v)"
  by (auto simp: double_text_def fmt_g_number) (auto simp: is_number_char_def is_digit_def)

lemma fmt_int_number: "list_all is_number_char (fmt_int v)"
  by (auto simp: fmt_int_def digit_number dec_digits_digits) (auto simp: is_number_char_def)

definition neutral :: "byte \<Rightarrow> bool" where
  "neutral c \<longleftrightarrow> c \<noteq> QUOTE \<and> c \<noteq> LBRACE \<and> c \<noteq> RBRACE"

lemma number_neutral: "list_all is_number_char t \<Longrightarrow> list_all neutral t"
  by (auto simp: list_all_iff neutral_def is_number_char_def is_digit_def)

lemma neutral_balanced: "list_all neutral t \<Longrightarrow> balanced t"
  by (induction t) (auto simp: neutral_def intro: balanced.intros)

lemma hex_digit_plain: "0 \<le> n \<Longrightarrow> n < 16 \<Longrightarrow> hex_digits ! nat n \<noteq> QUOTE \<and> hex_digits ! nat n \<noteq> BACKSLASH"
proof -
  assume "0 \<le> n" "n < 16"
  moreover have "length hex_digits = 16" by (simp add: hex_digits_def)
  ultimately have "hex_digits ! nat n \<in> set hex_digits" by (intro nth_mem) simp
  moreover have "\<forall>c \<in> set hex_digits. c \<noteq> QUOTE \<and> c \<noteq> BACKSLASH" by (simp add: hex_digits_def)
  ultimately show ?thesis by blast
qed

lemma ord_range: "0 \<le> ord c \<and> ord c < 256"
  by (metis of_char_mod_256 pos_mod_bound pos_mod_sign zero_less_numeral)

lemma json_char_body: "str_body (json_char_text c)"
proof -
  have "0 \<le> ord c div 16" "ord c div 16 < 16" "0 \<le> ord c mod 16" "ord c mod 16 < 16"
    if "ord c < 0x20" using that ord_range [of c] by (auto simp: pos_imp_zdiv_nonneg_iff)
  then show ?thesis
    by (auto simp: json_char_text_def hex_digit_plain intro!: str_body.intros)
qed

lemma json_text_balanced: "balanced (json_text s)"
proof -
  have "str_body (concat (map json_char_text s))"
    by (induction s) (auto intro: str_body.intros str_body_append json_char_body)
  from balanced_str [OF this balanced_nil] show ?thesis by (simp add: json_text_def)
qed

lemma member_text_balanced: "balanced v \<Longrightarrow> balanced (member_text indent depth (k, v))"
proof -
  assume v: "balanced v"
  have "balanced (break_text indent depth)"
    by (auto simp: break_text_def neutral_def list_all_iff intro!: neutral_balanced)
  moreover have "balanced '':''" "balanced (if indent then [SPACE] else [])"
    by (auto intro!: neutral_balanced simp: neutral_def)
  ultimately show ?thesis
    using v json_text_balanced [of k] unfolding member_text_def member_head_def prod.case
    by (simp only: append_assoc balanced_append)
qed

lemma more_text_balanced: "\<forall>(k, v) \<in> set ms. balanced v \<Longrightarrow> balanced (more_text indent depth ms)"
  by (induction ms)
    (auto simp: more_text_def intro!: balanced_append balanced.intros member_text_balanced)

lemma object_text_framed:
  assumes "\<forall>(k, v) \<in> set ms. balanced v"
  shows "framed_object (object_text indent depth ms)"
proof -
  have "balanced (members_text indent (depth + 1) ms)"
    using assms by (cases ms) (auto intro: balanced.intros balanced_append member_text_balanced more_text_balanced)
  moreover have "balanced (if ms = [] then [] else break_text indent depth)"
    by (auto simp: break_text_def neutral_def list_all_iff intro!: neutral_balanced)
  ultimately show ?thesis
    by (auto simp: framed_object_def object_text_def dest: balanced_append)
qed

lemma framed_balanced: "framed_object t \<Longrightarrow> balanced t"
  by (auto simp: framed_object_def intro: balanced_obj balanced_nil)

lemma value_texts_balanced:
  "balanced (json_text s)" "balanced (double_text d)" "balanced (fmt_int n)" "balanced (bool_text b)"
  by (simp_all add: json_text_balanced neutral_balanced number_neutral double_text_number fmt_int_number
      bool_text_def neutral_def)

lemma response_text_framed: "framed_object (response_text code message player)"
proof -
  have "balanced (object_text False 1 (player_members p))" for p
    by (rule framed_balanced, rule object_text_framed)
      (auto simp: player_members_def value_texts_balanced)
  then show ?thesis
    unfolding response_text_def
    by (intro object_text_framed) (auto simp: value_texts_balanced split: option.splits)
qed

lemma section_text_balanced:
  "balanced (object_text indent depth (section_members tab s p))"
  "balanced (object_text indent depth (options_members opt))"
  by (rule framed_balanced, rule object_text_framed,
      auto simp: section_members_def options_members_def value_texts_balanced)+

lemma message_text_framed: "framed_object (message_text m indent)"
  unfolding message_text_def
  by (rule object_text_framed)
    (auto simp: message_members_def Let_def value_texts_balanced section_text_balanced)



end
