(* ===== verification/Event.thy ===== *)
theory Event
  imports Message
begin

text \<open>
  Events (\<^verbatim>\<open>include/gspro/event.h\<close>) and their one-line form: the bounded line
  writer and the formatters of \<^verbatim>\<open>src/gs_misc.c\<close>. The union of the C struct is a
  datatype with one constructor per member; \<open>EV_EMPTY\<close> is the zeroed union.

  A run of \<^verbatim>\<open>ln_str\<close>, \<^verbatim>\<open>ln_char\<close> and \<^verbatim>\<open>ln_u32\<close> calls on one line is the
  \<^verbatim>\<open>ln_str\<close> of the concatenated text (\<open>ln_str_append\<close>), so a formatter is given by the
  text it writes, and the writer by what it does with it.
\<close>

section \<open>The structs\<close>

datatype gsp_event_type =
    GSP_EV_NONE | GSP_EV_CONNECTION_OPENED | GSP_EV_CONNECTION_CLOSED | GSP_EV_CLIENT_IDENTIFIED
  | GSP_EV_SHOT | GSP_EV_HEARTBEAT | GSP_EV_STATUS | GSP_EV_CLIENT_STATE | GSP_EV_PLAYER_INFO_SENT
  | GSP_EV_SESSION_STATE_SENT | GSP_EV_PROTOCOL_ERROR | GSP_EV_CLOSE_REQUESTED | GSP_EV_CLIENT_IDLE
  | GSP_EV_CLIENT_ACTIVE | GSP_EV_WARNING

type_synonym gsp_close_cause = u8

abbreviation (input) GSP_CLOSE_UNKNOWN :: gsp_close_cause where "GSP_CLOSE_UNKNOWN \<equiv> 0"
abbreviation (input) GSP_CLOSE_SERVER_CLOSED :: gsp_close_cause where "GSP_CLOSE_SERVER_CLOSED \<equiv> 4"

abbreviation (input) GSP_PEER_MAX :: nat where "GSP_PEER_MAX \<equiv> 64"
abbreviation (input) GSP_ERROR_SNIPPET_MAX :: nat where "GSP_ERROR_SNIPPET_MAX \<equiv> 32"
abbreviation (input) GSP_WARNING_TEXT_MAX :: nat where "GSP_WARNING_TEXT_MAX \<equiv> 64"

record gsp_connection_info =
  ci_conn :: gsp_conn_id
  ci_identified :: bool
  ci_ready :: bool
  ci_ball_detected :: bool
  ci_opened_us :: gsp_time_us
  ci_last_message_us :: gsp_time_us
  ci_messages :: u32
  ci_shots :: u32
  ci_protocol_errors :: u32
  ci_consecutive_errors :: u32
  ci_last_shot_number :: int
  ci_peer :: bytes
  ci_device_id :: bytes

datatype gsp_player_info_reason = GSP_PI_CHANGED | GSP_PI_ON_CONNECT | GSP_PI_EXPLICIT

datatype gsp_protocol_error_reason = GSP_PE_LEADING_GARBAGE | GSP_PE_BAD_JSON | GSP_PE_TOO_LARGE

datatype gsp_warning_code =
    GSP_WARN_NONE | GSP_WARN_DEVICE_ID_CHANGED | GSP_WARN_STRING_TRUNCATED
  | GSP_WARN_EVENTS_DROPPED | GSP_WARN_WIRE_DROPPED | GSP_WARN_WRITE_RING_FULL

type_synonym gsp_session_state = int

abbreviation (input) GSP_SESSION_NONE :: gsp_session_state where "GSP_SESSION_NONE \<equiv> 0"
abbreviation (input) GSP_SESSION_ACTIVE :: gsp_session_state where "GSP_SESSION_ACTIVE \<equiv> 1"
abbreviation (input) GSP_SESSION_ENDED :: gsp_session_state where "GSP_SESSION_ENDED \<equiv> 2"

record gsp_protocol_error_event =
  pe_reason :: gsp_protocol_error_reason
  pe_discarded_bytes :: u32
  pe_consecutive :: u32
  pe_snippet :: bytes

record gsp_client_state_event =
  cs_ready :: bool
  cs_ball_detected :: bool
  cs_previous_ready :: bool
  cs_previous_ball_detected :: bool

datatype event_union =
    EV_EMPTY
  | EV_CONNECTION gsp_connection_info gsp_close_cause
  | EV_MESSAGE gsp_message
  | EV_CLIENT_STATE gsp_client_state_event
  | EV_PLAYER_INFO gsp_player_info gsp_player_info_reason
  | EV_SESSION_STATE gsp_session_state gsp_player_info_reason
  | EV_PROTOCOL_ERROR gsp_protocol_error_event
  | EV_WARNING gsp_warning_code u32 bytes

record gsp_event =
  ev_type :: gsp_event_type
  ev_sequence :: u32
  ev_host_time_us :: gsp_time_us
  ev_conn :: gsp_conn_id
  ev_u :: event_union

section \<open>Names\<close>

fun gsp_event_type_name :: "gsp_event_type \<Rightarrow> bytes" where
  "gsp_event_type_name GSP_EV_NONE = ''NONE''"
| "gsp_event_type_name GSP_EV_CONNECTION_OPENED = ''CONNECTION_OPENED''"
| "gsp_event_type_name GSP_EV_CONNECTION_CLOSED = ''CONNECTION_CLOSED''"
| "gsp_event_type_name GSP_EV_CLIENT_IDENTIFIED = ''CLIENT_IDENTIFIED''"
| "gsp_event_type_name GSP_EV_SHOT = ''SHOT''"
| "gsp_event_type_name GSP_EV_HEARTBEAT = ''HEARTBEAT''"
| "gsp_event_type_name GSP_EV_STATUS = ''STATUS''"
| "gsp_event_type_name GSP_EV_CLIENT_STATE = ''CLIENT_STATE''"
| "gsp_event_type_name GSP_EV_PLAYER_INFO_SENT = ''PLAYER_INFO_SENT''"
| "gsp_event_type_name GSP_EV_SESSION_STATE_SENT = ''SESSION_STATE_SENT''"
| "gsp_event_type_name GSP_EV_PROTOCOL_ERROR = ''PROTOCOL_ERROR''"
| "gsp_event_type_name GSP_EV_CLOSE_REQUESTED = ''CLOSE_REQUESTED''"
| "gsp_event_type_name GSP_EV_CLIENT_IDLE = ''CLIENT_IDLE''"
| "gsp_event_type_name GSP_EV_CLIENT_ACTIVE = ''CLIENT_ACTIVE''"
| "gsp_event_type_name GSP_EV_WARNING = ''WARNING''"

definition close_cause_name :: "gsp_close_cause \<Rightarrow> bytes" where
  "close_cause_name cause =
     (if 5 \<le> cause then ''UNKNOWN''
      else [''UNKNOWN'', ''REMOTE_CLOSED'', ''LOCAL_REQUEST'', ''TRANSPORT_ERROR'', ''SERVER_CLOSED'']
        ! unat cause)"

fun warning_name :: "gsp_warning_code \<Rightarrow> bytes" where
  "warning_name GSP_WARN_NONE = ''NONE''"
| "warning_name GSP_WARN_DEVICE_ID_CHANGED = ''DEVICE_ID_CHANGED''"
| "warning_name GSP_WARN_STRING_TRUNCATED = ''STRING_TRUNCATED''"
| "warning_name GSP_WARN_EVENTS_DROPPED = ''EVENTS_DROPPED''"
| "warning_name GSP_WARN_WIRE_DROPPED = ''WIRE_DROPPED''"
| "warning_name GSP_WARN_WRITE_RING_FULL = ''WRITE_RING_FULL''"

fun protocol_error_name :: "gsp_protocol_error_reason \<Rightarrow> bytes" where
  "protocol_error_name GSP_PE_LEADING_GARBAGE = ''LEADING_GARBAGE''"
| "protocol_error_name GSP_PE_BAD_JSON = ''BAD_JSON''"
| "protocol_error_name GSP_PE_TOO_LARGE = ''TOO_LARGE''"

definition session_state_name :: "gsp_session_state \<Rightarrow> bytes" where
  "session_state_name state =
     (if state = GSP_SESSION_NONE then ''NONE''
      else if state = GSP_SESSION_ACTIVE then ''ACTIVE''
      else if state = GSP_SESSION_ENDED then ''ENDED'' else ''UNKNOWN'')"

fun player_reason_name :: "gsp_player_info_reason \<Rightarrow> bytes" where
  "player_reason_name GSP_PI_CHANGED = ''CHANGED''"
| "player_reason_name GSP_PI_ON_CONNECT = ''ON_CONNECT''"
| "player_reason_name GSP_PI_EXPLICIT = ''EXPLICIT''"

section \<open>The bounded line writer\<close>

record gs_line =
  l_buf :: "bytes option"
  l_size :: nat
  l_used :: nat

definition ln_char :: "gs_line \<Rightarrow> byte \<Rightarrow> gs_line" where
  "ln_char l c =
     (let l = (case l_buf l of
                 Some b \<Rightarrow> if l_used l + 1 < l_size l then l\<lparr>l_buf := Some (b[l_used l := c])\<rparr> else l
               | None \<Rightarrow> l)
      in l\<lparr>l_used := l_used l + 1\<rparr>)"

fun ln_str :: "gs_line \<Rightarrow> bytes \<Rightarrow> gs_line" where
  "ln_str l [] = l"
| "ln_str l (c # s) = ln_str (ln_char l c) s"

text \<open>The texts of \<^verbatim>\<open>ln_str_n\<close>, \<^verbatim>\<open>ln_u32\<close>, \<^verbatim>\<open>ln_i64\<close> and \<^verbatim>\<open>ln_double\<close>.\<close>

definition str_n :: "bytes \<Rightarrow> nat \<Rightarrow> bytes" where
  "str_n s n = cstr (take n s)"

definition u32_text :: "u32 \<Rightarrow> bytes" where
  "u32_text v = fmt_int (uint v)"

definition line_double_text :: "double \<Rightarrow> bytes" where
  "line_double_text v = (if \<not> isfinite v then ''nan'' else fmt_g 10 v)"

definition ln_finish :: "gs_line \<Rightarrow> gs_line \<times> nat" where
  "ln_finish l =
     ((case l_buf l of
         Some b \<Rightarrow> if 0 < l_size l
                   then l\<lparr>l_buf := Some (b[(if l_used l < l_size l then l_used l else l_size l - 1) := NUL])\<rparr>
                   else l
       | None \<Rightarrow> l), l_used l)"

section \<open>Messages and events as lines\<close>

abbreviation (input) GS_REDACTED :: bytes where "GS_REDACTED \<equiv> ''<redacted>''"

fun kind_name :: "gsp_message_kind \<Rightarrow> bytes" where
  "kind_name GSP_MSG_SHOT = ''shot''"
| "kind_name GSP_MSG_HEARTBEAT = ''heartbeat''"
| "kind_name GSP_MSG_STATUS = ''status''"
| "kind_name GSP_MSG_NONE = ''message''"

definition BALL_NAMES :: "bytes list" where
  "BALL_NAMES = [''speed'', ''spin_axis'', ''total_spin'', ''back_spin'', ''side_spin'', ''hla'', ''vla'', ''carry'']"

definition CLUB_NAMES :: "bytes list" where
  "CLUB_NAMES = [''speed'', ''aoa'', ''face_to_target'', ''lie'', ''loft'', ''path'', ''speed_at_impact'',
     ''vfi'', ''hfi'', ''closure_rate'']"

text \<open>The loop of \<^verbatim>\<open>ln_present\<close> from bit \<open>i\<close> on.\<close>

fun present_loop :: "bytes list \<Rightarrow> nat \<Rightarrow> bool \<Rightarrow> u32 \<Rightarrow> u32 \<Rightarrow> bytes" where
  "present_loop [] i first present derived = []"
| "present_loop (nm # names) i first present derived =
     (if present AND push_bit i 1 = 0 then present_loop names (i + 1) first present derived
      else (if first then [] else '' '') @ nm @ (if derived AND push_bit i 1 \<noteq> 0 then ''*'' else []) @
           present_loop names (i + 1) False present derived)"

definition present_text :: "bytes \<Rightarrow> u32 \<Rightarrow> u32 \<Rightarrow> bytes list \<Rightarrow> bytes" where
  "present_text label present derived names =
     (if present = 0 then []
      else '' '' @ label @ ''['' @ present_loop names 0 True present derived @ '']'')"

text \<open>
  The loop of \<^verbatim>\<open>ln_flags\<close> over the bits still to go; \<^verbatim>\<open>gsp_message_flag_name\<close> returns
  for every value.
\<close>

fun flags_loop :: "nat list \<Rightarrow> bool \<Rightarrow> u32 \<Rightarrow> bytes" where
  "flags_loop [] first flags = []"
| "flags_loop (i # is) first flags =
     (if flags AND push_bit i 1 = 0 then flags_loop is first flags
      else
        (let name = (case gsp_message_flag_name (push_bit i 1) of Some n \<Rightarrow> n | None \<Rightarrow> []) in
         (if first then [] else '' '') @
         (if name \<noteq> [] then name else ''BIT'' @ u32_text (of_nat i)) @ flags_loop is False flags))"

definition flags_text :: "u32 \<Rightarrow> bytes" where
  "flags_text flags =
     (if flags = 0 then [] else '' flags['' @ flags_loop [0..<32] True flags @ '']'')"

definition ln_message_text :: "gsp_message \<Rightarrow> bool \<Rightarrow> bytes" where
  "ln_message_text m include_identifiers =
     kind_name (m_kind m) @
     (if include_identifiers then
        '' #'' @ fmt_int (m_shot_number m) @ '' from '' @ [QUOTE] @
        str_n (m_device_id m) GSP_DEVICE_ID_MAX @ [QUOTE]
      else '' from '' @ GS_REDACTED) @
     present_text ''ball'' (b_present (m_ball m)) (b_derived (m_ball m)) BALL_NAMES @
     present_text ''club'' (c_present (m_club m)) 0 CLUB_NAMES @
     flags_text (m_flags m)"

text \<open>
  A formatter call: the caller's array (\<^const>\<open>None\<close> for NULL) before and after, and the
  length a complete line takes.
\<close>

definition format_line :: "bytes \<Rightarrow> bytes option \<Rightarrow> nat \<Rightarrow> bytes option \<times> nat" where
  "format_line t out out_size =
     apfst l_buf (ln_finish (ln_str \<lparr>l_buf = out, l_size = out_size, l_used = 0\<rparr> t))"

definition gsp_message_format ::
  "gsp_message option \<Rightarrow> bytes option \<Rightarrow> nat \<Rightarrow> bool \<Rightarrow> bytes option \<times> nat" where
  "gsp_message_format m out out_size include_identifiers =
     (case m of
        None \<Rightarrow> format_line ''(null message)'' out out_size
      | Some m \<Rightarrow> format_line (ln_message_text m include_identifiers) out out_size)"

definition gsp_event_is_sensitive :: "gsp_event \<Rightarrow> bool" where
  "gsp_event_is_sensitive ev =
     (if ev_type ev = GSP_EV_CONNECTION_OPENED \<or> ev_type ev = GSP_EV_CONNECTION_CLOSED \<or>
         ev_type ev = GSP_EV_CLIENT_IDENTIFIED \<or> ev_type ev = GSP_EV_SHOT \<or>
         ev_type ev = GSP_EV_HEARTBEAT \<or> ev_type ev = GSP_EV_STATUS then True
      else if ev_type ev = GSP_EV_WARNING then
        (case ev_u ev of EV_WARNING code _ _ \<Rightarrow> code = GSP_WARN_DEVICE_ID_CHANGED | _ \<Rightarrow> False)
      else False)"

definition identifier_text :: "bytes \<Rightarrow> bytes \<Rightarrow> nat \<Rightarrow> bool \<Rightarrow> bytes" where
  "identifier_text label v n include_identifiers =
     '' '' @ label @ ''='' @
     (if \<not> include_identifiers then GS_REDACTED
      else if v = [] then [QUOTE, QUOTE]
      else [QUOTE] @ str_n v n @ [QUOTE])"

definition snippet_char :: "byte \<Rightarrow> byte" where
  "snippet_char c =
     (if 0x20 \<le> ord c \<and> ord c < 0x7f \<and> c \<noteq> QUOTE \<and> c \<noteq> BACKSLASH then c else CHR ''.'')"

definition bit_text :: "bool \<Rightarrow> bytes" where
  "bit_text b = u32_text (if b then 1 else 0)"

text \<open>The part of \<^verbatim>\<open>gsp_event_format\<close> that depends on the type, read off the union.\<close>

fun event_union_text :: "gsp_event \<Rightarrow> event_union \<Rightarrow> bool \<Rightarrow> bytes" where
  "event_union_text ev (EV_CONNECTION info cause) include_identifiers =
     identifier_text ''peer'' (ci_peer info) GSP_PEER_MAX include_identifiers @
     identifier_text ''device'' (ci_device_id info) GSP_DEVICE_ID_MAX include_identifiers @
     (if ev_type ev = GSP_EV_CONNECTION_CLOSED then
        '' cause='' @ close_cause_name cause @ '' messages='' @ u32_text (ci_messages info) @
        '' shots='' @ u32_text (ci_shots info) @ '' errors='' @ u32_text (ci_protocol_errors info)
      else [])"
| "event_union_text ev (EV_MESSAGE m) include_identifiers =
     '' '' @ ln_message_text m include_identifiers"
| "event_union_text ev (EV_CLIENT_STATE s) include_identifiers =
     '' ready='' @ bit_text (cs_ready s) @ '' ball_detected='' @ bit_text (cs_ball_detected s) @
     '' was='' @ bit_text (cs_previous_ready s) @ ''/'' @ bit_text (cs_previous_ball_detected s)"
| "event_union_text ev (EV_PLAYER_INFO p reason) include_identifiers =
     '' handed='' @ gsp_handed_text (p_handed p) @ '' club='' @ gsp_club_code (p_club p) @
     (if p_has_distance p then '' distance='' @ line_double_text (p_distance_to_target p) else []) @
     '' reason='' @ player_reason_name reason"
| "event_union_text ev (EV_SESSION_STATE state reason) include_identifiers =
     '' state='' @ session_state_name state @ '' reason='' @ player_reason_name reason"
| "event_union_text ev (EV_PROTOCOL_ERROR p) include_identifiers =
     '' reason='' @ protocol_error_name (pe_reason p) @ '' discarded='' @ u32_text (pe_discarded_bytes p) @
     '' consecutive='' @ u32_text (pe_consecutive p) @
     (if include_identifiers \<and> 0 < length (pe_snippet p) then
        '' snippet='' @ [QUOTE] @ map snippet_char (take GSP_ERROR_SNIPPET_MAX (pe_snippet p)) @ [QUOTE]
      else [])"
| "event_union_text ev (EV_WARNING code v txt) include_identifiers =
     '' code='' @ warning_name code @ '' value='' @ u32_text v @
     (if include_identifiers \<or> \<not> gsp_event_is_sensitive ev
      then '' '' @ [QUOTE] @ str_n txt GSP_WARNING_TEXT_MAX @ [QUOTE]
      else '' '' @ GS_REDACTED)"
| "event_union_text ev EV_EMPTY include_identifiers = []"

definition event_text :: "gsp_event \<Rightarrow> bool \<Rightarrow> bytes" where
  "event_text ev include_identifiers =
     gsp_event_type_name (ev_type ev) @ '' seq='' @ u32_text (ev_sequence ev) @
     (if ev_conn ev \<noteq> GSP_CONN_NONE then '' conn='' @ u32_text (ev_conn ev) else []) @
     '' t='' @ fmt_int (ev_host_time_us ev) @ event_union_text ev (ev_u ev) include_identifiers"

definition gsp_event_format ::
  "gsp_event option \<Rightarrow> bytes option \<Rightarrow> nat \<Rightarrow> bool \<Rightarrow> bytes option \<times> nat" where
  "gsp_event_format ev out out_size include_identifiers =
     (case ev of
        None \<Rightarrow> format_line ''(null event)'' out out_size
      | Some ev \<Rightarrow> format_line (event_text ev include_identifiers) out out_size)"

section \<open>The line writer never overruns\<close>

lemma ln_str_append: "ln_str l (s @ t) = ln_str (ln_str l s) t"
  by (induction s arbitrary: l) simp_all

lemma ln_str_used: "l_used (ln_str l s) = l_used l + length s \<and> l_size (ln_str l s) = l_size l"
  by (induction s arbitrary: l) (simp_all add: ln_char_def Let_def split: option.split)

lemma ln_char_full: "l_size l \<le> l_used l + 1 \<Longrightarrow> l_buf (ln_char l c) = l_buf l"
  by (auto simp: ln_char_def Let_def split: option.split)

lemma ln_str_full: "l_size l \<le> l_used l + 1 \<Longrightarrow> l_buf (ln_str l s) = l_buf l"
proof (induction s arbitrary: l)
  case (Cons c s)
  have "l_size (ln_char l c) \<le> l_used (ln_char l c) + 1"
    using Cons.prems by (simp add: ln_char_def Let_def split: option.split)
  with Cons show ?case by (simp add: ln_char_full)
qed simp

lemma ln_str_buf:
  assumes "l_buf l = Some b" "l_size l \<le> length b" "l_used l + length s + 1 \<le> l_size l"
  shows "l_buf (ln_str l s) = Some (take (l_used l) b @ s @ drop (l_used l + length s) b)"
  using assms
proof (induction s arbitrary: l b)
  case (Cons c s)
  let ?b = "b[l_used l := c]"
  have "l_buf (ln_char l c) = Some ?b" "l_used (ln_char l c) = l_used l + 1" "l_size (ln_char l c) = l_size l"
    using Cons.prems by (simp_all add: ln_char_def)
  with Cons.IH [of "ln_char l c" ?b] Cons.prems show ?case
    by (simp add: upd_conv_take_nth_drop take_Suc_conv_app_nth add.commute)
qed simp

text \<open>Text that does not fit is cut to what does.\<close>

lemma ln_str_cut:
  assumes "l_buf l = Some b" "l_size l \<le> length b" "l_used l < l_size l"
    "l_size l \<le> l_used l + length s + 1"
  shows "l_buf (ln_str l s) =
    Some (take (l_used l) b @ take (l_size l - 1 - l_used l) s @ drop (l_size l - 1) b)"
proof -
  let ?n = "l_size l - 1 - l_used l"
  have "l_size (ln_str l (take ?n s)) \<le> l_used (ln_str l (take ?n s)) + 1"
    using assms by (simp add: ln_str_used)
  then have "l_buf (ln_str l (take ?n s @ drop ?n s)) = l_buf (ln_str l (take ?n s))"
    unfolding ln_str_append by (rule ln_str_full)
  with ln_str_buf [of l b "take ?n s"] assms show ?thesis by simp
qed

text \<open>
  C37. The formatters never overrun the caller's array, whatever they format: the array keeps
  its size, holds the line cut to what fits and a NUL right after it, every byte behind that
  NUL is untouched, and the number returned is the length of the whole line.
\<close>

theorem gsp_event_format_bounded:
  assumes "out \<noteq> []"
  shows "gsp_event_format (Some ev) (Some out) (length out) ids =
    (let t = event_text ev ids; k = min (length t) (length out - 1)
     in (Some (take k t @ [NUL] @ drop (k + 1) out), length t))"
proof -
  let ?l = "\<lparr>l_buf = Some out, l_size = length out, l_used = 0\<rparr>" and ?t = "event_text ev ids"
  have upd: "(xs @ drop (length xs) out)[length xs := NUL] = xs @ [NUL] @ drop (length xs + 1) out"
    if "length xs < length out" for xs
    using that by (simp add: list_update_append flip: Cons_nth_drop_Suc)
  show ?thesis
  proof (cases "length ?t + 1 \<le> length out")
    case True
    with assms ln_str_buf [of ?l out ?t] upd [of ?t] show ?thesis
      by (simp add: gsp_event_format_def format_line_def ln_finish_def ln_str_used Let_def)
  next
    case False
    then have "length (take (length out - 1) ?t) = length out - 1" by simp
    with False assms ln_str_cut [of ?l out ?t] upd [of "take (length out - 1) ?t"] show ?thesis
      by (simp add: gsp_event_format_def format_line_def ln_finish_def ln_str_used Let_def)
  qed
qed

theorem gsp_event_format_bounded_witness:
  "snd (gsp_event_format (Some \<lparr>ev_type = GSP_EV_NONE, ev_sequence = 7, ev_host_time_us = 1, ev_conn = 0,
     ev_u = EV_EMPTY\<rparr>) (Some ''abcd'') (length ''abcd'') False) = 14"
proof -
  have "length (event_text \<lparr>ev_type = GSP_EV_NONE, ev_sequence = 7, ev_host_time_us = 1, ev_conn = 0,
     ev_u = EV_EMPTY\<rparr> False) = 14" by code_simp
  then show ?thesis by (subst gsp_event_format_bounded) (simp_all add: Let_def)
qed

section \<open>Redaction\<close>

text \<open>
  An event with every identifier it carries erased: peer address, DeviceID, the shot number
  that may be a serial, the raw snippet, and the text of a warning about an identifier.
\<close>

fun blank_union :: "gsp_event \<Rightarrow> event_union \<Rightarrow> event_union" where
  "blank_union ev (EV_CONNECTION info cause) =
     EV_CONNECTION (info\<lparr>ci_peer := [], ci_device_id := []\<rparr>) cause"
| "blank_union ev (EV_MESSAGE m) = EV_MESSAGE (m\<lparr>m_device_id := [], m_shot_number := 0\<rparr>)"
| "blank_union ev (EV_PROTOCOL_ERROR p) = EV_PROTOCOL_ERROR (p\<lparr>pe_snippet := []\<rparr>)"
| "blank_union ev (EV_WARNING code v txt) =
     EV_WARNING code v (if gsp_event_is_sensitive ev then [] else txt)"
| "blank_union ev u = u"

definition blank_event :: "gsp_event \<Rightarrow> gsp_event" where
  "blank_event ev = ev\<lparr>ev_u := blank_union ev (ev_u ev)\<rparr>"

lemma blank_event_type [simp]: "ev_type (blank_event ev) = ev_type ev"
  by (simp add: blank_event_def)

lemma blank_event_sensitive [simp]: "gsp_event_is_sensitive (blank_event ev) = gsp_event_is_sensitive ev"
  by (cases "ev_u ev") (simp_all add: gsp_event_is_sensitive_def blank_event_def)

text \<open>
  C38. Redaction leaks nothing: with \<^verbatim>\<open>include_identifiers\<close> false the formatted line of
  an event is that of the same event with its identifiers erased, so no byte of a peer address,
  DeviceID, shot number or snippet can be told from it.
\<close>

theorem gsp_event_format_redacts:
  "gsp_event_format (Some ev) out n False = gsp_event_format (Some (blank_event ev)) out n False"
proof -
  have "event_union_text ev (ev_u ev) False =
      event_union_text (blank_event ev) (blank_union ev (ev_u ev)) False"
    by (cases "ev_u ev")
      (simp_all add: ln_message_text_def identifier_text_def blank_event_def [of ev, symmetric])
  then have "event_text ev False = event_text (blank_event ev) False"
    by (simp add: event_text_def blank_event_def)
  then show ?thesis by (simp add: gsp_event_format_def)
qed

end
