(* ===== verification/RingBuffer.thy ===== *)
theory RingBuffer
  imports Prelude
begin

text \<open>
  The circular buffers of \<^verbatim>\<open>src/gs_server.c\<close> (events, writes, wire chunks): an array
  of slots, the index of the oldest item and the number of items. The array operations the
  server writes out in place are the operations here; each is shown to act on the abstract
  list of items, and the contract they meet is the locale \<open>bounded_queue\<close>.

  Indices are natural numbers: the capacities the server accepts keep \<^verbatim>\<open>head + count\<close>
  far below \<open>2 ^ 32\<close>, so that no index computation wraps.
\<close>

section \<open>The contract\<close>

locale bounded_queue =
  fixes ok :: "'q \<Rightarrow> bool" and items :: "'q \<Rightarrow> 'a list" and cap :: "'q \<Rightarrow> nat"
    and enqueue :: "'q \<Rightarrow> 'a \<Rightarrow> 'q" and dequeue :: "'q \<Rightarrow> 'q"
  assumes bounded: "ok q \<Longrightarrow> length (items q) \<le> cap q"
    and enqueue_items: "ok q \<Longrightarrow> length (items q) < cap q \<Longrightarrow> items (enqueue q x) = items q @ [x]"
    and enqueue_ok: "ok q \<Longrightarrow> length (items q) < cap q \<Longrightarrow> ok (enqueue q x)"
    and enqueue_cap: "cap (enqueue q x) = cap q"
    and dequeue_items: "ok q \<Longrightarrow> items q \<noteq> [] \<Longrightarrow> items (dequeue q) = tl (items q)"
    and dequeue_ok: "ok q \<Longrightarrow> items q \<noteq> [] \<Longrightarrow> ok (dequeue q)"
    and dequeue_cap: "cap (dequeue q) = cap q"
begin

text \<open>Drop-oldest: a full queue loses its first item, and only that.\<close>

lemma push_oldest:
  assumes "ok q" "0 < cap q"
    and q': "q' = (if length (items q) = cap q then enqueue (dequeue q) x else enqueue q x)"
  shows "ok q' \<and> cap q' = cap q \<and>
    items q' = (if length (items q) = cap q then tl (items q) else items q) @ [x]"
proof (cases "length (items q) = cap q")
  case True
  then have ne: "items q \<noteq> []" using assms(2) by auto
  then have "ok (dequeue q)" "items (dequeue q) = tl (items q)" "cap (dequeue q) = cap q"
    using assms(1) by (auto intro: dequeue_ok dequeue_items dequeue_cap)
  moreover from this True ne have "length (items (dequeue q)) < cap (dequeue q)"
    using assms(2) by simp
  ultimately show ?thesis
    using True by (simp add: q' enqueue_ok enqueue_items enqueue_cap)
next
  case False
  with bounded [OF assms(1)] have "length (items q) < cap q" by simp
  with False assms(1) show ?thesis
    unfolding q' by (simp add: enqueue_ok enqueue_items enqueue_cap)
qed

end

section \<open>The array\<close>

record 'a ring =
  rg_slots :: "'a list"
  rg_head :: nat
  rg_count :: nat

definition ring_cap :: "'a ring \<Rightarrow> nat" where
  "ring_cap r = length (rg_slots r)"

definition ring_index :: "'a ring \<Rightarrow> nat \<Rightarrow> nat" where
  "ring_index r i = (rg_head r + i) mod ring_cap r"

definition ring_nth :: "'a ring \<Rightarrow> nat \<Rightarrow> 'a" where
  "ring_nth r i = rg_slots r ! ring_index r i"

definition ring_items :: "'a ring \<Rightarrow> 'a list" where
  "ring_items r = map (ring_nth r) [0..<rg_count r]"

definition ring_ok :: "'a ring \<Rightarrow> bool" where
  "ring_ok r \<longleftrightarrow> rg_head r < ring_cap r \<and> rg_count r \<le> ring_cap r"

text \<open>\<open>slots[(head + i) % cap] = x\<close>\<close>

definition ring_store :: "'a ring \<Rightarrow> nat \<Rightarrow> 'a \<Rightarrow> 'a ring" where
  "ring_store r i x = r\<lparr>rg_slots := (rg_slots r)[ring_index r i := x]\<rparr>"

text \<open>\<open>slots[(head + count) % cap] = x; count++\<close>\<close>

definition ring_put :: "'a ring \<Rightarrow> 'a \<Rightarrow> 'a ring" where
  "ring_put r x = (ring_store r (rg_count r) x)\<lparr>rg_count := rg_count r + 1\<rparr>"

text \<open>\<open>head = (head + 1) % cap; count--\<close>\<close>

definition ring_drop :: "'a ring \<Rightarrow> 'a ring" where
  "ring_drop r = r\<lparr>rg_head := (rg_head r + 1) mod ring_cap r, rg_count := rg_count r - 1\<rparr>"

text \<open>The drain loop of \<^verbatim>\<open>poll_events\<close> and \<^verbatim>\<open>poll_wire\<close>: at most \<open>n\<close> items.\<close>

fun ring_poll :: "'a ring \<Rightarrow> nat \<Rightarrow> 'a list \<times> 'a ring" where
  "ring_poll r 0 = ([], r)"
| "ring_poll r (Suc n) =
     (if rg_count r = 0 then ([], r)
      else case ring_poll (ring_drop r) n of (xs, r') \<Rightarrow> (ring_nth r 0 # xs, r'))"

text \<open>The compaction of \<^verbatim>\<open>drop_writes_for\<close>: items that match are left out, in place.\<close>

fun ring_compact_loop :: "('a \<Rightarrow> bool) \<Rightarrow> 'a ring \<Rightarrow> nat \<Rightarrow> nat \<Rightarrow> nat \<Rightarrow> 'a ring \<times> nat" where
  "ring_compact_loop P r i keep 0 = (r, keep)"
| "ring_compact_loop P r i keep (Suc todo) =
     (let src = ring_nth r i in
      if P src then ring_compact_loop P r (i + 1) keep todo
      else ring_compact_loop P (if keep \<noteq> i then ring_store r keep src else r) (i + 1) (keep + 1) todo)"

definition ring_compact :: "('a \<Rightarrow> bool) \<Rightarrow> 'a ring \<Rightarrow> 'a ring" where
  "ring_compact P r =
     (case ring_compact_loop P r 0 0 (rg_count r) of (r', keep) \<Rightarrow> r'\<lparr>rg_count := keep\<rparr>)"

text \<open>The removal in \<^verbatim>\<open>poll_writes\<close>: the items before entry \<open>k\<close> move up by one.\<close>

fun ring_shift :: "'a ring \<Rightarrow> nat \<Rightarrow> 'a ring" where
  "ring_shift r 0 = r"
| "ring_shift r (Suc k) = ring_shift (ring_store r (Suc k) (ring_nth r k)) k"

definition ring_remove :: "'a ring \<Rightarrow> nat \<Rightarrow> 'a ring" where
  "ring_remove r i = ring_drop (ring_shift r i)"

section \<open>The array implements the queue\<close>

lemma ring_index_less: "ring_ok r \<Longrightarrow> ring_index r i < ring_cap r"
  by (auto simp: ring_ok_def ring_index_def)

lemma ring_index_if:
  "ring_ok r \<Longrightarrow> i \<le> ring_cap r \<Longrightarrow>
   ring_index r i = (if rg_head r + i < ring_cap r then rg_head r + i else rg_head r + i - ring_cap r)"
  by (auto simp: ring_ok_def ring_index_def mod_if)

lemma ring_index_inj:
  assumes "ring_ok r" "i < ring_cap r" "k < ring_cap r" "ring_index r i = ring_index r k"
  shows "i = k"
  using assms by (auto simp: ring_index_if split: if_splits)

lemma ring_store_sel [simp]:
  "rg_head (ring_store r i x) = rg_head r" "rg_count (ring_store r i x) = rg_count r"
  "ring_cap (ring_store r i x) = ring_cap r" "ring_index (ring_store r i x) = ring_index r"
  "ring_ok (ring_store r i x) = ring_ok r"
  "rg_slots (ring_store r i x) = (rg_slots r)[ring_index r i := x]"
  by (auto simp: ring_store_def ring_cap_def ring_index_def ring_ok_def fun_eq_iff)

lemma ring_nth_store:
  "ring_ok r \<Longrightarrow> i < ring_cap r \<Longrightarrow> k < ring_cap r \<Longrightarrow>
   ring_nth (ring_store r i x) k = (if k = i then x else ring_nth r k)"
  using ring_index_inj [of r i k] ring_index_less [of r i]
  by (auto simp: ring_nth_def ring_cap_def nth_list_update)

lemma ring_items_length [simp]: "length (ring_items r) = rg_count r"
  by (simp add: ring_items_def)

lemma ring_items_nth: "i < rg_count r \<Longrightarrow> ring_items r ! i = ring_nth r i"
  by (simp add: ring_items_def)

lemma ring_put_items:
  assumes "ring_ok r" "rg_count r < ring_cap r"
  shows "ring_items (ring_put r x) = ring_items r @ [x]"
proof (rule nth_equalityI)
  fix i assume "i < length (ring_items (ring_put r x))"
  then have i: "i < rg_count r + 1" by (simp add: ring_put_def)
  have "ring_nth (ring_put r x) i = ring_nth (ring_store r (rg_count r) x) i"
    by (simp add: ring_put_def ring_nth_def ring_index_def ring_cap_def)
  with assms i show "ring_items (ring_put r x) ! i = (ring_items r @ [x]) ! i"
    by (simp add: ring_items_nth ring_put_def ring_nth_store nth_append)
qed (simp add: ring_put_def)

lemma ring_drop_nth: "ring_ok r \<Longrightarrow> ring_nth (ring_drop r) i = ring_nth r (i + 1)"
  by (simp add: ring_nth_def ring_drop_def ring_index_def ring_cap_def mod_simps algebra_simps)

lemma ring_drop_sel [simp]:
  "rg_count (ring_drop r) = rg_count r - 1" "ring_cap (ring_drop r) = ring_cap r"
  by (simp_all add: ring_drop_def ring_cap_def)

lemma ring_drop_ok: "ring_ok r \<Longrightarrow> ring_ok (ring_drop r)"
  unfolding ring_ok_def by (auto simp: ring_drop_def ring_cap_def intro: mod_less_divisor)

lemma ring_drop_items:
  assumes "ring_ok r"
  shows "ring_items (ring_drop r) = tl (ring_items r)"
proof (rule nth_equalityI)
  fix i assume "i < length (ring_items (ring_drop r))"
  then have i: "i < rg_count (ring_drop r)" "i + 1 < rg_count r" by simp_all
  then have "tl (ring_items r) ! i = ring_items r ! (i + 1)" by (subst nth_tl) simp_all
  with i assms show "ring_items (ring_drop r) ! i = tl (ring_items r) ! i"
    by (simp only: ring_items_nth ring_drop_nth)
qed simp

interpretation ring_queue: bounded_queue ring_ok ring_items ring_cap ring_put ring_drop
proof unfold_locales
  fix q :: "'a ring" and x
  show "ring_cap (ring_put q x) = ring_cap q" "ring_cap (ring_drop q) = ring_cap q"
    by (simp add: ring_put_def ring_store_def ring_cap_def, simp)
  assume ok: "ring_ok q"
  then show "length (ring_items q) \<le> ring_cap q" by (simp add: ring_ok_def)
  show "ring_ok (ring_drop q)" using ok by (rule ring_drop_ok)
  show "ring_items (ring_drop q) = tl (ring_items q)" using ok by (rule ring_drop_items)
  assume "length (ring_items q) < ring_cap q"
  with ok show "ring_items (ring_put q x) = ring_items q @ [x]" "ring_ok (ring_put q x)"
    by (simp_all add: ring_put_items) (simp add: ring_ok_def ring_put_def ring_store_def ring_cap_def)
qed

lemma ring_poll_items:
  assumes "ring_ok r"
  shows "fst (ring_poll r n) = take n (ring_items r) \<and> ring_ok (snd (ring_poll r n)) \<and>
    ring_items (snd (ring_poll r n)) = drop n (ring_items r) \<and> ring_cap (snd (ring_poll r n)) = ring_cap r"
  using assms
proof (induction r n rule: ring_poll.induct)
  case (2 r n)
  show ?case
  proof (cases "rg_count r = 0")
    case True
    then have "ring_items r = []" by (simp add: ring_items_def)
    with True 2(2) show ?thesis by simp
  next
    case False
    then have "ring_items r = ring_nth r 0 # ring_items (ring_drop r)"
      using ring_drop_items [OF 2(2)]
      by (metis hd_Cons_tl hd_conv_nth length_0_conv neq0_conv ring_items_length ring_items_nth)
    with 2(1) [OF False ring_drop_ok [OF 2(2)]] False show ?thesis
      by (cases "ring_poll (ring_drop r) n") simp
  qed
qed simp

lemma ring_store_items:
  assumes "ring_ok r" "i < rg_count r"
  shows "ring_items (ring_store r i x) = (ring_items r)[i := x]"
proof (rule nth_equalityI)
  fix k assume "k < length (ring_items (ring_store r i x))"
  then have "k < rg_count r" "k < ring_cap r" using assms(1) by (simp_all add: ring_ok_def)
  moreover have "i < ring_cap r" using assms by (simp add: ring_ok_def)
  ultimately show "ring_items (ring_store r i x) ! k = (ring_items r)[i := x] ! k"
    using assms by (simp add: ring_items_nth ring_nth_store nth_list_update)
qed simp

section \<open>Compaction and removal\<close>

lemma ring_compact_loop_items:
  assumes "ring_ok r" "keep \<le> i" "i + todo = rg_count r"
    "ring_compact_loop P r i keep todo = (r', n)"
  shows "ring_ok r' \<and> ring_cap r' = ring_cap r \<and>
    map (ring_nth r') [0..<n] =
      map (ring_nth r) [0..<keep] @ filter (\<lambda>x. \<not> P x) (map (ring_nth r) [i..<rg_count r])"
  using assms
proof (induction P r i keep todo rule: ring_compact_loop.induct)
  case (2 P r i keep todo)
  have i: "i < ring_cap r" "keep < ring_cap r" "[i..<rg_count r] = i # [i + 1..<rg_count r]"
    using 2(3-5) by (auto simp: ring_ok_def upt_conv_Cons)
  show ?case
  proof (cases "P (ring_nth r i)")
    case True
    with 2(1) [OF refl True] 2(3-6) i show ?thesis by (simp add: Let_def)
  next
    case False
    define r1 where "r1 = (if keep \<noteq> i then ring_store r keep (ring_nth r i) else r)"
    have n: "ring_nth r1 k = (if k = keep then ring_nth r i else ring_nth r k)" if "k < ring_cap r" for k
      using that 2(3) i by (simp add: r1_def ring_nth_store)
    have sel: "ring_ok r1" "ring_cap r1 = ring_cap r" "rg_count r1 = rg_count r"
      using 2(3) by (simp_all add: r1_def)
    have later: "map (ring_nth r1) [i + 1..<rg_count r1] = map (ring_nth r) [i + 1..<rg_count r]"
      using 2(3-5) n sel by (auto simp: ring_ok_def)
    have kept: "map (ring_nth r1) [0..<keep + 1] = map (ring_nth r) [0..<keep] @ [ring_nth r i]"
      using 2(3-5) n i by auto
    have "ring_compact_loop P r1 (i + 1) (keep + 1) todo = (r', n)"
      using 2(6) False by (simp add: Let_def r1_def)
    from 2(2) [OF refl False, folded r1_def, OF sel(1) _ _ this] 2(4,5) sel
    have "ring_ok r' \<and> ring_cap r' = ring_cap r \<and> map (ring_nth r') [0..<n] =
        map (ring_nth r1) [0..<keep + 1] @ filter (\<lambda>x. \<not> P x) (map (ring_nth r1) [i + 1..<rg_count r1])"
      by simp
    then show ?thesis unfolding kept later i(3) using False by simp
  qed
qed simp

lemma ring_compact_items:
  assumes "ring_ok r"
  shows "ring_items (ring_compact P r) = filter (\<lambda>x. \<not> P x) (ring_items r) \<and>
    ring_ok (ring_compact P r) \<and> ring_cap (ring_compact P r) = ring_cap r"
proof -
  obtain r' keep where res: "ring_compact_loop P r 0 0 (rg_count r) = (r', keep)" by force
  from ring_compact_loop_items [OF assms _ _ res]
  have r': "ring_ok r'" "ring_cap r' = ring_cap r"
    and items: "map (ring_nth r') [0..<keep] = filter (\<lambda>x. \<not> P x) (ring_items r)"
    by (simp_all add: ring_items_def)
  from items have "keep \<le> rg_count r"
    by (metis length_filter_le length_map length_upt minus_nat.diff_0 ring_items_length)
  moreover have "ring_nth (r'\<lparr>rg_count := keep\<rparr>) = ring_nth r'"
    by (simp add: ring_nth_def ring_index_def ring_cap_def fun_eq_iff)
  ultimately show ?thesis
    using r' items assms by (simp add: ring_compact_def res ring_items_def ring_ok_def ring_cap_def)
qed

lemma ring_shift_nth:
  assumes "ring_ok r" "k < ring_cap r"
  shows "ring_ok (ring_shift r k) \<and> ring_cap (ring_shift r k) = ring_cap r \<and>
    rg_head (ring_shift r k) = rg_head r \<and> rg_count (ring_shift r k) = rg_count r \<and>
    (\<forall>i < ring_cap r. ring_nth (ring_shift r k) i = (if 0 < i \<and> i \<le> k then ring_nth r (i - 1) else ring_nth r i))"
  using assms
proof (induction r k rule: ring_shift.induct)
  case (2 r k)
  let ?r = "ring_store r (Suc k) (ring_nth r k)"
  from 2 have IH: "\<forall>i < ring_cap r. ring_nth (ring_shift ?r k) i =
      (if 0 < i \<and> i \<le> k then ring_nth ?r (i - 1) else ring_nth ?r i)" by simp
  have "ring_nth (ring_shift ?r k) i = (if 0 < i \<and> i \<le> Suc k then ring_nth r (i - 1) else ring_nth r i)"
    if "i < ring_cap r" for i
    using IH that 2 by (auto simp: ring_nth_store le_Suc_eq)
  with 2 show ?case by simp
qed simp

lemma ring_remove_items:
  assumes "ring_ok r" "i < rg_count r"
  shows "ring_items (ring_remove r i) = take i (ring_items r) @ drop (i + 1) (ring_items r) \<and>
    ring_ok (ring_remove r i) \<and> ring_cap (ring_remove r i) = ring_cap r"
proof -
  have lt: "i < ring_cap r" using assms by (simp add: ring_ok_def)
  note shift = ring_shift_nth [OF assms(1) lt]
  have ok: "ring_ok (ring_shift r i)" using shift by simp
  have "ring_items (ring_drop (ring_shift r i)) = take i (ring_items r) @ drop (i + 1) (ring_items r)"
  proof (rule nth_equalityI)
    fix k assume "k < length (ring_items (ring_drop (ring_shift r i)))"
    then have k: "k + 1 < rg_count r" using shift by (simp add: ring_drop_def)
    then have "k + 1 < ring_cap r" using assms by (simp add: ring_ok_def)
    with shift k assms have "ring_nth (ring_drop (ring_shift r i)) k = (if k < i then ring_nth r k else ring_nth r (k + 1))"
      by (simp add: ring_drop_nth [OF ok])
    with k assms shift show "ring_items (ring_drop (ring_shift r i)) ! k = (take i (ring_items r) @ drop (i + 1) (ring_items r)) ! k"
      by (simp add: ring_items_nth ring_drop_def nth_append min_def)
  qed (use assms shift in \<open>simp add: ring_drop_def\<close>)
  then show ?thesis
    using ring_drop_ok [OF ok] shift by (simp add: ring_remove_def)
qed

end
