(* ===== verification/WireLog.thy ===== *)
theory WireLog
  imports Prelude
begin

text \<open>
  The redactor of the wire log (\<^verbatim>\<open>src/gs_server.c\<close>): the scan for DeviceID values in
  raw bytes and the masking of the part of a value that falls into one chunk. The rest of the
  wire log (the ring, its warnings, what is pushed when) is part of the server.
\<close>

section \<open>The scan\<close>

definition GS_WIRE_MASK :: bytes where
  "GS_WIRE_MASK = ''<redacted>''"

abbreviation (input) GS_WIRE_MASK_LEN :: nat where "GS_WIRE_MASK_LEN \<equiv> 10"

definition wire_is_space :: "byte \<Rightarrow> bool" where
  "wire_is_space b \<longleftrightarrow> b = SPACE \<or> b = TAB \<or> b = LF \<or> b = CR"

text \<open>\<open>lit\<close> is lower case; the bytes of \<open>p\<close> are folded.\<close>

fun wire_ci_equal :: "bytes \<Rightarrow> bytes \<Rightarrow> bool" where
  "wire_ci_equal p [] = True"
| "wire_ci_equal [] (b # lit) = False"
| "wire_ci_equal (a # p) (b # lit) =
     ((if ord CHR ''A'' \<le> ord a \<and> ord a \<le> ord CHR ''Z'' then char_of (ord a + 32) else a) = b \<and>
      wire_ci_equal p lit)"

record gs_redactor =
  rd_buf :: bytes
  rd_next :: nat
  rd_start :: nat
  rd_end :: nat
  rd_have :: bool

definition redactor_init :: "bytes \<Rightarrow> gs_redactor" where
  "redactor_init buf = \<lparr>rd_buf = buf, rd_next = 0, rd_start = 0, rd_end = 0, rd_have = False\<rparr>"

function skip_space :: "bytes \<Rightarrow> nat \<Rightarrow> nat" where
  "skip_space buf j = (if j < length buf \<and> wire_is_space (buf ! j) then skip_space buf (j + 1) else j)"
  by pat_completeness auto
termination
  by (relation "measure (\<lambda>(buf, j). length buf - j)") auto

declare skip_space.simps [simp del]

text \<open>The end of a string value: its closing quote, or the end of the buffer.\<close>

function value_end :: "bytes \<Rightarrow> nat \<Rightarrow> nat" where
  "value_end buf v =
     (if v < length buf \<and> buf ! v \<noteq> QUOTE then
        (if buf ! v = BACKSLASH \<and> v + 1 < length buf then value_end buf (v + 2)
         else value_end buf (v + 1))
      else v)"
  by pat_completeness auto
termination
  by (relation "measure (\<lambda>(buf, v). length buf - v)") auto

declare value_end.simps [simp del]

text \<open>
  The body of the search loop at offset \<open>i\<close>: the start of the value if the DeviceID key, a
  colon and an opening quote stand there.
\<close>

definition device_value_at :: "bytes \<Rightarrow> nat \<Rightarrow> nat option" where
  "device_value_at buf i =
     (if buf ! i \<noteq> QUOTE \<or> \<not> wire_ci_equal (take 8 (drop (i + 1) buf)) ''deviceid'' \<or> buf ! (i + 9) \<noteq> QUOTE
      then None
      else
        (let j = skip_space buf (i + 10) in
         if length buf \<le> j \<or> buf ! j \<noteq> CHR '':'' then None
         else
           (let j = skip_space buf (j + 1) in
            if length buf \<le> j \<or> buf ! j \<noteq> QUOTE then None else Some (j + 1))))"

function redactor_search :: "bytes \<Rightarrow> nat \<Rightarrow> (nat \<times> nat) option" where
  "redactor_search buf i =
     (if i + 10 \<le> length buf then
        (case device_value_at buf i of
           None \<Rightarrow> redactor_search buf (i + 1)
         | Some j \<Rightarrow> Some (j, value_end buf j))
      else None)"
  by pat_completeness auto
termination
  by (relation "measure (\<lambda>(buf, i). length buf - i)") auto

declare redactor_search.simps [simp del]

definition redactor_next :: "gs_redactor \<Rightarrow> bool \<times> gs_redactor" where
  "redactor_next r =
     (case redactor_search (rd_buf r) (rd_next r) of
        Some (j, v) \<Rightarrow>
          (True, r\<lparr>rd_start := j, rd_end := v,
             rd_next := (if v < length (rd_buf r) then v + 1 else length (rd_buf r)), rd_have := True\<rparr>)
      | None \<Rightarrow> (False, r\<lparr>rd_have := False, rd_next := length (rd_buf r)\<rparr>))"

section \<open>Masking one chunk\<close>

text \<open>The loop \<open>for (k = a; k < b; ++k) dst[k - off] = mask[(k - start) % 10]\<close>.\<close>

definition mask_span :: "nat \<Rightarrow> nat \<Rightarrow> nat \<Rightarrow> nat \<Rightarrow> bytes \<Rightarrow> bytes" where
  "mask_span start off a b dst =
     fold (\<lambda>k dst. dst[k - off := GS_WIRE_MASK ! ((k - start) mod GS_WIRE_MASK_LEN)]) [a..<b] dst"

lemma skip_space_ge: "j \<le> skip_space buf j"
proof (induction buf j rule: skip_space.induct)
  case (1 buf j)
  then show ?case by (subst skip_space.simps) auto
qed

lemma value_end_ge: "v \<le> value_end buf v"
proof (induction buf v rule: value_end.induct)
  case (1 buf v)
  then show ?case by (subst value_end.simps) auto
qed

lemma device_value_at_gt: "device_value_at buf i = Some j \<Longrightarrow> i + 10 < j \<and> j \<le> length buf"
  using skip_space_ge [of "i + 10" buf] skip_space_ge [of "skip_space buf (i + 10) + 1" buf]
  by (auto simp: device_value_at_def Let_def split: if_splits)

lemma redactor_search_gt: "redactor_search buf i = Some (j, v) \<Longrightarrow> i < j \<and> j \<le> length buf \<and> j \<le> v"
proof (induction buf i rule: redactor_search.induct)
  case (1 buf i)
  then show ?case
    by (subst (asm) (2) redactor_search.simps)
      (auto split: if_splits option.splits dest!: device_value_at_gt simp: value_end_ge)
qed

function redactor_apply ::
  "gs_redactor \<Rightarrow> bytes \<Rightarrow> nat \<Rightarrow> nat \<Rightarrow> bool \<Rightarrow> bool \<times> gs_redactor \<times> bytes" where
  "redactor_apply r dst off n any =
     (case (if rd_have r then (True, r) else redactor_next r) of
        (False, r) \<Rightarrow> (any, r, dst)
      | (True, r) \<Rightarrow>
          if rd_end r \<le> off then redactor_apply (r\<lparr>rd_have := False\<rparr>) dst off n any
          else if off + n \<le> rd_start r then (any, r, dst)
          else
            (let a = (if off < rd_start r then rd_start r else off);
                 b = (if rd_end r < off + n then rd_end r else off + n);
                 dst = mask_span (rd_start r) off a b dst;
                 any = (any \<or> a < b) in
             if off + n < rd_end r then (any, r, dst)
             else redactor_apply (r\<lparr>rd_have := False\<rparr>) dst off n any))"
  by pat_completeness auto
termination
  by (relation "measure (\<lambda>(r, _). 2 * (length (rd_buf r) - rd_next r) + (if rd_have r then 1 else 0))")
    (auto simp: redactor_next_def split: if_splits option.splits dest!: redactor_search_gt)

declare redactor_apply.simps [simp del]

section \<open>What redaction is\<close>

text \<open>All DeviceID values of a buffer, as the search finds them one after the other.\<close>

function spans_from :: "bytes \<Rightarrow> nat \<Rightarrow> (nat \<times> nat) list" where
  "spans_from buf i =
     (case redactor_search buf i of
        None \<Rightarrow> []
      | Some (j, v) \<Rightarrow> (j, v) # spans_from buf (if v < length buf then v + 1 else length buf))"
  by pat_completeness auto
termination
  by (relation "measure (\<lambda>(buf, i). length buf - i)") (auto dest!: redactor_search_gt split: if_splits)

declare spans_from.simps [simp del]

definition covering :: "(nat \<times> nat) list \<Rightarrow> nat \<Rightarrow> (nat \<times> nat) option" where
  "covering spans k = find (\<lambda>(s, e). s \<le> k \<and> k < e) spans"

definition redact_at :: "(nat \<times> nat) list \<Rightarrow> nat \<Rightarrow> byte \<Rightarrow> byte" where
  "redact_at spans k c =
     (case covering spans k of
        Some (s, _) \<Rightarrow> GS_WIRE_MASK ! ((k - s) mod GS_WIRE_MASK_LEN)
      | None \<Rightarrow> c)"

definition redact_bytes :: "bytes \<Rightarrow> bytes" where
  "redact_bytes buf = map (\<lambda>k. redact_at (spans_from buf 0) k (buf ! k)) [0..<length buf]"

definition ascending :: "(nat \<times> nat) list \<Rightarrow> bool" where
  "ascending spans \<longleftrightarrow> sorted_wrt (\<lambda>(s, e) (s', e'). e \<le> s') spans \<and> (\<forall>(s, e) \<in> set spans. s \<le> e)"

lemma spans_from_gt: "(s, e) \<in> set (spans_from buf i) \<Longrightarrow> i < s \<and> s \<le> e"
proof (induction buf i rule: spans_from.induct)
  case (1 buf i)
  show ?case
  proof (cases "redactor_search buf i")
    case None
    with "1.prems" show ?thesis by (simp add: spans_from.simps [of buf i])
  next
    case (Some p)
    obtain j v where p: "p = (j, v)" by force
    let ?n = "if v < length buf then v + 1 else length buf"
    from "1.prems" Some p have "(s, e) = (j, v) \<or> (s, e) \<in> set (spans_from buf ?n)"
      by (simp add: spans_from.simps [of buf i])
    moreover have "i < ?n" using redactor_search_gt [OF Some [unfolded p]] by auto
    ultimately show ?thesis
      using redactor_search_gt [OF Some [unfolded p]] "1.IH" [OF Some p [symmetric]] by fastforce
  qed
qed

lemma spans_from_ascending: "ascending (spans_from buf i)"
proof (induction buf i rule: spans_from.induct)
  case (1 buf i)
  show ?case
  proof (cases "redactor_search buf i")
    case (Some p)
    obtain j v where p: "p = (j, v)" by force
    let ?n = "if v < length buf then v + 1 else length buf"
    have jv: "j \<le> v" using redactor_search_gt [OF Some [unfolded p]] by simp
    have "v \<le> s" if "(s, e) \<in> set (spans_from buf ?n)" for s e
    proof (cases "v < length buf")
      case False
      then have "spans_from buf ?n = []"
        by (simp add: spans_from.simps [of buf "length buf"] redactor_search.simps [of buf "length buf"])
      with that show ?thesis by simp
    qed (use spans_from_gt [OF that] in simp)
    with jv "1.IH" [OF Some p [symmetric]] Some p show ?thesis
      by (auto simp: spans_from.simps [of buf i] ascending_def)
  qed (simp add: spans_from.simps [of buf i] ascending_def)
qed

lemma covering_Cons: "covering ((s, e) # spans) k = (if s \<le> k \<and> k < e then Some (s, e) else covering spans k)"
  by (simp add: covering_def)

lemma covering_before: "\<forall>(s, e) \<in> set spans. k < s \<Longrightarrow> covering spans k = None"
  by (auto simp: covering_def find_None_iff)

lemma ascending_Cons:
  "ascending ((s, e) # spans) \<longleftrightarrow> s \<le> e \<and> (\<forall>(s', e') \<in> set spans. e \<le> s') \<and> ascending spans"
  by (auto simp: ascending_def)

section \<open>The redactor masks exactly that, chunk by chunk\<close>

lemma mask_span_length [simp]: "length (mask_span s off a b dst) = length dst"
proof -
  have "length (fold (\<lambda>k dst. dst[k - off := f k]) ks dst) = length dst" for f :: "nat \<Rightarrow> byte" and ks
    by (induction ks arbitrary: dst) simp_all
  then show ?thesis by (simp add: mask_span_def)
qed

lemma mask_span_nth:
  assumes "off \<le> a" "b \<le> off + length dst" "off \<le> k" "k < off + length dst"
  shows "mask_span s off a b dst ! (k - off) =
    (if a \<le> k \<and> k < b then GS_WIRE_MASK ! ((k - s) mod 10) else dst ! (k - off))"
proof (cases "a \<le> b")
  case True
  from this assms(2) show ?thesis
  proof (induction b rule: dec_induct)
    case base
    then show ?case by (auto simp: mask_span_def)
  next
    case (step n)
    have "mask_span s off a (Suc n) dst =
        (mask_span s off a n dst)[n - off := GS_WIRE_MASK ! ((n - s) mod 10)]"
      using step by (simp add: mask_span_def)
    with step assms show ?case by (auto simp: nth_list_update less_Suc_eq)
  qed
next
  case False
  then show ?thesis by (auto simp: mask_span_def)
qed

text \<open>The values the redactor has still to mask.\<close>

definition pending :: "gs_redactor \<Rightarrow> (nat \<times> nat) list" where
  "pending r = (if rd_have r then [(rd_start r, rd_end r)] else []) @ spans_from (rd_buf r) (rd_next r)"

lemma redactor_next_pending:
  assumes "redactor_next r = (found, r')" "\<not> rd_have r"
  shows "pending r' = pending r \<and> rd_buf r' = rd_buf r \<and> rd_have r' = found \<and> (found \<or> pending r = [])"
proof -
  have "spans_from (rd_buf r) (length (rd_buf r)) = []"
    by (simp add: spans_from.simps [of "rd_buf r" "length (rd_buf r)"]
        redactor_search.simps [of "rd_buf r" "length (rd_buf r)"])
  with assms show ?thesis
    by (auto simp: redactor_next_def pending_def spans_from.simps [of "rd_buf r" "rd_next r"]
        split: option.splits)
qed

text \<open>
  One chunk: the bytes of \<open>dst\<close> (which holds offsets \<open>off\<close> up to \<open>off + n\<close>) that lie in a
  pending value are masked, all others kept, and what remains pending still covers every
  later offset.
\<close>

definition chunk_masked ::
  "(nat \<times> nat) list \<Rightarrow> nat \<Rightarrow> bytes \<Rightarrow> bool \<Rightarrow> bool \<times> gs_redactor \<times> bytes \<Rightarrow> bool" where
  "chunk_masked pend off dst any res \<longleftrightarrow> (case res of (any', r', dst') \<Rightarrow>
     length dst' = length dst \<and>
     (\<forall>k. off \<le> k \<and> k < off + length dst \<longrightarrow> dst' ! (k - off) = redact_at pend k (dst ! (k - off))) \<and>
     (\<forall>k \<ge> off + length dst. covering (pending r') k = covering pend k) \<and> ascending (pending r') \<and>
     (any' \<longleftrightarrow> any \<or> (\<exists>k. off \<le> k \<and> k < off + length dst \<and> covering pend k \<noteq> None)))"

lemma chunk_masked_rest:
  assumes "chunk_masked spans off dst' any' res" "ascending ((s, e) # spans)" "length dst' = length dst"
    and "\<And>k. off \<le> k \<Longrightarrow> k < off + length dst \<Longrightarrow>
      dst' ! (k - off) = (if s \<le> k \<and> k < e then GS_WIRE_MASK ! ((k - s) mod 10) else dst ! (k - off))"
    and "any' \<longleftrightarrow> any \<or> (\<exists>k. off \<le> k \<and> k < off + length dst \<and> s \<le> k \<and> k < e)"
    and "e \<le> off + length dst"
  shows "chunk_masked ((s, e) # spans) off dst any res"
proof -
  obtain a r d where res: "res = (a, r, d)" by (metis prod_cases3)
  have none: "covering spans k = None" if "k < e" for k
    using that assms(2) by (intro covering_before) (auto simp: ascending_Cons)
  have at: "redact_at spans k (dst' ! (k - off)) = redact_at ((s, e) # spans) k (dst ! (k - off))"
    if "off \<le> k" "k < off + length dst" for k
    using that assms(4) none [of k] by (auto simp: redact_at_def covering_Cons)
  have later: "covering ((s, e) # spans) k = covering spans k" if "off + length dst \<le> k" for k
    using that assms(6) by (simp add: covering_Cons)
  have cov: "(\<exists>k. off \<le> k \<and> k < off + length dst \<and> covering ((s, e) # spans) k \<noteq> None) \<longleftrightarrow>
      (\<exists>k. off \<le> k \<and> k < off + length dst \<and> s \<le> k \<and> k < e) \<or>
      (\<exists>k. off \<le> k \<and> k < off + length dst \<and> covering spans k \<noteq> None)"
    by (auto simp: covering_Cons)
  from assms(1) have "length d = length dst" "ascending (pending r)"
    and nth: "\<And>k. off \<le> k \<Longrightarrow> k < off + length dst \<Longrightarrow> d ! (k - off) = redact_at spans k (dst' ! (k - off))"
    and pend: "\<And>k. off + length dst \<le> k \<Longrightarrow> covering (pending r) k = covering spans k"
    and flag: "a \<longleftrightarrow> any' \<or> (\<exists>k. off \<le> k \<and> k < off + length dst \<and> covering spans k \<noteq> None)"
    unfolding chunk_masked_def res prod.case assms(3) by blast+
  then show ?thesis
    unfolding chunk_masked_def res prod.case cov
    using at later assms(5) by simp
qed

lemma redactor_apply_step:
  assumes "rd_have r"
  shows "redactor_apply r dst off n any =
    (if rd_end r \<le> off then redactor_apply (r\<lparr>rd_have := False\<rparr>) dst off n any
     else if off + n \<le> rd_start r then (any, r, dst)
     else
       (let a = max (rd_start r) off; b = min (rd_end r) (off + n);
            dst = mask_span (rd_start r) off a b dst; any = (any \<or> a < b) in
        if off + n < rd_end r then (any, r, dst)
        else redactor_apply (r\<lparr>rd_have := False\<rparr>) dst off n any))"
proof -
  have "(if off < rd_start r then rd_start r else off) = max (rd_start r) off"
    "(if rd_end r < off + n then rd_end r else off + n) = min (rd_end r) (off + n)" by auto
  then show ?thesis
    using assms by (subst redactor_apply.simps) (simp only: if_True prod.case bool.case)
qed

lemma redactor_apply_search:
  assumes "\<not> rd_have r" "redactor_next r = (found, r1)"
  shows "redactor_apply r dst off n any = (if found then redactor_apply r1 dst off n any else (any, r1, dst))"
proof (cases found)
  case True
  then have "rd_have r1" using redactor_next_pending [OF assms(2,1)] by simp
  then show ?thesis using assms True
    by (subst redactor_apply.simps, subst (2) redactor_apply.simps) (simp only: if_True if_False prod.case bool.case)
next
  case False
  then show ?thesis using assms by (subst redactor_apply.simps) simp
qed

definition room :: "gs_redactor \<Rightarrow> nat" where
  "room r = 2 * (length (rd_buf r) - rd_next r) + (if rd_have r then 1 else 0)"

lemma redactor_next_room: "redactor_next r = (True, r1) \<Longrightarrow> \<not> rd_have r \<Longrightarrow> room r1 < room r"
  by (auto simp: redactor_next_def room_def split: option.splits dest!: redactor_search_gt)

lemma redactor_apply_masks:
  assumes "ascending (pending r)"
  shows "chunk_masked (pending r) off dst any (redactor_apply r dst off (length dst) any)"
  using assms
proof (induction "room r" arbitrary: r dst any rule: less_induct)
  case less
  show ?case
  proof (cases "rd_have r")
    case False
    obtain found r1 where r1: "redactor_next r = (found, r1)" by force
    note nxt = redactor_next_pending [OF r1 False]
    show ?thesis
    proof (cases found)
      case True
      then have "room r1 < room r" using redactor_next_room [of r r1] r1 False by simp
      from less.hyps [OF this, of dst any] nxt less.prems True show ?thesis
        by (simp add: redactor_apply_search [OF False r1])
    next
      case not_found: False
      with nxt less.prems show ?thesis
        by (simp add: redactor_apply_search [OF False r1] chunk_masked_def redact_at_def covering_def)
    qed
  next
    case True
    let ?s = "rd_start r" and ?e = "rd_end r" and ?r = "r\<lparr>rd_have := False\<rparr>" and ?n = "length dst"
    have cons: "pending r = (?s, ?e) # pending ?r"
      using True by (simp add: pending_def)
    then have asc: "ascending ((?s, ?e) # pending ?r)" "ascending (pending ?r)"
      using less.prems by (simp_all add: ascending_Cons)
    have IH: "chunk_masked (pending ?r) off dst' any' (redactor_apply ?r dst' off (length dst') any')" for dst' any'
      using less.hyps [OF _ asc(2)] True by (simp add: room_def)
    consider "?e \<le> off" | "off < ?e" "off + ?n \<le> ?s" | "off < ?e" "?s < off + ?n" "off + ?n < ?e"
      | "off < ?e" "?s < off + ?n" "?e \<le> off + ?n" by linarith
    then show ?thesis
    proof cases
      case 1
      have "chunk_masked ((?s, ?e) # pending ?r) off dst any (redactor_apply ?r dst off ?n any)"
        by (rule chunk_masked_rest [OF IH asc(1)]) (use 1 in auto)
      with 1 show ?thesis unfolding cons by (simp add: redactor_apply_step [OF True])
    next
      case 2
      have "covering (pending r) k = None" if "k < off + ?n" for k
        using that 2 asc(1) unfolding cons by (intro covering_before) (auto simp: ascending_Cons)
      with 2 less.prems show ?thesis
        by (auto simp: redactor_apply_step [OF True] chunk_masked_def redact_at_def)
    next
      case 3
      have "covering (pending r) k = (if ?s \<le> k then Some (?s, ?e) else None)" if "k < off + ?n" for k
      proof -
        have "covering (pending ?r) k = None"
          using that 3 asc(1) by (intro covering_before) (auto simp: ascending_Cons)
        with that 3 show ?thesis unfolding cons by (simp add: covering_Cons)
      qed
      note cov = this
      have "(\<exists>k. off \<le> k \<and> k < off + ?n \<and> covering (pending r) k \<noteq> None) \<longleftrightarrow> max ?s off < off + ?n"
      proof
        assume "max ?s off < off + ?n"
        with cov [of "max ?s off"] show "\<exists>k. off \<le> k \<and> k < off + ?n \<and> covering (pending r) k \<noteq> None"
          by (intro exI [of _ "max ?s off"]) simp
      qed (use cov in \<open>auto split: if_splits\<close>)
      with cov 3 less.prems show ?thesis
        by (simp add: redactor_apply_step [OF True] Let_def chunk_masked_def redact_at_def mask_span_nth)
    next
      case 4
      let ?dst = "mask_span ?s off (max ?s off) ?e dst" and ?any = "any \<or> max ?s off < ?e"
      have "chunk_masked ((?s, ?e) # pending ?r) off dst any (redactor_apply ?r ?dst off (length ?dst) ?any)"
      proof (rule chunk_masked_rest [OF IH asc(1)])
        show "?any \<longleftrightarrow> any \<or> (\<exists>k. off \<le> k \<and> k < off + length dst \<and> ?s \<le> k \<and> k < ?e)"
          using 4 by (auto intro!: exI [of _ "max ?s off"])
      qed (use 4 in \<open>auto simp: mask_span_nth\<close>)
      with 4 show ?thesis unfolding cons by (simp add: redactor_apply_step [OF True] Let_def min_def)
    qed
  qed
qed

end
