(* ===== verification/ServerCore.thy ===== *)
theory ServerCore
  imports Encode Event RingBuffer WireLog
begin

text \<open>
  The sans-I/O server of \<^verbatim>\<open>src/gs_server.c\<close> and \<^verbatim>\<open>include/gspro/server.h\<close>, whole:
  its state, the three rings, the wire log, message delivery, framing of the pending bytes and
  every entry point. State is passed explicitly. A \<^verbatim>\<open>gs_conn *\<close> is the index of the
  connection's slot; \<open>c_rx\<close> is \<^verbatim>\<open>rx[0 .. rx_len)\<close>.

  Pointers are taken to be non-NULL except where the source gives NULL a meaning of its own
  (an absent peer address, the stored player). Times are unbounded integers.
\<close>

section \<open>State\<close>

abbreviation (input) GSP_CONN_ALL :: gsp_conn_id where "GSP_CONN_ALL \<equiv> 0xffffffff"
abbreviation (input) GSP_TIME_NEVER :: gsp_time_us where "GSP_TIME_NEVER \<equiv> 2 ^ 63 - 1"
abbreviation (input) GSP_WRITE_MAX :: nat where "GSP_WRITE_MAX \<equiv> 256"
abbreviation (input) GSP_WIRE_CHUNK_MAX :: nat where "GSP_WIRE_CHUNK_MAX \<equiv> 512"
abbreviation (input) INT64_MIN :: int where "INT64_MIN \<equiv> - (2 ^ 63)"

datatype gsp_write_kind =
  GSP_WRITE_ACK | GSP_WRITE_PLAYER_INFO | GSP_WRITE_READY | GSP_WRITE_ROUND_ENDED | GSP_WRITE_FAILURE

record gsp_write_request =
  w_conn :: gsp_conn_id
  w_length :: u16
  w_kind :: gsp_write_kind
  w_data :: bytes

datatype gsp_wire_direction = GSP_WIRE_CLIENT_TO_SERVER | GSP_WIRE_SERVER_TO_CLIENT | GSP_WIRE_META

text \<open>The value of a direction, which is what the \<^verbatim>\<open>uint8_t direction\<close> of a chunk holds.\<close>

fun direction_value :: "gsp_wire_direction \<Rightarrow> u8" where
  "direction_value GSP_WIRE_CLIENT_TO_SERVER = 0"
| "direction_value GSP_WIRE_SERVER_TO_CLIENT = 1"
| "direction_value GSP_WIRE_META = 2"

abbreviation (input) GSP_WIRE_REDACTED :: u8 where "GSP_WIRE_REDACTED \<equiv> 0x01"
abbreviation (input) GSP_WIRE_LOST :: u8 where "GSP_WIRE_LOST \<equiv> 0x02"
abbreviation (input) GSP_WIRE_CONTINUES :: u8 where "GSP_WIRE_CONTINUES \<equiv> 0x04"

text \<open>\<open>wc_data\<close> is \<^verbatim>\<open>data[0 .. length)\<close>.\<close>

record gsp_wire_chunk =
  wc_host_time_us :: gsp_time_us
  wc_conn :: gsp_conn_id
  wc_direction :: u8
  wc_flags :: u8
  wc_sequence :: u32
  wc_data :: bytes

record gsp_server_policy =
  max_message_bytes :: u32
  idle_alarm_us :: gsp_time_us
  protocol_error_close_threshold :: u32
  write_spacing_us :: gsp_time_us
  reject_incomplete_shots :: bool
  announce_player_on_connect :: bool
  announce_ready_on_connect :: bool
  record_identifiers :: bool
  ack_text :: bytes

record gsp_server_config =
  cfg_max_connections :: u32
  cfg_event_ring :: u32
  cfg_write_ring :: u32
  cfg_wire_ring :: u32
  cfg_policy :: gsp_server_policy

definition gsp_server_policy_default :: gsp_server_policy where
  "gsp_server_policy_default =
     \<lparr>max_message_bytes = 0, idle_alarm_us = 0, protocol_error_close_threshold = 0,
      write_spacing_us = 0, reject_incomplete_shots = False, announce_player_on_connect = True,
      announce_ready_on_connect = True, record_identifiers = False, ack_text = []\<rparr>"

definition gsp_server_config_default :: gsp_server_config where
  "gsp_server_config_default =
     \<lparr>cfg_max_connections = 0, cfg_event_ring = 0, cfg_write_ring = 0, cfg_wire_ring = 0,
      cfg_policy = gsp_server_policy_default\<rparr>"

record gs_conn =
  c_used :: bool
  c_idle_reported :: bool
  c_info :: gsp_connection_info
  c_framer :: gs_framer
  c_rx :: bytes
  c_scan :: nat
  c_next_write_us :: gsp_time_us

record gsp_server =
  s_policy :: gsp_server_policy
  s_closed :: bool
  s_max_message_bytes :: nat
  s_rx_capacity :: nat
  s_now_us :: gsp_time_us
  s_event_sequence :: u32
  s_message_sequence :: u32
  s_wire_sequence :: u32
  s_dropped_events :: u32
  s_dropped_wire :: u32
  s_drop_warned :: nat
  s_wire_drop_warned :: nat
  s_wire_lost_pending :: bool
  s_player :: gsp_player_info
  s_player_set :: bool
  s_session_state :: gsp_session_state
  s_conns :: "gs_conn list"
  s_events :: "gsp_event ring"
  s_writes :: "gsp_write_request ring"
  s_wire :: "gsp_wire_chunk ring"

definition conn :: "gsp_server \<Rightarrow> nat \<Rightarrow> gs_conn" where
  "conn s i = s_conns s ! i"

definition upd_conn :: "nat \<Rightarrow> (gs_conn \<Rightarrow> gs_conn) \<Rightarrow> gsp_server \<Rightarrow> gsp_server" where
  "upd_conn i f s = s\<lparr>s_conns := (s_conns s)[i := f (conn s i)]\<rparr>"

definition upd_info :: "nat \<Rightarrow> (gsp_connection_info \<Rightarrow> gsp_connection_info) \<Rightarrow> gsp_server \<Rightarrow> gsp_server" where
  "upd_info i f = upd_conn i (\<lambda>c. c\<lparr>c_info := f (c_info c)\<rparr>)"

abbreviation conn_id :: "gsp_server \<Rightarrow> nat \<Rightarrow> gsp_conn_id" where
  "conn_id s i \<equiv> ci_conn (c_info (conn s i))"

definition slots :: "gsp_server \<Rightarrow> nat list" where
  "slots s = [0..<length (s_conns s)]"

definition find_conn :: "gsp_server \<Rightarrow> gsp_conn_id \<Rightarrow> nat option" where
  "find_conn s cid = find (\<lambda>i. c_used (conn s i) \<and> conn_id s i = cid) (slots s)"

section \<open>The event ring\<close>

definition ring_push_event :: "gsp_server \<Rightarrow> gsp_event \<Rightarrow> gsp_server" where
  "ring_push_event s ev =
     (if ring_cap (s_events s) = 0 then s
      else
        (let s = (if rg_count (s_events s) = ring_cap (s_events s) then
                    s\<lparr>s_events := ring_drop (s_events s), s_dropped_events := s_dropped_events s + 1,
                      s_drop_warned := (if s_drop_warned s \<noteq> 0 then 1 else 2)\<rparr>
                  else s)
         in s\<lparr>s_events := ring_put (s_events s) ev\<rparr>))"

definition next_event_sequence :: "gsp_server \<Rightarrow> gsp_server" where
  "next_event_sequence s = s\<lparr>s_event_sequence := s_event_sequence s + 1\<rparr>"

definition emit :: "gsp_server \<Rightarrow> gsp_event \<Rightarrow> gsp_server" where
  "emit s ev =
     (let ev = ev\<lparr>ev_sequence := s_event_sequence s\<rparr>;
          s = ring_push_event (next_event_sequence s) ev
      in if s_drop_warned s = 2 then
           (let s = s\<lparr>s_drop_warned := 1\<rparr>;
                w = \<lparr>ev_type = GSP_EV_WARNING, ev_sequence = s_event_sequence s,
                     ev_host_time_us = s_now_us s, ev_conn = GSP_CONN_NONE,
                     ev_u = EV_WARNING GSP_WARN_EVENTS_DROPPED (s_dropped_events s)
                       (copy_bounded GSP_WARNING_TEXT_MAX
                         (Some ''event ring overflowed; oldest events were dropped''))\<rparr>
            in ring_push_event (next_event_sequence s) w)
         else s)"

definition new_event :: "gsp_event_type \<Rightarrow> gsp_conn_id \<Rightarrow> gsp_time_us \<Rightarrow> event_union \<Rightarrow> gsp_event" where
  "new_event t cid now u =
     \<lparr>ev_type = t, ev_sequence = 0, ev_host_time_us = now, ev_conn = cid, ev_u = u\<rparr>"

definition emit_simple :: "gsp_server \<Rightarrow> gsp_event_type \<Rightarrow> gsp_conn_id \<Rightarrow> gsp_time_us \<Rightarrow> gsp_server" where
  "emit_simple s type cid now = emit s (new_event type cid now EV_EMPTY)"

definition emit_warning ::
  "gsp_server \<Rightarrow> gsp_conn_id \<Rightarrow> gsp_warning_code \<Rightarrow> u32 \<Rightarrow> bytes \<Rightarrow> gsp_time_us \<Rightarrow> gsp_server" where
  "emit_warning s cid code v txt now =
     emit s (new_event GSP_EV_WARNING cid now
       (EV_WARNING code v (copy_bounded GSP_WARNING_TEXT_MAX (Some txt))))"

section \<open>The wire log\<close>

definition wire_on :: "gsp_server \<Rightarrow> bool" where
  "wire_on s \<longleftrightarrow> 0 < ring_cap (s_wire s)"

definition mark_lost :: "gsp_wire_chunk \<Rightarrow> gsp_wire_chunk" where
  "mark_lost c = c\<lparr>wc_flags := wc_flags c OR GSP_WIRE_LOST\<rparr>"

text \<open>The first half of \<^verbatim>\<open>wire_ring_push\<close>: a full ring drops its oldest chunk.\<close>

definition wire_make_room :: "gsp_server \<Rightarrow> gsp_server" where
  "wire_make_room s =
     (if rg_count (s_wire s) = ring_cap (s_wire s) then
        (let s = s\<lparr>s_wire := ring_drop (s_wire s), s_dropped_wire := s_dropped_wire s + 1\<rparr>;
             s = (if 0 < rg_count (s_wire s)
                  then s\<lparr>s_wire := ring_store (s_wire s) 0 (mark_lost (ring_nth (s_wire s) 0))\<rparr>
                  else s\<lparr>s_wire_lost_pending := True\<rparr>)
         in s\<lparr>s_wire_drop_warned := (if s_wire_drop_warned s \<noteq> 0 then 1 else 2)\<rparr>)
      else s)"

definition wire_ring_push :: "gsp_server \<Rightarrow> gsp_wire_chunk \<Rightarrow> gsp_server" where
  "wire_ring_push s chunk =
     (let s = wire_make_room s;
          s = s\<lparr>s_wire := ring_put (s_wire s) (if s_wire_lost_pending s then mark_lost chunk else chunk),
                s_wire_lost_pending := False\<rparr>
      in if s_wire_drop_warned s = 2 then
           emit_warning (s\<lparr>s_wire_drop_warned := 1\<rparr>) GSP_CONN_NONE GSP_WARN_WIRE_DROPPED (s_dropped_wire s)
             ''wire ring overflowed; oldest chunks were dropped'' (s_now_us s)
         else s)"

text \<open>
  One turn of the loop of \<^verbatim>\<open>wire_push_bytes\<close>: the chunk at offset \<open>off\<close> and the redactor
  after it.
\<close>

definition wire_chunk ::
  "gsp_server \<Rightarrow> gsp_conn_id \<Rightarrow> gsp_wire_direction \<Rightarrow> bytes \<Rightarrow> gsp_time_us \<Rightarrow> bool \<Rightarrow> u8 \<Rightarrow>
   gs_redactor \<Rightarrow> nat \<Rightarrow> gsp_wire_chunk \<times> gs_redactor" where
  "wire_chunk s cid direction data now redact extra_flags r off =
     (let n = min (length data - off) GSP_WIRE_CHUNK_MAX;
          dst = take n (drop off data);
          (any, r, dst) = (if 0 < n \<and> redact then redactor_apply r dst off n False else (False, r, dst));
          flags = (if any then extra_flags OR GSP_WIRE_REDACTED else extra_flags);
          flags = (if off + n < length data then flags OR GSP_WIRE_CONTINUES else flags)
      in (\<lparr>wc_host_time_us = now, wc_conn = cid, wc_direction = direction_value direction, wc_flags = flags,
           wc_sequence = s_wire_sequence s, wc_data = dst\<rparr>, r))"

function wire_push_loop ::
  "gsp_server \<Rightarrow> gsp_conn_id \<Rightarrow> gsp_wire_direction \<Rightarrow> bytes \<Rightarrow> gsp_time_us \<Rightarrow> bool \<Rightarrow> u8 \<Rightarrow>
   gs_redactor \<Rightarrow> nat \<Rightarrow> gsp_server" where
  "wire_push_loop s cid direction data now redact extra_flags r off =
     (case wire_chunk s cid direction data now redact extra_flags r off of (chunk, r) \<Rightarrow>
      let s = wire_ring_push (s\<lparr>s_wire_sequence := s_wire_sequence s + 1\<rparr>) chunk;
          off = off + min (length data - off) GSP_WIRE_CHUNK_MAX
      in if off < length data then wire_push_loop s cid direction data now redact extra_flags r off
         else s)"
  by pat_completeness auto
termination
  by (relation "measure (\<lambda>(s, cid, direction, data, now, redact, extra_flags, r, off). length data - off)")
    auto

declare wire_push_loop.simps [simp del]

definition wire_push_bytes ::
  "gsp_server \<Rightarrow> gsp_conn_id \<Rightarrow> gsp_wire_direction \<Rightarrow> bytes \<Rightarrow> gsp_time_us \<Rightarrow> bool \<Rightarrow> u8 \<Rightarrow> gsp_server" where
  "wire_push_bytes s cid direction data now redact extra_flags =
     (if \<not> wire_on s then s
      else wire_push_loop s cid direction data now redact extra_flags (redactor_init data) 0)"

definition wire_client :: "gsp_server \<Rightarrow> gsp_conn_id \<Rightarrow> bytes \<Rightarrow> gsp_time_us \<Rightarrow> gsp_server" where
  "wire_client s cid data now =
     (if \<not> wire_on s \<or> data = [] then s
      else wire_push_bytes s cid GSP_WIRE_CLIENT_TO_SERVER data now
             (\<not> record_identifiers (s_policy s)) 0)"

definition wire_meta :: "gsp_server \<Rightarrow> gsp_event \<Rightarrow> gsp_server" where
  "wire_meta s ev =
     (if \<not> wire_on s then s
      else if ev_type ev \<noteq> GSP_EV_CONNECTION_OPENED \<and> ev_type ev \<noteq> GSP_EV_CONNECTION_CLOSED then s
      else
        (case gsp_event_format (Some ev) (Some (replicate 256 NUL)) 256 (record_identifiers (s_policy s)) of
           (line, n) \<Rightarrow>
             (let n = (if 256 \<le> n then 255 else n);
                  withheld = (\<not> record_identifiers (s_policy s) \<and> gsp_event_is_sensitive ev)
              in wire_push_bytes s (ev_conn ev) GSP_WIRE_META (take n (the line)) (ev_host_time_us ev)
                   False (if withheld then GSP_WIRE_REDACTED else 0))))"

definition emit_connection ::
  "gsp_server \<Rightarrow> gsp_event_type \<Rightarrow> nat \<Rightarrow> gsp_close_cause \<Rightarrow> gsp_time_us \<Rightarrow> gsp_server" where
  "emit_connection s type i cause now =
     (let ev = new_event type (conn_id s i) now (EV_CONNECTION (c_info (conn s i)) cause);
          seq = s_event_sequence s
      in wire_meta (emit s ev) (ev\<lparr>ev_sequence := seq\<rparr>))"

section \<open>What logging leaves alone\<close>

text \<open>
  The part of the state that neither events nor the wire log touch. Every operation of this
  theory keeps it; the selectors follow.
\<close>

definition core ::
  "gsp_server \<Rightarrow> gsp_server_policy \<times> bool \<times> nat \<times> nat \<times> gsp_time_us \<times> u32 \<times> gsp_player_info \<times> bool \<times>
   gsp_session_state \<times> gs_conn list \<times> gsp_write_request ring" where
  "core s = (s_policy s, s_closed s, s_max_message_bytes s, s_rx_capacity s, s_now_us s,
     s_message_sequence s, s_player s, s_player_set s, s_session_state s, s_conns s, s_writes s)"

lemma core_selD:
  assumes "core t = core s"
  shows "s_policy t = s_policy s" "s_closed t = s_closed s"
    "s_max_message_bytes t = s_max_message_bytes s" "s_rx_capacity t = s_rx_capacity s"
    "s_now_us t = s_now_us s" "s_message_sequence t = s_message_sequence s"
    "s_player t = s_player s" "s_player_set t = s_player_set s"
    "s_session_state t = s_session_state s" "s_conns t = s_conns s" "s_writes t = s_writes s"
  using assms by (simp_all add: core_def)

lemma core_log_upd [simp]:
  "core (s\<lparr>s_event_sequence := n\<rparr>) = core s" "core (s\<lparr>s_drop_warned := k\<rparr>) = core s"
  "core (s\<lparr>s_wire_sequence := n\<rparr>) = core s" "core (s\<lparr>s_wire_drop_warned := k\<rparr>) = core s"
  "core (s\<lparr>s_dropped_wire := n\<rparr>) = core s" "core (s\<lparr>s_wire_lost_pending := b\<rparr>) = core s"
  "core (s\<lparr>s_events := es\<rparr>) = core s" "core (s\<lparr>s_wire := cs\<rparr>) = core s"
  "core (s\<lparr>s_dropped_events := n\<rparr>) = core s"
  by (simp_all add: core_def)

lemma ring_push_event_core [simp]: "core (ring_push_event s ev) = core s"
  by (simp add: ring_push_event_def Let_def)

lemma emit_core [simp]: "core (emit s ev) = core s"
  by (simp add: emit_def Let_def next_event_sequence_def)

lemma emit_wire [simp]:
  "s_wire (emit s ev) = s_wire s" "s_wire_sequence (emit s ev) = s_wire_sequence s"
  "s_dropped_wire (emit s ev) = s_dropped_wire s"
  "s_wire_drop_warned (emit s ev) = s_wire_drop_warned s"
  "s_wire_lost_pending (emit s ev) = s_wire_lost_pending s"
  by (simp_all add: emit_def ring_push_event_def next_event_sequence_def Let_def)

lemma emit_simple_core [simp]: "core (emit_simple s type cid now) = core s"
  by (simp add: emit_simple_def)

lemma emit_warning_core [simp]: "core (emit_warning s cid code v txt now) = core s"
  by (simp add: emit_warning_def)

lemma wire_make_room_core [simp]: "core (wire_make_room s) = core s"
  by (simp add: wire_make_room_def Let_def)

lemma wire_ring_push_core [simp]: "core (wire_ring_push s chunk) = core s"
  by (simp add: wire_ring_push_def Let_def)

lemma wire_push_loop_core: "core (wire_push_loop s cid direction data now redact extra_flags r off) = core s"
proof (induction s cid direction data now redact extra_flags r off rule: wire_push_loop.induct)
  case (1 s cid direction data now redact extra_flags r off)
  obtain chunk r1 where ch: "wire_chunk s cid direction data now redact extra_flags r off = (chunk, r1)"
    by fastforce
  have "core (wire_ring_push (s\<lparr>s_wire_sequence := s_wire_sequence s + 1\<rparr>) chunk) = core s"
    by simp
  then show ?case
    using 1 [OF ch [symmetric] refl refl] ch
    by (subst wire_push_loop.simps) (simp add: Let_def)
qed

lemma wire_push_bytes_core [simp]: "core (wire_push_bytes s cid direction data now redact extra_flags) = core s"
  by (simp add: wire_push_bytes_def wire_push_loop_core)

lemma wire_client_core [simp]: "core (wire_client s cid data now) = core s"
  by (simp add: wire_client_def)

lemma wire_meta_core [simp]: "core (wire_meta s ev) = core s"
  by (simp add: wire_meta_def Let_def split: prod.split)

lemma emit_connection_core [simp]: "core (emit_connection s type i cause now) = core s"
  by (simp add: emit_connection_def Let_def)

lemmas emit_sel [simp] = core_selD [OF emit_core]
lemmas emit_simple_sel [simp] = core_selD [OF emit_simple_core]
lemmas emit_warning_sel [simp] = core_selD [OF emit_warning_core]
lemmas wire_push_bytes_sel [simp] = core_selD [OF wire_push_bytes_core]
lemmas wire_client_sel [simp] = core_selD [OF wire_client_core]
lemmas wire_meta_sel [simp] = core_selD [OF wire_meta_core]
lemmas emit_connection_sel [simp] = core_selD [OF emit_connection_core]

text \<open>Sequences of updates: what holds of each intermediate state holds of the last.\<close>

lemma Let_state:
  fixes a :: gsp_server
  assumes "P a" "\<And>x. P x \<Longrightarrow> Q (f x)"
  shows "Q (Let a f)"
  using assms by (simp add: Let_def)

lemma Let_any: "(\<And>x. Q (f x)) \<Longrightarrow> Q (Let a f)"
  by (simp add: Let_def)

section \<open>Connection slots\<close>

lemma conn_cong: "s_conns t = s_conns s \<Longrightarrow> conn t i = conn s i"
  by (simp add: conn_def)

lemma conn_emit [simp]: "conn (emit s ev) i = conn s i"
  and conn_emit_simple [simp]: "conn (emit_simple s type cid now) i = conn s i"
  and conn_emit_warning [simp]: "conn (emit_warning s cid code v txt now) i = conn s i"
  and conn_wire_push_bytes [simp]:
    "conn (wire_push_bytes s cid direction data now redact extra_flags) i = conn s i"
  and conn_wire_client [simp]: "conn (wire_client s cid data now) i = conn s i"
  and conn_emit_connection [simp]: "conn (emit_connection s type k cause now) i = conn s i"
  by (simp_all add: conn_def)

lemma upd_conn_sel [simp]:
  "s_policy (upd_conn i f s) = s_policy s" "s_closed (upd_conn i f s) = s_closed s"
  "s_max_message_bytes (upd_conn i f s) = s_max_message_bytes s"
  "s_rx_capacity (upd_conn i f s) = s_rx_capacity s" "s_now_us (upd_conn i f s) = s_now_us s"
  "s_message_sequence (upd_conn i f s) = s_message_sequence s"
  "s_player (upd_conn i f s) = s_player s" "s_player_set (upd_conn i f s) = s_player_set s"
  "s_session_state (upd_conn i f s) = s_session_state s"
  "s_events (upd_conn i f s) = s_events s" "s_writes (upd_conn i f s) = s_writes s"
  "s_wire (upd_conn i f s) = s_wire s" "s_event_sequence (upd_conn i f s) = s_event_sequence s"
  "s_dropped_events (upd_conn i f s) = s_dropped_events s"
  "s_drop_warned (upd_conn i f s) = s_drop_warned s"
  "length (s_conns (upd_conn i f s)) = length (s_conns s)"
  by (simp_all add: upd_conn_def)

lemma conn_upd_conn: "conn (upd_conn i f s) k = (if k = i \<and> i < length (s_conns s) then f (conn s i) else conn s k)"
  by (cases "i < length (s_conns s)") (simp_all add: conn_def upd_conn_def nth_list_update list_update_beyond)

lemma conn_upd_conn_same [simp]: "i < length (s_conns s) \<Longrightarrow> conn (upd_conn i f s) i = f (conn s i)"
  by (simp add: conn_upd_conn)

lemma conn_upd_conn_other [simp]: "k \<noteq> i \<Longrightarrow> conn (upd_conn i f s) k = conn s k"
  by (simp add: conn_upd_conn)

end
