(* ===== verification/Recorder.thy ===== *)
theory Recorder
  imports ServerCore
begin

text \<open>
  \<^verbatim>\<open>record/gs_record.c\<close>, the container: the little-endian integers, the writer
  (\<^verbatim>\<open>gsp_recorder\<close>) and the reader (\<^verbatim>\<open>gsp_replay\<close>).

  A \<^verbatim>\<open>FILE\<close> open for writing is \<open>out_file\<close>: the bytes it has taken, how many more its
  device takes before a write falls short, whether a flush succeeds, and its error indicator. A
  \<^verbatim>\<open>FILE\<close> open for reading is the list of the bytes not yet read; a read error looks to the
  reader like the end of the file, as it does in C. What \<^verbatim>\<open>calloc\<close> and
  \<^verbatim>\<open>fopen\<close> answer are arguments of the two open functions.
\<close>

section \<open>Streams\<close>

record out_file =
  of_bytes :: bytes
  of_room :: nat
  of_flush_ok :: bool
  of_error :: bool

definition fwrite :: "bytes \<Rightarrow> out_file \<Rightarrow> nat \<times> out_file" where
  "fwrite bs f =
     (let n = min (length bs) (of_room f) in
      (n, f\<lparr>of_bytes := of_bytes f @ take n bs, of_room := of_room f - n,
            of_error := of_error f \<or> n < length bs\<rparr>))"

definition fputs :: "bytes \<Rightarrow> out_file \<Rightarrow> out_file" where
  "fputs bs f = snd (fwrite bs f)"

definition fputc :: "byte \<Rightarrow> out_file \<Rightarrow> out_file" where
  "fputc c f = fputs [c] f"

section \<open>Little-endian, by hand\<close>

definition byte_of :: "'a::len word \<Rightarrow> byte" where
  "byte_of w = char_of (unat (w AND 0xff))"

definition word_of_byte :: "byte \<Rightarrow> 'a::len word" where
  "word_of_byte c = word_of_nat (of_char c)"

definition put_u16 :: "u16 \<Rightarrow> bytes" where
  "put_u16 v = [byte_of v, byte_of (drop_bit 8 v)]"

definition put_u32 :: "u32 \<Rightarrow> bytes" where
  "put_u32 v = [byte_of v, byte_of (drop_bit 8 v), byte_of (drop_bit 16 v), byte_of (drop_bit 24 v)]"

definition put_i64 :: "int \<Rightarrow> bytes" where
  "put_i64 v = (let u = (word_of_int v :: u64) in map (\<lambda>i. byte_of (drop_bit (8 * i) u)) [0..<8])"

definition get_u16 :: "bytes \<Rightarrow> u16" where
  "get_u16 p = word_of_byte (p ! 0) OR push_bit 8 (word_of_byte (p ! 1))"

definition get_u32 :: "bytes \<Rightarrow> u32" where
  "get_u32 p = word_of_byte (p ! 0) OR push_bit 8 (word_of_byte (p ! 1)) OR
     push_bit 16 (word_of_byte (p ! 2)) OR push_bit 24 (word_of_byte (p ! 3))"

definition get_i64 :: "bytes \<Rightarrow> int" where
  "get_i64 p = sint (fold (\<lambda>i u. push_bit 8 u OR (word_of_byte (p ! i) :: u64)) (rev [0..<8]) 0)"

section \<open>Recording info\<close>

abbreviation (input) GSP_RECORD_HEADER_MAX :: nat where "GSP_RECORD_HEADER_MAX \<equiv> 1024"
abbreviation (input) GSP_RECORD_ENTRY_HEADER :: nat where "GSP_RECORD_ENTRY_HEADER \<equiv> 24"
abbreviation (input) GSP_RECORD_CLOCK_MAX :: nat where "GSP_RECORD_CLOCK_MAX \<equiv> 32"
abbreviation (input) GSP_RECORD_NOTE_MAX :: nat where "GSP_RECORD_NOTE_MAX \<equiv> 160"
abbreviation (input) GSP_RECORD_LIBRARY_MAX :: nat where "GSP_RECORD_LIBRARY_MAX \<equiv> 32"

definition GSP_RECORD_MAGIC :: bytes where "GSP_RECORD_MAGIC = ''GSWIRE1''"
definition GSP_RECORD_CLOCK_MONOTONIC :: bytes where "GSP_RECORD_CLOCK_MONOTONIC = ''monotonic_us''"

definition gsp_version_string :: bytes where "gsp_version_string = ''0.1.0''"

record gsp_recording_info =
  ri_library :: bytes
  ri_clock :: bytes
  ri_note :: bytes
  ri_port :: u16
  ri_identifiers_recorded :: bool

definition gsp_recording_info_default :: gsp_recording_info where
  "gsp_recording_info_default =
     \<lparr>ri_library = copy_bounded GSP_RECORD_LIBRARY_MAX (Some gsp_version_string),
      ri_clock = copy_bounded GSP_RECORD_CLOCK_MAX (Some GSP_RECORD_CLOCK_MONOTONIC),
      ri_note = [], ri_port = 0, ri_identifiers_recorded = False\<rparr>"

section \<open>Writer\<close>

record gsp_recorder =
  rc_file :: out_file
  rc_info :: gsp_recording_info
  rc_chunks :: u64
  rc_bytes :: u64
  rc_first_error :: gsp_status
  rc_error :: bytes

definition recorder_fail :: "gsp_recorder \<Rightarrow> gsp_status \<Rightarrow> bytes \<Rightarrow> gsp_recorder" where
  "recorder_fail r st what =
     (if \<not> failed (rc_first_error r)
      then r\<lparr>rc_first_error := st, rc_error := copy_bounded 128 (Some what)\<rparr> else r)"

definition write_header_value :: "bytes \<Rightarrow> bytes \<Rightarrow> out_file \<Rightarrow> out_file" where
  "write_header_value key value f =
     fputc LF (fold (\<lambda>c. fputc (if c = LF \<or> c = CR then SPACE else c)) value
       (fputc CHR ''='' (fputs key f)))"

text \<open>The header \<^verbatim>\<open>gsp_recorder_open\<close> writes.\<close>

definition write_header :: "gsp_recording_info \<Rightarrow> out_file \<Rightarrow> out_file" where
  "write_header info f =
     (let f = fputs (GSP_RECORD_MAGIC @ [LF]) f;
          f = write_header_value ''library'' (ri_library info) f;
          f = write_header_value ''clock'' (ri_clock info) f;
          f = write_header_value ''byte_order'' ''little'' f;
          f = write_header_value ''identifiers''
                (if ri_identifiers_recorded info then ''recorded'' else ''redacted'') f;
          f = write_header_value ''port'' (dec_digits (uint (ri_port info))) f;
          f = (if ri_note info \<noteq> [] then write_header_value ''note'' (ri_note info) f else f)
      in fputc LF f)"

text \<open>The defaults \<^verbatim>\<open>gsp_recorder_open\<close> gives an info that leaves them out.\<close>

definition fill_info :: "gsp_recording_info option \<Rightarrow> gsp_recording_info" where
  "fill_info info =
     (let i = (case info of Some i \<Rightarrow> i | None \<Rightarrow> gsp_recording_info_default);
          i = (if ri_library i = []
               then i\<lparr>ri_library := copy_bounded GSP_RECORD_LIBRARY_MAX (Some gsp_version_string)\<rparr> else i)
      in if ri_clock i = []
         then i\<lparr>ri_clock := copy_bounded GSP_RECORD_CLOCK_MAX (Some GSP_RECORD_CLOCK_MONOTONIC)\<rparr> else i)"

definition gsp_recorder_open ::
  "bool \<Rightarrow> (bytes \<Rightarrow> out_file option) \<Rightarrow> bytes option \<Rightarrow> gsp_recording_info option \<Rightarrow>
   gsp_status + gsp_recorder" where
  "gsp_recorder_open alloc_ok fopen path info =
     (case path of
        None \<Rightarrow> Inl GSP_ERR_INVALID_ARG
      | Some p \<Rightarrow>
          if \<not> alloc_ok then Inl GSP_ERR_NO_MEMORY
          else
            (case fopen p of
               None \<Rightarrow> Inl GSP_ERR_INVALID_STATE
             | Some f \<Rightarrow>
                 (let i = fill_info info;
                      f = write_header i f;
                      r = \<lparr>rc_file = f, rc_info = i, rc_chunks = 0, rc_bytes = 0,
                           rc_first_error = GSP_OK, rc_error = []\<rparr>
                  in Inr (if of_error f
                          then recorder_fail r GSP_ERR_INVALID_STATE ''the header could not be written''
                          else r))))"

text \<open>The 24 bytes in front of a payload.\<close>

definition entry_head :: "gsp_wire_chunk \<Rightarrow> bytes" where
  "entry_head c =
     put_u32 (of_nat (length (wc_data c))) @ [byte_of (wc_direction c)] @ [byte_of (wc_flags c)] @ put_u16 0 @
     put_u32 (wc_sequence c) @ put_u32 (wc_conn c) @ put_i64 (wc_host_time_us c)"

text \<open>The body of the write loop: \<open>Inl\<close> is the early return on a short write.\<close>

definition write_entry :: "gsp_wire_chunk \<Rightarrow> gsp_recorder \<Rightarrow> gsp_recorder + gsp_recorder" where
  "write_entry c r =
     (case fwrite (entry_head c) (rc_file r) of (n, f) \<Rightarrow>
        (let r = r\<lparr>rc_file := f\<rparr> in
         if n \<noteq> GSP_RECORD_ENTRY_HEADER
         then Inl (recorder_fail r GSP_ERR_INVALID_STATE ''a record header could not be written'')
         else
           (case (if wc_data c = [] then (0, rc_file r) else fwrite (wc_data c) (rc_file r)) of (n, f) \<Rightarrow>
              (let r = r\<lparr>rc_file := f\<rparr> in
               if n \<noteq> length (wc_data c)
               then Inl (recorder_fail r GSP_ERR_INVALID_STATE ''a record payload could not be written'')
               else Inr (r\<lparr>rc_chunks := rc_chunks r + 1,
                           rc_bytes := rc_bytes r + (24 + of_nat (length (wc_data c)))\<rparr>)))))"

primrec write_entries :: "gsp_wire_chunk list \<Rightarrow> gsp_recorder \<Rightarrow> gsp_recorder + gsp_recorder" where
  "write_entries [] r = Inr r"
| "write_entries (c # cs) r = (case write_entry c r of Inl r \<Rightarrow> Inl r | Inr r \<Rightarrow> write_entries cs r)"

definition gsp_recorder_write :: "gsp_recorder \<Rightarrow> gsp_wire_chunk list \<Rightarrow> gsp_status \<times> gsp_recorder" where
  "gsp_recorder_write r chunks =
     (if list_ex (\<lambda>c. GSP_WIRE_CHUNK_MAX < length (wc_data c)) chunks then (GSP_ERR_INVALID_ARG, r)
      else
        (case write_entries chunks r of
           Inl r \<Rightarrow> (rc_first_error r, r)
         | Inr r \<Rightarrow>
             (let r = (if chunks \<noteq> [] \<and> \<not> of_flush_ok (rc_file r)
                       then recorder_fail r GSP_ERR_INVALID_STATE ''the capture could not be flushed'' else r)
              in (if failed (rc_first_error r) then rc_first_error r else GSP_OK, r))))"

definition gsp_recorder_close :: "gsp_recorder \<Rightarrow> gsp_status \<times> out_file" where
  "gsp_recorder_close r =
     (let r = (if \<not> of_flush_ok (rc_file r) \<or> of_error (rc_file r)
               then recorder_fail r GSP_ERR_INVALID_STATE ''the capture could not be flushed'' else r)
      in (if failed (rc_first_error r) then rc_first_error r else GSP_OK, rc_file r))"

definition gsp_recorder_chunks :: "gsp_recorder \<Rightarrow> u64" where
  "gsp_recorder_chunks r = rc_chunks r"

definition gsp_recorder_bytes :: "gsp_recorder \<Rightarrow> u64" where
  "gsp_recorder_bytes r = rc_bytes r"

definition gsp_recorder_error :: "gsp_recorder \<Rightarrow> bytes" where
  "gsp_recorder_error r = rc_error r"

section \<open>Reader\<close>

record gsp_replay =
  rp_file :: bytes
  rp_info :: gsp_recording_info
  rp_chunks :: u64
  rp_status :: gsp_status
  rp_error :: bytes

definition replay_fail :: "gsp_replay \<Rightarrow> gsp_status \<Rightarrow> bytes \<Rightarrow> gsp_replay" where
  "replay_fail r st what =
     (if \<not> failed (rp_status r) then r\<lparr>rp_status := st, rp_error := copy_bounded 128 (Some what)\<rparr> else r)"

text \<open>
  \<^verbatim>\<open>read_line\<close>: the bytes left, what is in \<^verbatim>\<open>out\<close> so far, \<^verbatim>\<open>n\<close> and
  \<^verbatim>\<open>*consumed\<close>. The result is the answer, the array before the NUL the function puts after
  it, the bytes left and \<^verbatim>\<open>*consumed\<close>.
\<close>

fun read_line :: "nat \<Rightarrow> bytes \<Rightarrow> bytes \<Rightarrow> nat \<Rightarrow> nat \<Rightarrow> bool \<times> bytes \<times> bytes \<times> nat" where
  "read_line cap [] out n k = (0 < n, out, [], k)"
| "read_line cap (c # cs) out n k =
     (if c = LF then (True, out, cs, k + 1)
      else read_line cap cs (if n + 1 < cap then out @ [c] else out) (n + 1) (k + 1))"

lemma read_line_rest: "read_line cap cs out n k = (ok, ln, rest, k') \<Longrightarrow> length rest \<le> length cs - 1"
  by (induction cap cs out n k rule: read_line.induct) (auto split: if_splits)

lemma read_line_shorter:
  assumes "read_line cap cs out 0 k = (True, ln, rest, k')"
  shows "length rest < length cs"
  using assms read_line_rest [OF assms] by (cases cs) auto

text \<open>\<^verbatim>\<open>strtoul (value, NULL, 10)\<close> where \<^verbatim>\<open>unsigned long\<close> has 64 bits.\<close>

definition is_space :: "byte \<Rightarrow> bool" where
  "is_space c \<longleftrightarrow> c = SPACE \<or> 9 \<le> ord c \<and> ord c \<le> 13"

definition digits_value :: "bytes \<Rightarrow> nat" where
  "digits_value ds = fold (\<lambda>c v. 10 * v + (of_char c - 48)) ds 0"

definition strtoul :: "bytes \<Rightarrow> u64" where
  "strtoul s =
     (let s = dropWhile is_space s;
          neg = (s \<noteq> [] \<and> hd s = CHR ''-'');
          s = (if s \<noteq> [] \<and> (hd s = CHR ''-'' \<or> hd s = CHR ''+'') then tl s else s);
          v = digits_value (takeWhile is_digit s)
      in if 2 ^ 64 \<le> v then - 1 else if neg then - of_nat v else of_nat v)"

text \<open>One \<^verbatim>\<open>key=value\<close> line of the header.\<close>

definition header_key :: "bytes \<Rightarrow> bytes \<Rightarrow> gsp_recording_info \<Rightarrow> gsp_status + gsp_recording_info" where
  "header_key key value info =
     (if key = ''library'' then Inr (info\<lparr>ri_library := copy_bounded GSP_RECORD_LIBRARY_MAX (Some value)\<rparr>)
      else if key = ''clock'' then Inr (info\<lparr>ri_clock := copy_bounded GSP_RECORD_CLOCK_MAX (Some value)\<rparr>)
      else if key = ''note'' then Inr (info\<lparr>ri_note := copy_bounded GSP_RECORD_NOTE_MAX (Some value)\<rparr>)
      else if key = ''identifiers'' then Inr (info\<lparr>ri_identifiers_recorded := (value = ''recorded'')\<rparr>)
      else if key = ''port'' then Inr (info\<lparr>ri_port := ucast (strtoul value)\<rparr>)
      else if key = ''byte_order'' then (if value \<noteq> ''little'' then Inl GSP_ERR_NOT_SUPPORTED else Inr info)
      else Inr info)"

definition header_line :: "bytes \<Rightarrow> gsp_recording_info \<Rightarrow> gsp_status + gsp_recording_info" where
  "header_line ln info =
     (if CHR ''='' \<in> set ln
      then header_key (takeWhile (\<lambda>c. c \<noteq> CHR ''='') ln) (tl (dropWhile (\<lambda>c. c \<noteq> CHR ''='') ln)) info
      else Inr info)"

function header_loop :: "gsp_recording_info \<Rightarrow> nat \<Rightarrow> bytes \<Rightarrow> gsp_status + gsp_recording_info \<times> bytes" where
  "header_loop info consumed file =
     (if GSP_RECORD_HEADER_MAX < consumed then Inl GSP_ERR_BUFFER_TOO_SMALL
      else
        (case read_line GSP_RECORD_HEADER_MAX file [] 0 consumed of (ok, ln, rest, consumed) \<Rightarrow>
           if \<not> ok then Inl GSP_ERR_MALFORMED
           else if cstr ln = [] then Inr (info, rest)
           else
             (case header_line (cstr ln) info of
                Inl st \<Rightarrow> Inl st
              | Inr info \<Rightarrow> header_loop info consumed rest)))"
  by pat_completeness auto
termination
  by (relation "measure (\<lambda>(info, consumed, file). length file)")
    (auto dest!: sym [of _ "read_line _ _ _ _ _"] read_line_shorter)

declare header_loop.simps [simp del]

definition gsp_replay_open ::
  "bool \<Rightarrow> (bytes \<Rightarrow> bytes option) \<Rightarrow> bytes option \<Rightarrow> gsp_status + gsp_replay" where
  "gsp_replay_open alloc_ok fopen path =
     (case path of
        None \<Rightarrow> Inl GSP_ERR_INVALID_ARG
      | Some p \<Rightarrow>
          if \<not> alloc_ok then Inl GSP_ERR_NO_MEMORY
          else
            (case fopen p of
               None \<Rightarrow> Inl GSP_ERR_INVALID_STATE
             | Some file \<Rightarrow>
                 (case read_line GSP_RECORD_HEADER_MAX file [] 0 0 of (ok, ln, file, consumed) \<Rightarrow>
                    if \<not> ok \<or> cstr ln \<noteq> GSP_RECORD_MAGIC then Inl GSP_ERR_MALFORMED
                    else
                      (case header_loop (gsp_recording_info_default\<lparr>ri_library := []\<rparr>) consumed file of
                         Inl st \<Rightarrow> Inl st
                       | Inr (info, file) \<Rightarrow>
                           Inr \<lparr>rp_file = file, rp_info = info, rp_chunks = 0, rp_status = GSP_OK,
                                rp_error = []\<rparr>))))"

definition gsp_replay_info :: "gsp_replay \<Rightarrow> gsp_recording_info" where
  "gsp_replay_info r = rp_info r"

text \<open>The loop of \<^verbatim>\<open>gsp_replay_read\<close>; \<open>left\<close> is \<^verbatim>\<open>max - n\<close>.\<close>

fun replay_read_loop :: "nat \<Rightarrow> gsp_replay \<Rightarrow> gsp_wire_chunk list \<times> gsp_replay" where
  "replay_read_loop 0 r = ([], r)"
| "replay_read_loop (Suc left) r =
     (let head = take GSP_RECORD_ENTRY_HEADER (rp_file r);
          rest = drop GSP_RECORD_ENTRY_HEADER (rp_file r);
          n = unat (get_u32 head);
          data = take n rest
      in if head = [] then ([], r\<lparr>rp_status := GSP_PENDING\<rparr>)
         else if length head \<noteq> GSP_RECORD_ENTRY_HEADER
         then ([], replay_fail (r\<lparr>rp_file := rest\<rparr>) GSP_ERR_BUFFER_TOO_SMALL
                     ''the file ends inside a record header'')
         else if GSP_WIRE_CHUNK_MAX < n
         then ([], replay_fail (r\<lparr>rp_file := rest\<rparr>) GSP_ERR_MALFORMED
                     ''a record claims more than GSP_WIRE_CHUNK_MAX'')
         else if length data \<noteq> n
         then ([], replay_fail (r\<lparr>rp_file := drop n rest\<rparr>) GSP_ERR_BUFFER_TOO_SMALL
                     ''the file ends inside a record payload'')
         else
           (case replay_read_loop left (r\<lparr>rp_file := drop n rest, rp_chunks := rp_chunks r + 1\<rparr>) of
              (cs, r) \<Rightarrow>
                (\<lparr>wc_host_time_us = get_i64 (drop 16 head), wc_conn = get_u32 (drop 12 head),
                  wc_direction = word_of_byte (head ! 4), wc_flags = word_of_byte (head ! 5),
                  wc_sequence = get_u32 (drop 8 head), wc_data = data\<rparr> # cs, r)))"

declare replay_read_loop.simps(2) [simp del]

definition gsp_replay_read :: "gsp_replay \<Rightarrow> nat \<Rightarrow> gsp_wire_chunk list \<times> gsp_replay" where
  "gsp_replay_read r max_n = (if rp_status r \<noteq> GSP_OK then ([], r) else replay_read_loop max_n r)"

definition gsp_replay_status :: "gsp_replay \<Rightarrow> gsp_status" where
  "gsp_replay_status r = rp_status r"

definition gsp_replay_error :: "gsp_replay \<Rightarrow> bytes" where
  "gsp_replay_error r = rp_error r"

definition gsp_replay_chunks_read :: "gsp_replay \<Rightarrow> u64" where
  "gsp_replay_chunks_read r = rp_chunks r"

end
