(* ===== verification/Server.thy ===== *)
theory Server
  imports ServerCore
begin

text \<open>
  The rest of \<^verbatim>\<open>src/gs_server.c\<close>: the write ring, what the server sends, delivery of a
  message, framing of the pending bytes and every entry point of
  \<^verbatim>\<open>include/gspro/server.h\<close>. The loops' termination
  needs what delivery leaves alone, which is here; all other lemmas are in the theories
  \<open>ServerSteps\<close> to \<open>ServerChunk\<close>.
\<close>

section \<open>The write ring\<close>

definition write_ring_full :: "gsp_server \<Rightarrow> bool" where
  "write_ring_full s \<longleftrightarrow> ring_cap (s_writes s) \<le> rg_count (s_writes s)"

definition queue_write ::
  "gsp_server \<Rightarrow> gsp_conn_id \<Rightarrow> gsp_write_kind \<Rightarrow> int \<Rightarrow> bytes \<Rightarrow> gsp_player_info option \<Rightarrow>
   bool \<times> gsp_server" where
  "queue_write s cid kind code message player =
     (if write_ring_full s then (False, s)
      else
        (let w = ring_nth (s_writes s) (rg_count (s_writes s)) in
         case gsp_response_encode code (Some message) player (w_data w) of
           (st, data, written) \<Rightarrow>
             if failed st then (False, s)
             else
               (True, s\<lparr>s_writes := ring_put (s_writes s)
                  \<lparr>w_conn = cid, w_length = of_nat (case written of Some n \<Rightarrow> n | None \<Rightarrow> 0),
                   w_kind = kind, w_data = data\<rparr>\<rparr>)))"

definition drop_writes_for :: "gsp_server \<Rightarrow> gsp_conn_id \<Rightarrow> gsp_server" where
  "drop_writes_for s cid = s\<lparr>s_writes := ring_compact (\<lambda>w. w_conn w = cid) (s_writes s)\<rparr>"

section \<open>Player information and session state\<close>

definition player_has_anything :: "gsp_player_info \<Rightarrow> bool" where
  "player_has_anything p \<longleftrightarrow> p_handed p \<noteq> GSP_HANDED_UNKNOWN \<or> p_club p \<noteq> GSP_CLUB_UNKNOWN \<or>
     p_has_distance p \<or> p_surface p \<noteq> []"

definition send_player_to ::
  "gsp_server \<Rightarrow> nat \<Rightarrow> gsp_player_info \<Rightarrow> gsp_player_info_reason \<Rightarrow> gsp_time_us \<Rightarrow> gsp_server" where
  "send_player_to s i p reason now =
     (case queue_write s (conn_id s i) GSP_WRITE_PLAYER_INFO GSP_CODE_PLAYER_INFO
             GSP_TEXT_PLAYER_INFO (Some p) of
        (queued, s) \<Rightarrow>
          if \<not> queued then s
          else emit s (new_event GSP_EV_PLAYER_INFO_SENT (conn_id s i) now (EV_PLAYER_INFO p reason)))"

definition send_session_to ::
  "gsp_server \<Rightarrow> nat \<Rightarrow> gsp_session_state \<Rightarrow> gsp_player_info_reason \<Rightarrow> gsp_time_us \<Rightarrow> gsp_server" where
  "send_session_to s i state reason now =
     (case (if state = GSP_SESSION_ACTIVE then Some (GSP_WRITE_READY, GSP_CODE_READY, GSP_TEXT_READY)
            else if state = GSP_SESSION_ENDED
            then Some (GSP_WRITE_ROUND_ENDED, GSP_CODE_ROUND_ENDED, GSP_TEXT_ROUND_ENDED)
            else None) of
        None \<Rightarrow> s
      | Some (kind, code, txt) \<Rightarrow>
          (case queue_write s (conn_id s i) kind code txt None of
             (queued, s) \<Rightarrow>
               if \<not> queued then s
               else emit s (new_event GSP_EV_SESSION_STATE_SENT (conn_id s i) now
                      (EV_SESSION_STATE state reason))))"

section \<open>Protocol errors\<close>

definition protocol_error ::
  "gsp_server \<Rightarrow> nat \<Rightarrow> gsp_protocol_error_reason \<Rightarrow> bytes \<Rightarrow> nat \<Rightarrow> gsp_time_us \<Rightarrow> gsp_server" where
  "protocol_error s i reason snippet discarded now =
     (let s = wire_client s (conn_id s i) snippet now;
          s = upd_info i (\<lambda>n. n\<lparr>ci_protocol_errors := ci_protocol_errors n + 1,
                                 ci_consecutive_errors := ci_consecutive_errors n + 1\<rparr>) s;
          txt = (if reason = GSP_PE_TOO_LARGE then GSP_TEXT_TOO_LARGE else GSP_TEXT_BAD_JSON);
          s = snd (queue_write s (conn_id s i) GSP_WRITE_FAILURE GSP_CODE_FAILURE txt None);
          consecutive = ci_consecutive_errors (c_info (conn s i));
          pe = \<lparr>pe_reason = reason, pe_discarded_bytes = word_of_int (min (int discarded) 0xffffffff),
                pe_consecutive = consecutive, pe_snippet = take GSP_ERROR_SNIPPET_MAX snippet\<rparr>;
          s = emit s (new_event GSP_EV_PROTOCOL_ERROR (conn_id s i) now (EV_PROTOCOL_ERROR pe))
      in if 0 < protocol_error_close_threshold (s_policy s) \<and>
            consecutive = protocol_error_close_threshold (s_policy s)
         then emit s (new_event GSP_EV_CLOSE_REQUESTED (conn_id s i) now (EV_PROTOCOL_ERROR pe))
         else s)"

section \<open>One decoded message\<close>

definition note_identity :: "gsp_server \<Rightarrow> nat \<Rightarrow> gsp_message \<Rightarrow> gsp_time_us \<Rightarrow> gsp_server" where
  "note_identity s i m now =
     (if m_device_id m = [] then s
      else if \<not> ci_identified (c_info (conn s i)) then
        emit_connection
          (upd_info i (\<lambda>n. n\<lparr>ci_identified := True,
             ci_device_id := copy_bounded GSP_DEVICE_ID_MAX (Some (m_device_id m))\<rparr>) s)
          GSP_EV_CLIENT_IDENTIFIED i GSP_CLOSE_UNKNOWN now
      else if ci_device_id (c_info (conn s i)) \<noteq> m_device_id m then
        emit_warning s (conn_id s i) GSP_WARN_DEVICE_ID_CHANGED 0
          ''a later message named a different DeviceID'' now
      else s)"

definition note_client_state :: "gsp_server \<Rightarrow> nat \<Rightarrow> gsp_message \<Rightarrow> gsp_time_us \<Rightarrow> gsp_server" where
  "note_client_state s i m now =
     (let info = c_info (conn s i);
          opt = m_options m;
          ready = (if o_present opt AND GSP_OPT_LAUNCH_MONITOR_IS_READY \<noteq> 0
                   then o_launch_monitor_is_ready opt else ci_ready info);
          detected = (if o_present opt AND GSP_OPT_LAUNCH_MONITOR_BALL_DETECTED \<noteq> 0
                      then o_launch_monitor_ball_detected opt else ci_ball_detected info)
      in if ready = ci_ready info \<and> detected = ci_ball_detected info then s
         else
           emit (upd_info i (\<lambda>n. n\<lparr>ci_ready := ready, ci_ball_detected := detected\<rparr>) s)
             (new_event GSP_EV_CLIENT_STATE (ci_conn info) now
               (EV_CLIENT_STATE \<lparr>cs_ready = ready, cs_ball_detected = detected,
                  cs_previous_ready = ci_ready info,
                  cs_previous_ball_detected = ci_ball_detected info\<rparr>)))"

definition event_for_kind :: "gsp_message_kind \<Rightarrow> gsp_event_type" where
  "event_for_kind kind =
     (if kind = GSP_MSG_SHOT then GSP_EV_SHOT
      else if kind = GSP_MSG_HEARTBEAT then GSP_EV_HEARTBEAT
      else GSP_EV_STATUS)"

text \<open>
  The counters a delivered message moves: what \<^verbatim>\<open>deliver_message\<close> does to
  \<^verbatim>\<open>c->info\<close> and to the message before it replies.
\<close>

definition stamp_message :: "gsp_server \<Rightarrow> nat \<Rightarrow> gsp_message \<Rightarrow> gsp_time_us \<Rightarrow> gsp_message" where
  "stamp_message s i m now =
     (let info = c_info (conn s i);
          m = m\<lparr>m_conn := ci_conn info, m_sequence := s_message_sequence s, m_host_recv_us := now\<rparr>
      in if m_kind m = GSP_MSG_SHOT \<and> ci_last_shot_number info \<noteq> INT64_MIN \<and>
            m_shot_number m = ci_last_shot_number info
         then m\<lparr>m_flags := m_flags m OR GSP_MSGF_SHOT_NUMBER_REPEATED\<rparr>
         else m)"

definition count_message :: "gsp_message \<Rightarrow> gsp_time_us \<Rightarrow> gsp_connection_info \<Rightarrow> gsp_connection_info" where
  "count_message m now info =
     (let info = info\<lparr>ci_messages := ci_messages info + 1, ci_last_message_us := now,
                      ci_consecutive_errors := 0\<rparr>
      in if m_kind m = GSP_MSG_SHOT
         then info\<lparr>ci_last_shot_number := m_shot_number m, ci_shots := ci_shots info + 1\<rparr>
         else info)"

definition reply_to :: "gsp_server \<Rightarrow> nat \<Rightarrow> gsp_message \<Rightarrow> gsp_server" where
  "reply_to s i m =
     snd (if reject_incomplete_shots (s_policy s) \<and> m_flags m AND GSP_MSGF_BALL_INCOMPLETE \<noteq> 0
          then queue_write s (conn_id s i) GSP_WRITE_FAILURE GSP_CODE_FAILURE GSP_TEXT_INCOMPLETE None
          else queue_write s (conn_id s i) GSP_WRITE_ACK GSP_CODE_SHOT_RECEIVED
                 (if ack_text (s_policy s) \<noteq> [] then ack_text (s_policy s) else GSP_TEXT_SHOT_RECEIVED)
                 None)"

definition note_active :: "gsp_server \<Rightarrow> nat \<Rightarrow> gsp_time_us \<Rightarrow> gsp_server" where
  "note_active s i now =
     (if c_idle_reported (conn s i)
      then emit_simple (upd_conn i (\<lambda>c. c\<lparr>c_idle_reported := False\<rparr>) s) GSP_EV_CLIENT_ACTIVE
             (conn_id s i) now
      else s)"

text \<open>
  \<^verbatim>\<open>deliver_message\<close>: the object is \<open>json\<close>. The order is the source's: the wire log, the
  counters, the reply, then the events.
\<close>

definition deliver_message :: "gsp_server \<Rightarrow> nat \<Rightarrow> bytes \<Rightarrow> gsp_time_us \<Rightarrow> bool \<times> gsp_server" where
  "deliver_message s i json now =
     (case gsp_message_decode json (length json) of
        Inl st \<Rightarrow> (False, protocol_error s i GSP_PE_BAD_JSON json (length json) now)
      | Inr m0 \<Rightarrow>
          (let s = wire_client s (conn_id s i) json now;
               m = stamp_message s i m0 now;
               s = s\<lparr>s_message_sequence := s_message_sequence s + 1\<rparr>;
               s = upd_info i (count_message m now) s;
               s = reply_to s i m;
               s = note_active s i now;
               s = note_identity s i m now;
               s = note_client_state s i m now
           in (True, emit s (new_event (event_for_kind (m_kind m)) (conn_id s i) now (EV_MESSAGE m)))))"

section \<open>What delivery leaves alone\<close>

text \<open>
  The receive side of every slot: its owner, its framer and its pending bytes. Delivering a
  message, reporting an error and queueing a reply leave it as it is; framing depends on that.
\<close>

definition rx_side :: "gs_conn \<Rightarrow> bool \<times> gsp_conn_id \<times> gs_framer \<times> bytes \<times> nat" where
  "rx_side c = (c_used c, ci_conn (c_info c), c_framer c, c_rx c, c_scan c)"

definition rx_sides :: "gsp_server \<Rightarrow> (bool \<times> gsp_conn_id \<times> gs_framer \<times> bytes \<times> nat) list" where
  "rx_sides s = map rx_side (s_conns s)"

lemma rx_sides_core: "s_conns t = s_conns s \<Longrightarrow> rx_sides t = rx_sides s"
  by (simp add: rx_sides_def)

lemma rx_sides_upd_conn:
  assumes "\<And>c. rx_side (f c) = rx_side c"
  shows "rx_sides (upd_conn i f s) = rx_sides s"
proof (cases "i < length (s_conns s)")
  case True
  then show ?thesis
    by (simp add: rx_sides_def upd_conn_def map_update assms conn_def list_update_same_conv)
next
  case False
  then show ?thesis by (simp add: rx_sides_def upd_conn_def list_update_beyond)
qed

lemma rx_sides_upd_info:
  assumes "\<And>n. ci_conn (f n) = ci_conn n"
  shows "rx_sides (upd_info i f s) = rx_sides s"
  unfolding upd_info_def by (rule rx_sides_upd_conn) (simp add: rx_side_def assms)

lemma rx_sides_D:
  assumes "rx_sides t = rx_sides s"
  shows "length (s_conns t) = length (s_conns s)"
    "i < length (s_conns s) \<Longrightarrow> rx_side (conn t i) = rx_side (conn s i)"
proof -
  show len: "length (s_conns t) = length (s_conns s)"
    using arg_cong [OF assms, of length] by (simp add: rx_sides_def)
  show "rx_side (conn t i) = rx_side (conn s i)" if "i < length (s_conns s)"
    using arg_cong [OF assms, of "\<lambda>xs. xs ! i"] that len by (simp add: rx_sides_def conn_def)
qed

lemma queue_write_conns [simp]: "s_conns (snd (queue_write s cid kind code message player)) = s_conns s"
  by (simp add: queue_write_def Let_def split: prod.split)

lemma rx_sides_queue_write [simp]: "rx_sides (snd (queue_write s cid kind code message player)) = rx_sides s"
  by (rule rx_sides_core) simp

lemma rx_sides_emit [simp]: "rx_sides (emit s ev) = rx_sides s"
  and rx_sides_emit_simple [simp]: "rx_sides (emit_simple s type cid now) = rx_sides s"
  and rx_sides_emit_warning [simp]: "rx_sides (emit_warning s cid code v txt now) = rx_sides s"
  and rx_sides_wire_client [simp]: "rx_sides (wire_client s cid data now) = rx_sides s"
  and rx_sides_emit_connection [simp]: "rx_sides (emit_connection s type i cause now) = rx_sides s"
  by (rule rx_sides_core, simp)+

lemmas keep_rx = Let_state [where P = "\<lambda>t. rx_sides t = r" and Q = "\<lambda>t. rx_sides t = r" for r]
lemmas keep_rx_any = Let_any [where Q = "\<lambda>t. rx_sides t = r" for r]
lemmas keep_rx_snd = Let_state [where P = "\<lambda>t. rx_sides t = r" and Q = "\<lambda>t. rx_sides (snd t) = r" for r]
lemmas keep_rx_snd_any = Let_any [where Q = "\<lambda>t. rx_sides (snd t) = r" for r]

lemma rx_sides_protocol_error [simp]: "rx_sides (protocol_error s i reason snippet discarded now) = rx_sides s"
  unfolding protocol_error_def
  by (rule keep_rx keep_rx_any | simp add: rx_sides_upd_info)+

lemma rx_sides_note_identity [simp]: "rx_sides (note_identity s i m now) = rx_sides s"
  by (simp add: note_identity_def rx_sides_upd_info)

lemma rx_sides_note_client_state [simp]: "rx_sides (note_client_state s i m now) = rx_sides s"
  by (simp add: note_client_state_def Let_def rx_sides_upd_info)

lemma rx_sides_note_active [simp]: "rx_sides (note_active s i now) = rx_sides s"
  by (simp add: note_active_def rx_sides_upd_conn rx_side_def)

lemma rx_sides_reply_to [simp]: "rx_sides (reply_to s i m) = rx_sides s"
  by (simp add: reply_to_def)

lemma count_message_conn [simp]: "ci_conn (count_message m now info) = ci_conn info"
  by (simp add: count_message_def Let_def)

lemma rx_sides_message_sequence [simp]: "rx_sides (s\<lparr>s_message_sequence := n\<rparr>) = rx_sides s"
  by (simp add: rx_sides_def)

lemma rx_sides_deliver_message [simp]: "rx_sides (snd (deliver_message s i json now)) = rx_sides s"
proof (cases "gsp_message_decode json (length json)")
  case (Inr m0)
  then show ?thesis
    unfolding deliver_message_def
    by simp (rule keep_rx_snd keep_rx_snd_any | simp add: rx_sides_upd_info)+
qed (simp add: deliver_message_def)

section \<open>Framing the pending buffer\<close>

definition compact :: "gs_conn \<Rightarrow> gs_conn" where
  "compact c = c\<lparr>c_rx := drop (c_scan c) (c_rx c), c_scan := 0\<rparr>"

definition reset_rx :: "gs_conn \<Rightarrow> gs_conn" where
  "reset_rx c = c\<lparr>c_rx := [], c_scan := 0, c_framer := gs_framer_reset\<rparr>"

text \<open>
  One turn of the loop of \<^verbatim>\<open>frame_pending\<close>: \<open>Inr\<close> goes round again, \<open>Inl\<close> returns with
  the status and the value of \<^verbatim>\<open>*discarded\<close>.
\<close>

definition take_step ::
  "gsp_server \<Rightarrow> nat \<Rightarrow> gsp_time_us \<Rightarrow> (gsp_status \<times> bool \<times> gsp_server) + gsp_server" where
  "take_step s i now =
     (let c = conn s i in
      case gs_framer_feed (c_framer c) (c_rx c ! c_scan c) of (f, step) \<Rightarrow>
        if step = GS_FRAME_GARBAGE then
          (let n = length (c_rx c) - c_scan c in
           Inl (GSP_OK, True, upd_conn i reset_rx
             (protocol_error s i GSP_PE_LEADING_GARBAGE (drop (c_scan c) (c_rx c)) n now)))
        else
          (let s = upd_conn i (\<lambda>c. c\<lparr>c_framer := f, c_scan := c_scan c + 1\<rparr>) s;
               c = conn s i
           in if step = GS_FRAME_CLOSE then
                (case deliver_message s i (take (c_scan c) (c_rx c)) now of
                   (True, s) \<Rightarrow> Inr (upd_conn i compact s)
                 | (False, s) \<Rightarrow> Inl (GSP_OK, True, upd_conn i reset_rx s))
              else if s_max_message_bytes s < c_scan c then
                Inl (GSP_OK, True, upd_conn i reset_rx
                  (protocol_error s i GSP_PE_TOO_LARGE (take (c_scan c) (c_rx c)) (length (c_rx c)) now))
              else Inr s))"

definition frame_step ::
  "gsp_server \<Rightarrow> nat \<Rightarrow> gsp_time_us \<Rightarrow> (gsp_status \<times> bool \<times> gsp_server) + gsp_server" where
  "frame_step s i now =
     (let c = conn s i; b = c_rx c ! c_scan c in
      if gs_framer_in_message (c_framer c) then take_step s i now
      else if b = SPACE \<or> b = TAB \<or> b = LF \<or> b = CR
      then Inr (upd_conn i (\<lambda>c. c\<lparr>c_scan := c_scan c + 1\<rparr>) s)
      else if write_ring_full s then Inl (GSP_ERR_QUEUE_FULL, False, upd_conn i compact s)
      else take_step (upd_conn i compact s) i now)"

text \<open>The bytes the framer has not seen: each turn of the loop takes one.\<close>

definition unseen :: "gsp_server \<Rightarrow> nat \<Rightarrow> nat" where
  "unseen s i = length (c_rx (conn s i)) - c_scan (conn s i)"

lemma take_step_feed:
  assumes "gs_framer_feed (c_framer (conn s i)) (c_rx (conn s i) ! c_scan (conn s i)) = (f, step)"
    and "s1 = upd_conn i (\<lambda>c. c\<lparr>c_framer := f, c_scan := c_scan c + 1\<rparr>) s"
    and "obj = take (c_scan (conn s1 i)) (c_rx (conn s1 i))"
  shows "take_step s i now =
    (if step = GS_FRAME_GARBAGE then
       Inl (GSP_OK, True, upd_conn i reset_rx
         (protocol_error s i GSP_PE_LEADING_GARBAGE (drop (c_scan (conn s i)) (c_rx (conn s i)))
           (unseen s i) now))
     else if step = GS_FRAME_CLOSE then
       (if fst (deliver_message s1 i obj now)
        then Inr (upd_conn i compact (snd (deliver_message s1 i obj now)))
        else Inl (GSP_OK, True, upd_conn i reset_rx (snd (deliver_message s1 i obj now))))
     else if s_max_message_bytes s < c_scan (conn s1 i) then
       Inl (GSP_OK, True, upd_conn i reset_rx
         (protocol_error s1 i GSP_PE_TOO_LARGE obj (length (c_rx (conn s1 i))) now))
     else Inr s1)"
  using assms by (simp add: take_step_def Let_def unseen_def case_prod_beta split: bool.split)

lemma take_step_unseen:
  assumes "take_step s i now = Inr t" "i < length (s_conns s)" "c_scan (conn s i) < length (c_rx (conn s i))"
  shows "unseen t i < unseen s i"
proof -
  obtain f step where feed:
    "gs_framer_feed (c_framer (conn s i)) (c_rx (conn s i) ! c_scan (conn s i)) = (f, step)" by fastforce
  define s1 where "s1 = upd_conn i (\<lambda>c. c\<lparr>c_framer := f, c_scan := c_scan c + 1\<rparr>) s"
  have u1: "unseen s1 i < unseen s i" using assms(2,3) by (simp add: s1_def unseen_def)
  have "unseen (upd_conn i compact (snd (deliver_message s1 i obj now))) i = unseen s1 i" for obj
    using rx_sides_D [OF rx_sides_deliver_message [of s1 i obj now]] assms(2)
    by (simp add: s1_def unseen_def compact_def rx_side_def)
  then show ?thesis
    using assms(1) u1 unfolding take_step_feed [OF feed s1_def refl] by (auto split: if_splits)
qed

lemma frame_step_unseen:
  assumes "frame_step s i now = Inr t" "i < length (s_conns s)" "c_scan (conn s i) < length (c_rx (conn s i))"
  shows "unseen t i < unseen s i"
proof -
  have "unseen (upd_conn i compact s) i = unseen s i" using assms(2) by (simp add: unseen_def compact_def)
  then show ?thesis
    using assms take_step_unseen [of s i now t] take_step_unseen [of "upd_conn i compact s" i now t]
    by (auto simp: frame_step_def Let_def unseen_def compact_def split: if_splits)
qed

text \<open>
  \<^verbatim>\<open>frame_pending\<close>. The slot \<open>i\<close> is one the server has; the test says so for the loop's
  sake.
\<close>

function frame_pending :: "gsp_server \<Rightarrow> nat \<Rightarrow> gsp_time_us \<Rightarrow> gsp_status \<times> bool \<times> gsp_server" where
  "frame_pending s i now =
     (if i < length (s_conns s) \<and> c_scan (conn s i) < length (c_rx (conn s i)) then
        (case frame_step s i now of
           Inl r \<Rightarrow> r
         | Inr s \<Rightarrow> frame_pending s i now)
      else
        (GSP_OK, False, if gs_framer_in_message (c_framer (conn s i)) then s else upd_conn i compact s))"
  by pat_completeness auto
termination
  by (relation "measure (\<lambda>(s, i, now). unseen s i)") (auto simp: frame_step_unseen)

declare frame_pending.simps [simp del]

lemma take_step_conns:
  "length (s_conns (case take_step s i now of Inl (st, d, t) \<Rightarrow> t | Inr t \<Rightarrow> t)) = length (s_conns s)"
proof -
  obtain f step where feed:
    "gs_framer_feed (c_framer (conn s i)) (c_rx (conn s i) ! c_scan (conn s i)) = (f, step)" by fastforce
  define s1 where "s1 = upd_conn i (\<lambda>c. c\<lparr>c_framer := f, c_scan := c_scan c + 1\<rparr>) s"
  have "length (s_conns (snd (deliver_message s1 i obj now))) = length (s_conns s)"
    and "length (s_conns (protocol_error s1 i reason snippet n now)) = length (s_conns s)"
    and "length (s_conns (protocol_error s i reason snippet n now)) = length (s_conns s)"
    for obj reason snippet n
    using rx_sides_D(1) [OF rx_sides_deliver_message [of s1 i obj now]]
      rx_sides_D(1) [OF rx_sides_protocol_error [of s1 i reason snippet n now]]
      rx_sides_D(1) [OF rx_sides_protocol_error [of s i reason snippet n now]]
    by (simp_all add: s1_def)
  then show ?thesis
    unfolding take_step_feed [OF feed s1_def refl] by (simp add: s1_def)
qed

lemma take_step_Inl:
  assumes "take_step s i now = Inl (st, d, t)" "i < length (s_conns s)"
  shows "st = GSP_OK \<and> d \<and> c_rx (conn t i) = [] \<and> c_scan (conn t i) = 0 \<and> c_framer (conn t i) = gs_framer_reset"
proof -
  obtain f step where feed:
    "gs_framer_feed (c_framer (conn s i)) (c_rx (conn s i) ! c_scan (conn s i)) = (f, step)" by fastforce
  obtain u where u: "st = GSP_OK" "d" "t = upd_conn i reset_rx u"
    using assms(1) unfolding take_step_feed [OF feed refl refl] by (auto split: if_splits)
  moreover have "length (s_conns t) = length (s_conns s)"
    using take_step_conns [of s i now] assms(1) by simp
  ultimately show ?thesis using assms(2) by (simp add: reset_rx_def)
qed

lemma frame_step_conns:
  "length (s_conns (case frame_step s i now of Inl (st, d, t) \<Rightarrow> t | Inr t \<Rightarrow> t)) = length (s_conns s)"
  using take_step_conns [of s i now] take_step_conns [of "upd_conn i compact s" i now]
  by (simp add: frame_step_def Let_def)

lemma frame_step_Inl:
  assumes "frame_step s i now = Inl (st, True, t)" "i < length (s_conns s)"
  shows "c_rx (conn t i) = [] \<and> c_scan (conn t i) = 0 \<and> c_framer (conn t i) = gs_framer_reset"
  using assms take_step_Inl [of s i now] take_step_Inl [of "upd_conn i compact s" i now]
  by (auto simp: frame_step_def Let_def split: if_splits)

lemma frame_pending_discarded:
  assumes "frame_pending s i now = (st, True, t)"
  shows "i < length (s_conns s) \<and> c_rx (conn s i) \<noteq> [] \<and>
    c_rx (conn t i) = [] \<and> c_scan (conn t i) = 0 \<and> c_framer (conn t i) = gs_framer_reset"
  using assms
proof (induction s i now rule: frame_pending.induct)
  case (1 s i now)
  from 1(2) have g: "i < length (s_conns s)" "c_scan (conn s i) < length (c_rx (conn s i))"
    by (auto simp: frame_pending.simps [of s] split: if_splits)
  then have "c_rx (conn s i) \<noteq> []" by auto
  moreover from 1(2) g have "case frame_step s i now of Inl r \<Rightarrow> r = (st, True, t)
      | Inr u \<Rightarrow> frame_pending u i now = (st, True, t)"
    by (simp add: frame_pending.simps [of s] split: sum.splits)
  ultimately show ?case
    using g 1(1) frame_step_Inl [of s i now st t] by (cases "frame_step s i now") auto
qed

section \<open>Lifecycle\<close>

definition zero_info :: gsp_connection_info where
  "zero_info = \<lparr>ci_conn = 0, ci_identified = False, ci_ready = False, ci_ball_detected = False,
     ci_opened_us = 0, ci_last_message_us = 0, ci_messages = 0, ci_shots = 0,
     ci_protocol_errors = 0, ci_consecutive_errors = 0, ci_last_shot_number = 0, ci_peer = [],
     ci_device_id = []\<rparr>"

definition zero_conn :: gs_conn where
  "zero_conn = \<lparr>c_used = False, c_idle_reported = False, c_info = zero_info,
     c_framer = gs_framer_reset, c_rx = [], c_scan = 0, c_next_write_us = 0\<rparr>"

definition zero_event :: gsp_event where
  "zero_event = new_event GSP_EV_NONE 0 0 EV_EMPTY"

definition zero_write :: gsp_write_request where
  "zero_write = \<lparr>w_conn = 0, w_length = 0, w_kind = GSP_WRITE_ACK, w_data = replicate GSP_WRITE_MAX NUL\<rparr>"

definition zero_chunk :: gsp_wire_chunk where
  "zero_chunk = \<lparr>wc_host_time_us = 0, wc_conn = 0, wc_direction = direction_value GSP_WIRE_CLIENT_TO_SERVER,
     wc_flags = 0, wc_sequence = 0, wc_data = []\<rparr>"

definition new_ring :: "nat \<Rightarrow> 'a \<Rightarrow> 'a ring" where
  "new_ring n x = \<lparr>rg_slots = replicate n x, rg_head = 0, rg_count = 0\<rparr>"

definition or_default :: "u32 \<Rightarrow> u32 \<Rightarrow> u32" where
  "or_default v d = (if v \<noteq> 0 then v else d)"

text \<open>
  \<^verbatim>\<open>gsp_server_create\<close>: \<open>alloc_ok\<close> says whether the allocator's one call returned
  memory. No pointer into the block is modelled; the rings and slots are the arrays it is cut
  into, zeroed.
\<close>

definition gsp_server_create :: "gsp_server_config option \<Rightarrow> bool \<Rightarrow> gsp_status + gsp_server" where
  "gsp_server_create config alloc_ok =
     (let cfg = (case config of Some c \<Rightarrow> c | None \<Rightarrow> gsp_server_config_default);
          max_conn = or_default (cfg_max_connections cfg) 4;
          ev_ring = or_default (cfg_event_ring cfg) 64;
          w_ring = or_default (cfg_write_ring cfg) 32;
          wire_ring = cfg_wire_ring cfg;
          max_msg = or_default (max_message_bytes (cfg_policy cfg)) (16 * 1024)
      in if max_msg < 256 then Inl GSP_ERR_INVALID_ARG
         else if 4096 < max_conn \<or> 1000000 < ev_ring \<or> 1000000 < w_ring then Inl GSP_ERR_INVALID_ARG
         else if \<not> alloc_ok then Inl GSP_ERR_NO_MEMORY
         else
           Inr \<lparr>s_policy = cfg_policy cfg, s_closed = False, s_max_message_bytes = unat max_msg,
                s_rx_capacity = unat max_msg + 1, s_now_us = 0, s_event_sequence = 0,
                s_message_sequence = 0, s_wire_sequence = 0, s_dropped_events = 0,
                s_dropped_wire = 0, s_drop_warned = 0, s_wire_drop_warned = 0,
                s_wire_lost_pending = False, s_player = zero_player, s_player_set = False,
                s_session_state = GSP_SESSION_NONE, s_conns = replicate (unat max_conn) zero_conn,
                s_events = new_ring (unat ev_ring) zero_event,
                s_writes = new_ring (unat w_ring) zero_write,
                s_wire = new_ring (unat wire_ring) zero_chunk\<rparr>)"

text \<open>The part of \<^verbatim>\<open>gsp_server_close\<close> and \<^verbatim>\<open>on_connection_closed\<close> that ends one connection.\<close>

definition end_conn :: "gsp_server \<Rightarrow> nat \<Rightarrow> gsp_close_cause \<Rightarrow> gsp_time_us \<Rightarrow> gsp_server" where
  "end_conn s i cause now =
     upd_conn i (\<lambda>c. c\<lparr>c_used := False\<rparr>)
       (drop_writes_for (emit_connection s GSP_EV_CONNECTION_CLOSED i cause now) (conn_id s i))"

text \<open>A loop over the connection slots.\<close>

definition for_conns :: "(nat \<Rightarrow> gsp_server \<Rightarrow> gsp_server) \<Rightarrow> gsp_server \<Rightarrow> gsp_server" where
  "for_conns body s = fold (\<lambda>i s. if c_used (conn s i) then body i s else s) (slots s) s"

definition gsp_server_close :: "gsp_server \<Rightarrow> gsp_server" where
  "gsp_server_close s =
     (if s_closed s then s
      else (for_conns (\<lambda>i s. end_conn s i GSP_CLOSE_SERVER_CLOSED (s_now_us s)) s)\<lparr>s_closed := True\<rparr>)"

section \<open>In\<close>

definition open_slot :: "gsp_conn_id \<Rightarrow> bytes option \<Rightarrow> gsp_time_us \<Rightarrow> gs_conn" where
  "open_slot cid peer now =
     zero_conn\<lparr>c_used := True,
       c_info := zero_info\<lparr>ci_conn := cid, ci_opened_us := now, ci_last_message_us := GSP_TIME_UNKNOWN,
         ci_last_shot_number := INT64_MIN, ci_peer := copy_bounded GSP_PEER_MAX peer\<rparr>,
       c_next_write_us := now\<rparr>"

text \<open>What a new connection is told: the player first, then that the session is ready.\<close>

definition greet :: "gsp_server \<Rightarrow> nat \<Rightarrow> gsp_time_us \<Rightarrow> gsp_server" where
  "greet s i now =
     (let s = emit_connection s GSP_EV_CONNECTION_OPENED i GSP_CLOSE_UNKNOWN now;
          s = (if announce_player_on_connect (s_policy s) \<and> s_player_set s \<and> player_has_anything (s_player s)
               then send_player_to s i (s_player s) GSP_PI_ON_CONNECT now else s)
      in if announce_ready_on_connect (s_policy s) \<and> s_session_state s = GSP_SESSION_ACTIVE
         then send_session_to s i GSP_SESSION_ACTIVE GSP_PI_ON_CONNECT now else s)"

definition gsp_server_on_connection_opened ::
  "gsp_server \<Rightarrow> gsp_conn_id \<Rightarrow> bytes option \<Rightarrow> gsp_time_us \<Rightarrow> gsp_status \<times> gsp_server" where
  "gsp_server_on_connection_opened s cid peer now =
     (if s_closed s then (GSP_ERR_CLOSED, s)
      else if cid = GSP_CONN_NONE \<or> cid = GSP_CONN_ALL then (GSP_ERR_INVALID_ARG, s)
      else if find_conn s cid \<noteq> None then (GSP_ERR_INVALID_STATE, s)
      else
        (case find (\<lambda>i. \<not> c_used (conn s i)) (slots s) of
           None \<Rightarrow> (GSP_ERR_TOO_MANY_CONNECTIONS, s)
         | Some i \<Rightarrow> (GSP_OK, greet (upd_conn i (\<lambda>c. open_slot cid peer now) (s\<lparr>s_now_us := now\<rparr>)) i now)))"

text \<open>
  The loop of \<^verbatim>\<open>gsp_server_on_bytes\<close>: the status of the last \<^verbatim>\<open>frame_pending\<close>, how
  much of \<open>data\<close> was taken, and the state.
\<close>

definition room_taken :: "gsp_server \<Rightarrow> nat \<Rightarrow> bytes \<Rightarrow> nat \<Rightarrow> nat" where
  "room_taken s i data pos = min (s_rx_capacity s - length (c_rx (conn s i))) (length data - pos)"

definition append_rx :: "gsp_server \<Rightarrow> nat \<Rightarrow> bytes \<Rightarrow> gsp_server" where
  "append_rx s i bs = upd_conn i (\<lambda>c. c\<lparr>c_rx := c_rx c @ bs\<rparr>) s"

function on_bytes_loop ::
  "gsp_server \<Rightarrow> nat \<Rightarrow> bytes \<Rightarrow> nat \<Rightarrow> gsp_time_us \<Rightarrow> gsp_status \<times> nat \<times> gsp_server" where
  "on_bytes_loop s i data pos now =
     (let taken = room_taken s i data pos in
      case frame_pending (append_rx s i (take taken (drop pos data))) i now of
        (st, discarded, s) \<Rightarrow>
          (if discarded then on_bytes_loop s i data (length data) now
           else if st = GSP_ERR_QUEUE_FULL \<or> length data \<le> pos + taken \<or> taken = 0
           then (st, pos + taken, s)
           else on_bytes_loop s i data (pos + taken) now))"
  by pat_completeness auto
termination
proof (relation "measure (\<lambda>(s, i, data, pos, now). 2 * (length data - pos) + (if c_rx (conn s i) = [] then 0 else 1))",
    goal_cases)
  case (2 s i data pos now taken st p d t)
  then have "frame_pending (append_rx s i (take taken (drop pos data))) i now = (st, True, t)" by simp
  from frame_pending_discarded [OF this] have "c_rx (conn t i) = []" "c_rx (conn s i) \<noteq> [] \<or> taken \<noteq> 0"
    by (auto simp: append_rx_def)
  moreover have "taken \<le> length data - pos" using 2(1) by (simp add: room_taken_def)
  ultimately show ?case by (auto split: if_splits)
next
  case (3 s i data pos now taken st p d t)
  then show ?case by (auto simp: room_taken_def)
qed simp

declare on_bytes_loop.simps [simp del]

definition retain_or_drop :: "gsp_server \<Rightarrow> nat \<Rightarrow> gsp_conn_id \<Rightarrow> bytes \<Rightarrow> gsp_time_us \<Rightarrow> gsp_server" where
  "retain_or_drop s i cid left now =
     (let room = s_rx_capacity s - length (c_rx (conn s i)) in
      if room < length left then
        emit_warning (upd_conn i reset_rx s) cid GSP_WARN_WRITE_RING_FULL (of_nat (length left))
          ''write ring full; unretainable bytes discarded'' now
      else
        (let s = append_rx s i left in
         emit_warning s cid GSP_WARN_WRITE_RING_FULL (of_nat (length (c_rx (conn s i))))
           ''write ring full; drain writes and resume'' now))"

definition gsp_server_on_bytes ::
  "gsp_server \<Rightarrow> gsp_conn_id \<Rightarrow> bytes \<Rightarrow> gsp_time_us \<Rightarrow> gsp_status \<times> gsp_server" where
  "gsp_server_on_bytes s cid data now =
     (if s_closed s then (GSP_ERR_CLOSED, s)
      else
        (case find_conn s cid of
           None \<Rightarrow> (GSP_ERR_UNKNOWN_CONNECTION, s)
         | Some i \<Rightarrow>
             (case on_bytes_loop (s\<lparr>s_now_us := now\<rparr>) i data 0 now of
                (st, pos, s) \<Rightarrow>
                  if st = GSP_ERR_QUEUE_FULL
                  then (GSP_ERR_QUEUE_FULL, retain_or_drop s i cid (drop pos data) now)
                  else (GSP_OK, s))))"

definition gsp_server_on_connection_closed ::
  "gsp_server \<Rightarrow> gsp_conn_id \<Rightarrow> gsp_close_cause \<Rightarrow> gsp_time_us \<Rightarrow> gsp_status \<times> gsp_server" where
  "gsp_server_on_connection_closed s cid cause now =
     (if s_closed s then (GSP_ERR_CLOSED, s)
      else
        (case find_conn s cid of
           None \<Rightarrow> (GSP_ERR_UNKNOWN_CONNECTION, s)
         | Some i \<Rightarrow> (GSP_OK, end_conn (s\<lparr>s_now_us := now\<rparr>) i cause now)))"

section \<open>Clock\<close>

definition idle_deadline :: "gsp_server \<Rightarrow> gs_conn \<Rightarrow> gsp_time_us" where
  "idle_deadline s c =
     (if idle_alarm_us (s_policy s) \<le> 0 \<or> c_idle_reported c then GSP_TIME_NEVER
      else (if ci_last_message_us (c_info c) \<noteq> GSP_TIME_UNKNOWN then ci_last_message_us (c_info c)
            else ci_opened_us (c_info c)) + idle_alarm_us (s_policy s))"

definition conn_due :: "gsp_server \<Rightarrow> nat \<Rightarrow> gsp_time_us \<Rightarrow> gsp_time_us" where
  "conn_due s i due =
     (let c = conn s i in
      if \<not> c_used c then due
      else
        (let due = (if idle_deadline s c < due then idle_deadline s c else due) in
         if 0 < write_spacing_us (s_policy s) \<and> s_now_us s < c_next_write_us c \<and>
            list_ex (\<lambda>k. w_conn (ring_nth (s_writes s) k) = ci_conn (c_info c)) [0..<rg_count (s_writes s)] \<and>
            c_next_write_us c < due
         then c_next_write_us c else due))"

definition gsp_server_next_due_us :: "gsp_server \<Rightarrow> gsp_time_us" where
  "gsp_server_next_due_us s =
     (if s_closed s then GSP_TIME_NEVER else fold (conn_due s) (slots s) GSP_TIME_NEVER)"

definition tick_conn :: "gsp_time_us \<Rightarrow> nat \<Rightarrow> gsp_server \<Rightarrow> gsp_server" where
  "tick_conn now i s =
     (if idle_deadline s (conn s i) \<le> now
      then emit_simple (upd_conn i (\<lambda>c. c\<lparr>c_idle_reported := True\<rparr>) s) GSP_EV_CLIENT_IDLE (conn_id s i) now
      else s)"

definition gsp_server_tick :: "gsp_server \<Rightarrow> gsp_time_us \<Rightarrow> gsp_server" where
  "gsp_server_tick s now =
     (if s_closed s then s else for_conns (tick_conn now) (s\<lparr>s_now_us := now\<rparr>))"

section \<open>Host to clients\<close>

definition gsp_server_set_player ::
  "gsp_server \<Rightarrow> gsp_player_info option \<Rightarrow> gsp_time_us \<Rightarrow> gsp_status \<times> gsp_server" where
  "gsp_server_set_player s info now =
     (if s_closed s then (GSP_ERR_CLOSED, s)
      else
        (case info of
           None \<Rightarrow> (GSP_ERR_INVALID_ARG, s)
         | Some p \<Rightarrow>
             (let changed = (\<not> s_player_set s \<or> \<not> gsp_player_info_equal (s_player s) p);
                  s = s\<lparr>s_now_us := now, s_player := p, s_player_set := True\<rparr>
              in if \<not> changed \<or> \<not> player_has_anything p then (GSP_OK, s)
                 else (GSP_OK, for_conns (\<lambda>i s. send_player_to s i p GSP_PI_CHANGED now) s))))"

definition gsp_server_get_player :: "gsp_server \<Rightarrow> gsp_player_info" where
  "gsp_server_get_player s = s_player s"

definition gsp_server_send_player_info ::
  "gsp_server \<Rightarrow> gsp_conn_id \<Rightarrow> gsp_player_info option \<Rightarrow> gsp_time_us \<Rightarrow> gsp_status \<times> gsp_server" where
  "gsp_server_send_player_info s cid info now =
     (if s_closed s then (GSP_ERR_CLOSED, s)
      else
        (let p = (case info of Some p \<Rightarrow> p | None \<Rightarrow> s_player s);
             s = s\<lparr>s_now_us := now\<rparr>
         in if cid = GSP_CONN_ALL
            then (GSP_OK, for_conns (\<lambda>i s. send_player_to s i p GSP_PI_EXPLICIT now) s)
            else
              (case find_conn s cid of
                 None \<Rightarrow> (GSP_ERR_UNKNOWN_CONNECTION, s)
               | Some i \<Rightarrow> (GSP_OK, send_player_to s i p GSP_PI_EXPLICIT now))))"

definition gsp_server_set_session_state ::
  "gsp_server \<Rightarrow> gsp_session_state \<Rightarrow> gsp_time_us \<Rightarrow> gsp_status \<times> gsp_server" where
  "gsp_server_set_session_state s state now =
     (if s_closed s then (GSP_ERR_CLOSED, s)
      else if state \<noteq> GSP_SESSION_NONE \<and> state \<noteq> GSP_SESSION_ACTIVE \<and> state \<noteq> GSP_SESSION_ENDED
      then (GSP_ERR_INVALID_ARG, s)
      else
        (let s = s\<lparr>s_now_us := now\<rparr> in
         if s_session_state s = state then (GSP_OK, s)
         else
           (let s = s\<lparr>s_session_state := state\<rparr> in
            if state = GSP_SESSION_NONE then (GSP_OK, s)
            else (GSP_OK, for_conns (\<lambda>i s. send_session_to s i state GSP_PI_CHANGED now) s))))"

definition gsp_server_get_session_state :: "gsp_server \<Rightarrow> gsp_session_state" where
  "gsp_server_get_session_state s = s_session_state s"

section \<open>Out\<close>

definition held_back :: "gsp_server \<Rightarrow> gsp_conn_id \<Rightarrow> bool" where
  "held_back s cid \<longleftrightarrow>
     (case find_conn s cid of None \<Rightarrow> False | Some i \<Rightarrow> s_now_us s < c_next_write_us (conn s i))"

definition space_writes :: "gsp_server \<Rightarrow> gsp_conn_id \<Rightarrow> gsp_server" where
  "space_writes s cid =
     (case find_conn s cid of
        None \<Rightarrow> s
      | Some i \<Rightarrow>
          if 0 < write_spacing_us (s_policy s)
          then upd_conn i (\<lambda>c. c\<lparr>c_next_write_us := s_now_us s + write_spacing_us (s_policy s)\<rparr>) s
          else s)"

text \<open>One write leaves the ring: recorded, spaced from the next and removed.\<close>

definition release_write :: "gsp_server \<Rightarrow> nat \<Rightarrow> gsp_server" where
  "release_write s i =
     (let w = ring_nth (s_writes s) i;
          s = wire_push_bytes s (w_conn w) GSP_WIRE_SERVER_TO_CLIENT (take (unat (w_length w)) (w_data w))
                (s_now_us s) False 0;
          s = space_writes s (w_conn w)
      in s\<lparr>s_writes := ring_remove (s_writes s) i\<rparr>)"

text \<open>The loop of \<^verbatim>\<open>gsp_server_poll_writes\<close>; \<open>left\<close> is \<^verbatim>\<open>max - n\<close>.\<close>

function poll_writes_loop :: "gsp_server \<Rightarrow> nat \<Rightarrow> nat \<Rightarrow> gsp_write_request list \<times> gsp_server" where
  "poll_writes_loop s i left =
     (if i < rg_count (s_writes s) \<and> 0 < left then
        (let w = ring_nth (s_writes s) i in
         if held_back s (w_conn w) then poll_writes_loop s (i + 1) left
         else
           (case poll_writes_loop (release_write s i) i (left - 1) of (ws, s) \<Rightarrow> (w # ws, s)))
      else ([], s))"
  by pat_completeness auto
termination
  by (relation "measures [\<lambda>(s, i, left). left, \<lambda>(s, i, left). rg_count (s_writes s) - i]") auto

declare poll_writes_loop.simps [simp del]

definition gsp_server_poll_writes :: "gsp_server \<Rightarrow> nat \<Rightarrow> gsp_write_request list \<times> gsp_server" where
  "gsp_server_poll_writes s max_n = poll_writes_loop s 0 max_n"

definition gsp_server_poll_events :: "gsp_server \<Rightarrow> nat \<Rightarrow> gsp_event list \<times> gsp_server" where
  "gsp_server_poll_events s max_n =
     (if max_n = 0 then ([], s)
      else
        (case ring_poll (s_events s) max_n of (evs, r) \<Rightarrow>
           (evs, s\<lparr>s_events := r, s_drop_warned := (if rg_count r = 0 then 0 else s_drop_warned s)\<rparr>)))"

definition gsp_server_poll_wire :: "gsp_server \<Rightarrow> nat \<Rightarrow> gsp_wire_chunk list \<times> gsp_server" where
  "gsp_server_poll_wire s max_n =
     (if max_n = 0 \<or> \<not> wire_on s then ([], s)
      else
        (case ring_poll (s_wire s) max_n of (cs, r) \<Rightarrow>
           (cs, s\<lparr>s_wire := r, s_wire_drop_warned := (if rg_count r = 0 then 0 else s_wire_drop_warned s)\<rparr>)))"

definition gsp_server_dropped_events :: "gsp_server \<Rightarrow> u32" where
  "gsp_server_dropped_events s = s_dropped_events s"

definition gsp_server_dropped_wire :: "gsp_server \<Rightarrow> u32" where
  "gsp_server_dropped_wire s = s_dropped_wire s"

section \<open>Introspection\<close>

definition gsp_server_connection_count :: "gsp_server \<Rightarrow> nat" where
  "gsp_server_connection_count s = fold (\<lambda>i n. if c_used (conn s i) then n + 1 else n) (slots s) 0"

text \<open>The ids written to \<^verbatim>\<open>out\<close> (at most \<open>max_n\<close>) and the count returned.\<close>

definition gsp_server_connection_ids :: "gsp_server \<Rightarrow> nat \<Rightarrow> gsp_conn_id list \<times> nat" where
  "gsp_server_connection_ids s max_n =
     fold (\<lambda>i (out, n).
             if \<not> c_used (conn s i) then (out, n)
             else (if n < max_n then out @ [conn_id s i] else out, n + 1))
       (slots s) ([], 0)"

definition gsp_server_connection_info :: "gsp_server \<Rightarrow> gsp_conn_id \<Rightarrow> gsp_status + gsp_connection_info" where
  "gsp_server_connection_info s cid =
     (case find_conn s cid of None \<Rightarrow> Inl GSP_ERR_UNKNOWN_CONNECTION | Some i \<Rightarrow> Inr (c_info (conn s i)))"

end
