(* ===== verification/ServerSteps.thy ===== *)
theory ServerSteps
  imports Server
begin

text \<open>
  The server's operations seen as sequences of a few primitive changes: an event, bytes on the
  wire log, a queued write, an update of a connection slot. A relation between states that
  holds across every primitive change (the locale \<open>server_steps\<close>) holds across delivery,
  framing and every entry point; the invariants of the server are instances.
\<close>

section \<open>Events carry what their type says\<close>

fun union_of_type :: "gsp_event_type \<Rightarrow> event_union \<Rightarrow> bool" where
  "union_of_type t EV_EMPTY \<longleftrightarrow> t \<in> {GSP_EV_CLIENT_IDLE, GSP_EV_CLIENT_ACTIVE}"
| "union_of_type t (EV_CONNECTION info cause) \<longleftrightarrow>
     t \<in> {GSP_EV_CONNECTION_OPENED, GSP_EV_CONNECTION_CLOSED, GSP_EV_CLIENT_IDENTIFIED}"
| "union_of_type t (EV_MESSAGE m) \<longleftrightarrow> t = event_for_kind (m_kind m)"
| "union_of_type t (EV_CLIENT_STATE cs) \<longleftrightarrow> t = GSP_EV_CLIENT_STATE"
| "union_of_type t (EV_PLAYER_INFO p reason) \<longleftrightarrow> t = GSP_EV_PLAYER_INFO_SENT"
| "union_of_type t (EV_SESSION_STATE st reason) \<longleftrightarrow> t = GSP_EV_SESSION_STATE_SENT"
| "union_of_type t (EV_PROTOCOL_ERROR pe) \<longleftrightarrow> t \<in> {GSP_EV_PROTOCOL_ERROR, GSP_EV_CLOSE_REQUESTED}"
| "union_of_type t (EV_WARNING code v txt) \<longleftrightarrow> t = GSP_EV_WARNING"

definition event_tagged :: "gsp_event \<Rightarrow> bool" where
  "event_tagged ev \<longleftrightarrow> union_of_type (ev_type ev) (ev_u ev)"

lemma event_tagged_new [simp]: "event_tagged (new_event t cid now u) \<longleftrightarrow> union_of_type t u"
  by (simp add: event_tagged_def new_event_def)

section \<open>Live slots\<close>

text \<open>The code each kind of write carries.\<close>

fun code_of_kind :: "gsp_write_kind \<Rightarrow> int" where
  "code_of_kind GSP_WRITE_ACK = 200"
| "code_of_kind GSP_WRITE_PLAYER_INFO = 201"
| "code_of_kind GSP_WRITE_READY = 202"
| "code_of_kind GSP_WRITE_ROUND_ENDED = 203"
| "code_of_kind GSP_WRITE_FAILURE = 501"

definition live :: "gsp_server \<Rightarrow> nat \<Rightarrow> bool" where
  "live s i \<longleftrightarrow> i < length (s_conns s) \<and> c_used (conn s i)"

lemma live_core: "s_conns t = s_conns s \<Longrightarrow> live t i = live s i"
  by (simp add: live_def conn_def)

lemma live_emit [simp]: "live (emit s ev) i = live s i"
  and live_emit_connection [simp]: "live (emit_connection s type k cause now) i = live s i"
  and live_emit_simple [simp]: "live (emit_simple s type cid now) i = live s i"
  and live_emit_warning [simp]: "live (emit_warning s cid wcode v txt now) i = live s i"
  and live_wire_client [simp]: "live (wire_client s cid data now) i = live s i"
  and live_wire_push_bytes [simp]: "live (wire_push_bytes s cid direction data now redact extra_flags) i = live s i"
  and live_queue_write [simp]: "live (snd (queue_write s cid kind code message player)) i = live s i"
  by (rule live_core, simp)+

lemma live_fields [simp]:
  "live (s\<lparr>s_message_sequence := n\<rparr>) i = live s i" "live (s\<lparr>s_now_us := now\<rparr>) i = live s i"
  "live (s\<lparr>s_player := p\<rparr>) i = live s i" "live (s\<lparr>s_player_set := b\<rparr>) i = live s i"
  "live (s\<lparr>s_session_state := st\<rparr>) i = live s i"
  by (simp_all add: live_def conn_def)

lemma live_upd_conn: "(\<And>c. c_used (f c) = c_used c) \<Longrightarrow> live (upd_conn k f s) i = live s i"
  by (simp add: live_def conn_upd_conn)

lemma live_upd_info [simp]: "live (upd_info k f s) i = live s i"
  by (simp add: upd_info_def live_upd_conn)

lemma live_rx_sides: "rx_sides t = rx_sides s \<Longrightarrow> live t i = live s i"
  using rx_sides_D [of t s] by (auto simp: live_def rx_side_def)

lemma live_notes [simp]:
  "live (note_identity s k m now) i = live s i" "live (note_client_state s k m now) i = live s i"
  "live (note_active s k now) i = live s i" "live (reply_to s k m) i = live s i"
  by (rule live_rx_sides, simp)+

lemma live_sends [simp]:
  "live (send_player_to s k p reason now) i = live s i"
  "live (send_session_to s k state reason now) i = live s i"
  by (simp_all add: send_player_to_def send_session_to_def case_prod_beta)

lemma find_SomeD: "find P xs = Some x \<Longrightarrow> x \<in> set xs \<and> P x"
  by (auto simp: find_Some_iff)

lemma find_conn_live: "find_conn s cid = Some i \<Longrightarrow> live s i \<and> conn_id s i = cid"
  unfolding find_conn_def slots_def live_def by (drule find_SomeD) simp

section \<open>Relations the operations respect\<close>

locale server_base =
  fixes R :: "gsp_server \<Rightarrow> gsp_server \<Rightarrow> bool"
  assumes same: "R s s"
    and after: "R s t \<Longrightarrow> R t s' \<Longrightarrow> R s s'"
    and event: "union_of_type type u \<Longrightarrow> R s (emit s (new_event type cid now u))"
    and wire: "R s (wire_push_bytes s cid direction data now redact extra_flags)"
    and queue: "live s i \<Longrightarrow> code_of_kind kind = code \<Longrightarrow>
      R s (snd (queue_write s (conn_id s i) kind code message player))"
    and slot: "(\<And>c. rx_side (f c) = rx_side c \<and> c_next_write_us (f c) = c_next_write_us c) \<Longrightarrow>
      R s (upd_conn i f s)"
    and sequence: "R s (s\<lparr>s_message_sequence := n\<rparr>)"
begin

lemma then_event: "R r s \<Longrightarrow> union_of_type type u \<Longrightarrow> R r (emit s (new_event type cid now u))"
  by (rule after [OF _ event])

lemma then_wire: "R r s \<Longrightarrow> R r (wire_push_bytes s cid direction data now redact extra_flags)"
  by (rule after [OF _ wire])

lemma then_queue:
  "R r s \<Longrightarrow> live s i \<Longrightarrow> code_of_kind kind = code \<Longrightarrow>
   R r (snd (queue_write s (conn_id s i) kind code message player))"
  by (rule after [OF _ queue])

lemma then_slot:
  "R r s \<Longrightarrow> (\<And>c. rx_side (f c) = rx_side c \<and> c_next_write_us (f c) = c_next_write_us c) \<Longrightarrow>
   R r (upd_conn i f s)"
  by (rule after [OF _ slot])

lemma then_info: "R r s \<Longrightarrow> (\<And>n. ci_conn (f n) = ci_conn n) \<Longrightarrow> R r (upd_info i f s)"
  unfolding upd_info_def by (rule then_slot) (simp_all add: rx_side_def)

lemma then_sequence: "R r s \<Longrightarrow> R r (s\<lparr>s_message_sequence := n\<rparr>)"
  by (rule after [OF _ sequence])

lemma then_warning: "R r s \<Longrightarrow> R r (emit_warning s cid code v txt now)"
  unfolding emit_warning_def by (rule then_event) simp_all

lemma then_simple:
  "R r s \<Longrightarrow> type \<in> {GSP_EV_CLIENT_IDLE, GSP_EV_CLIENT_ACTIVE} \<Longrightarrow> R r (emit_simple s type cid now)"
  unfolding emit_simple_def by (rule then_event) simp_all

lemma then_client: "R r s \<Longrightarrow> R r (wire_client s cid data now)"
  by (simp add: wire_client_def then_wire)

lemma then_meta: "R r s \<Longrightarrow> R r (wire_meta s ev)"
  by (simp add: wire_meta_def Let_def then_wire split: prod.split)

lemma then_connection:
  "R r s \<Longrightarrow> type \<in> {GSP_EV_CONNECTION_OPENED, GSP_EV_CONNECTION_CLOSED, GSP_EV_CLIENT_IDENTIFIED} \<Longrightarrow>
   R r (emit_connection s type i cause now)"
  unfolding emit_connection_def Let_def by (intro then_meta then_event) simp_all

lemmas then_all = then_event then_wire then_queue then_info then_sequence then_warning then_simple
  then_client then_connection

text \<open>Through a sequence of updates, with the slot kept live.\<close>

lemmas seq = Let_state [where P = "\<lambda>t. R r t \<and> live t i" and Q = "R r" for r i]
lemmas seq_any = Let_any [where Q = "R r" for r]
lemmas seq_snd = Let_state [where P = "\<lambda>t. R r t \<and> live t i" and Q = "\<lambda>t. R r (snd t)" for r i]
lemmas seq_snd_any = Let_any [where Q = "\<lambda>t. R r (snd t)" for r]

lemma then_send_player: "R r s \<Longrightarrow> live s i \<Longrightarrow> R r (send_player_to s i p reason now)"
  by (simp add: send_player_to_def case_prod_beta then_all)

lemma then_send_session: "R r s \<Longrightarrow> live s i \<Longrightarrow> R r (send_session_to s i state reason now)"
  by (simp add: send_session_to_def case_prod_beta then_all)

lemma then_greet:
  assumes "R r s" "live s i"
  shows "R r (greet s i now)"
  unfolding greet_def
  by (rule seq [where i = i] | simp add: assms then_connection then_send_player then_send_session)+

lemma then_protocol_error:
  assumes "R r s" "live s i"
  shows "R r (protocol_error s i reason snippet discarded now)"
  unfolding protocol_error_def
  by (rule seq [where i = i] seq_any | simp add: assms then_all)+

lemma then_note_identity: "R r s \<Longrightarrow> R r (note_identity s i m now)"
  by (simp add: note_identity_def then_all)

lemma then_note_client_state: "R r s \<Longrightarrow> R r (note_client_state s i m now)"
  by (simp add: note_client_state_def Let_def then_all)

lemma then_note_active: "R r s \<Longrightarrow> R r (note_active s i now)"
  by (simp add: note_active_def then_simple then_slot rx_side_def)

lemma then_reply_to: "R r s \<Longrightarrow> live s i \<Longrightarrow> R r (reply_to s i m)"
  by (simp add: reply_to_def then_queue)

lemma then_deliver:
  assumes "R r s" "live s i"
  shows "R r (snd (deliver_message s i json now))"
proof (cases "gsp_message_decode json (length json)")
  case (Inr m0)
  show ?thesis
    unfolding deliver_message_def Inr sum.case
    by (rule seq_snd [where i = i] seq_snd_any
        | simp add: assms then_all then_reply_to then_note_active then_note_identity then_note_client_state)+
qed (simp add: deliver_message_def then_protocol_error assms)

lemma then_for_conns:
  assumes "\<And>i s. live s i \<Longrightarrow> R s (body i s) \<and> length (s_conns (body i s)) = length (s_conns s)" "R r s"
  shows "R r (for_conns body s)"
proof -
  have "R r (fold (\<lambda>i s. if c_used (conn s i) then body i s else s) is t)"
    if "R r t" "\<forall>i \<in> set is. i < length (s_conns t)" for "is" t
    using that
  proof (induction "is" arbitrary: t)
    case (Cons i "is")
    then show ?case using assms(1) [of t i] after [of r t] by (auto simp: live_def)
  qed simp
  then show ?thesis using assms(2) by (simp add: for_conns_def slots_def)
qed

end

section \<open>Framing and receiving\<close>

text \<open>The state after one turn of the framing loop.\<close>

definition outcome :: "(gsp_status \<times> bool \<times> gsp_server) + gsp_server \<Rightarrow> gsp_server" where
  "outcome r = (case r of Inl (st, d, t) \<Rightarrow> t | Inr t \<Rightarrow> t)"

lemma outcome_simps [simp]: "outcome (Inl (st, d, t)) = t" "outcome (Inr t) = t"
  by (simp_all add: outcome_def)

lemma rx_update_sel [simp]:
  "c_used (compact c) = c_used c" "c_used (reset_rx c) = c_used c"
  "c_info (compact c) = c_info c" "c_info (reset_rx c) = c_info c"
  "c_next_write_us (compact c) = c_next_write_us c" "c_next_write_us (reset_rx c) = c_next_write_us c"
  by (simp_all add: compact_def reset_rx_def)

lemma live_rx_update [simp]:
  "live (upd_conn k compact s) i = live s i" "live (upd_conn k reset_rx s) i = live s i"
  "live (append_rx s k bs) i = live s i"
  by (simp_all add: live_upd_conn append_rx_def)

lemma live_deliver [simp]: "live (snd (deliver_message s k json now)) i = live s i"
  and live_protocol_error [simp]: "live (protocol_error s k reason snippet n now) i = live s i"
  by (rule live_rx_sides, simp)+

lemma take_step_cases [consumes 1, case_names garbage close large inside]:
  assumes "\<And>f step. gs_framer_feed (c_framer (conn s i)) (c_rx (conn s i) ! c_scan (conn s i)) = (f, step) \<Longrightarrow> Q f step"
  obtains (garbage) f snippet n where "Q f GS_FRAME_GARBAGE"
      "take_step s i now = Inl (GSP_OK, True, upd_conn i reset_rx (protocol_error s i GSP_PE_LEADING_GARBAGE snippet n now))"
    | (close) f s1 obj where "Q f GS_FRAME_CLOSE" "s1 = upd_conn i (\<lambda>c. c\<lparr>c_framer := f, c_scan := c_scan c + 1\<rparr>) s"
      "obj = take (c_scan (conn s1 i)) (c_rx (conn s1 i))"
      "take_step s i now =
        (if fst (deliver_message s1 i obj now) then Inr (upd_conn i compact (snd (deliver_message s1 i obj now)))
         else Inl (GSP_OK, True, upd_conn i reset_rx (snd (deliver_message s1 i obj now))))"
    | (large) f s1 step snippet n where "Q f step" "s1 = upd_conn i (\<lambda>c. c\<lparr>c_framer := f, c_scan := c_scan c + 1\<rparr>) s"
      "s_max_message_bytes s < c_scan (conn s1 i)"
      "take_step s i now = Inl (GSP_OK, True, upd_conn i reset_rx (protocol_error s1 i GSP_PE_TOO_LARGE snippet n now))"
    | (inside) f s1 step where "Q f step" "s1 = upd_conn i (\<lambda>c. c\<lparr>c_framer := f, c_scan := c_scan c + 1\<rparr>) s"
      "step \<noteq> GS_FRAME_GARBAGE" "step \<noteq> GS_FRAME_CLOSE"
      "c_scan (conn s1 i) \<le> s_max_message_bytes s" "take_step s i now = Inr s1"
proof -
  obtain f step where feed:
    "gs_framer_feed (c_framer (conn s i)) (c_rx (conn s i) ! c_scan (conn s i)) = (f, step)" by fastforce
  note Q = assms [OF feed]
  note eq = take_step_feed [OF feed refl refl, of now]
  consider "step = GS_FRAME_GARBAGE" | "step = GS_FRAME_CLOSE" | "step \<noteq> GS_FRAME_GARBAGE" "step \<noteq> GS_FRAME_CLOSE" by blast
  then show ?thesis
  proof cases
    case 1
    then show ?thesis using Q eq by (intro garbage) simp_all
  next
    case 2
    then show ?thesis using Q eq by (intro close [OF _ refl refl]) simp_all
  next
    case 3
    show ?thesis
    proof (cases "s_max_message_bytes s < c_scan (conn (upd_conn i (\<lambda>c. c\<lparr>c_framer := f, c_scan := c_scan c + 1\<rparr>) s) i)")
      case True
      then show ?thesis using 3 Q eq by (intro large [OF _ refl]) simp_all
    next
      case False
      then show ?thesis using 3 Q eq by (intro inside [OF _ refl]) simp_all
    qed
  qed
qed

lemma live_take_step [simp]: "live (outcome (take_step s k now)) i = live s i"
  by (rule take_step_cases [of s k "\<lambda>_ _. True" now]) (simp_all add: live_upd_conn)

lemma live_frame_step [simp]: "live (outcome (frame_step s k now)) i = live s i"
  by (simp add: frame_step_def Let_def live_upd_conn)

text \<open>The relations that also survive any change of the pending bytes.\<close>

locale server_steps = server_base R for R :: "gsp_server \<Rightarrow> gsp_server \<Rightarrow> bool" +
  assumes rx: "(\<And>c. c_used (f c) = c_used c \<and> ci_conn (c_info (f c)) = ci_conn (c_info c) \<and>
      c_next_write_us (f c) = c_next_write_us c) \<Longrightarrow>
      R s (upd_conn i f s)"
begin

lemma then_rx:
  "R r s \<Longrightarrow> (\<And>c. c_used (f c) = c_used c \<and> ci_conn (c_info (f c)) = ci_conn (c_info c) \<and>
      c_next_write_us (f c) = c_next_write_us c) \<Longrightarrow>
   R r (upd_conn i f s)"
  by (rule after [OF _ rx])

lemma then_take_step:
  assumes "R r s" "live s i"
  shows "R r (outcome (take_step s i now))"
  by (rule take_step_cases [of s i "\<lambda>_ _. True" now])
    (use assms in \<open>simp_all add: then_rx then_protocol_error then_deliver live_upd_conn\<close>)

lemma then_frame_step:
  assumes "R r s" "live s i"
  shows "R r (outcome (frame_step s i now))"
  using assms by (simp add: frame_step_def Let_def then_take_step then_rx)

lemma then_frame_pending:
  assumes "R r s" "live s i"
  shows "R r (snd (snd (frame_pending s i now))) \<and> live (snd (snd (frame_pending s i now))) i"
  using assms
proof (induction s i now rule: frame_pending.induct)
  case (1 s i now)
  show ?case
  proof (cases "i < length (s_conns s) \<and> c_scan (conn s i) < length (c_rx (conn s i))")
    case True
    have "R r (outcome (frame_step s i now))" "live (outcome (frame_step s i now)) i"
      using 1(2,3) by (simp_all add: then_frame_step)
    then show ?thesis
      using True 1(1)
      by (cases "frame_step s i now") (auto simp: frame_pending.simps [of s])
  next
    case False
    with 1(2,3) show ?thesis by (auto simp: frame_pending.simps [of s] then_rx)
  qed
qed

lemma then_append_rx: "R r s \<Longrightarrow> R r (append_rx s i bs)"
  by (simp add: append_rx_def then_rx)

lemma then_on_bytes_loop:
  assumes "R r s" "live s i"
  shows "R r (snd (snd (on_bytes_loop s i data pos now))) \<and> live (snd (snd (on_bytes_loop s i data pos now))) i"
  using assms
proof (induction s i data pos now rule: on_bytes_loop.induct)
  case (1 s i data pos now)
  define taken where "taken = room_taken s i data pos"
  define s1 where "s1 = append_rx s i (take taken (drop pos data))"
  obtain st d t where fp: "frame_pending s1 i now = (st, d, t)" by (metis prod_cases3)
  have "R r t" "live t i"
    using then_frame_pending [of r s1 i now] 1(3,4) fp by (simp_all add: s1_def then_append_rx)
  then show ?case
    using 1(1,2) [OF taken_def, unfolded s1_def [symmetric], OF fp [symmetric] refl]
    by (simp add: on_bytes_loop.simps [of s] taken_def [symmetric] s1_def [symmetric] fp Let_def)
qed

lemma then_retain_or_drop: "R r s \<Longrightarrow> R r (retain_or_drop s i cid left now)"
  by (simp add: retain_or_drop_def Let_def then_warning then_rx then_append_rx)

end

section \<open>The entry points\<close>

text \<open>The calls a host makes, the two log polls apart.\<close>

datatype server_call =
    On_opened gsp_conn_id "bytes option" gsp_time_us
  | On_bytes gsp_conn_id bytes gsp_time_us
  | On_closed gsp_conn_id gsp_close_cause gsp_time_us
  | Tick gsp_time_us
  | Set_player "gsp_player_info option" gsp_time_us
  | Send_player_info gsp_conn_id "gsp_player_info option" gsp_time_us
  | Set_session_state gsp_session_state gsp_time_us
  | Poll_writes nat
  | Close

fun call_state :: "server_call \<Rightarrow> gsp_server \<Rightarrow> gsp_server" where
  "call_state (On_opened cid peer now) s = snd (gsp_server_on_connection_opened s cid peer now)"
| "call_state (On_bytes cid data now) s = snd (gsp_server_on_bytes s cid data now)"
| "call_state (On_closed cid cause now) s = snd (gsp_server_on_connection_closed s cid cause now)"
| "call_state (Tick now) s = gsp_server_tick s now"
| "call_state (Set_player info now) s = snd (gsp_server_set_player s info now)"
| "call_state (Send_player_info cid info now) s = snd (gsp_server_send_player_info s cid info now)"
| "call_state (Set_session_state state now) s = snd (gsp_server_set_session_state s state now)"
| "call_state (Poll_writes n) s = snd (gsp_server_poll_writes s n)"
| "call_state Close s = gsp_server_close s"

lemma length_conns_ops [simp]:
  "length (s_conns (send_player_to s i p reason now)) = length (s_conns s)"
  "length (s_conns (send_session_to s i state reason now)) = length (s_conns s)"
  "length (s_conns (tick_conn now i s)) = length (s_conns s)"
  "length (s_conns (end_conn s i cause now)) = length (s_conns s)"
  by (simp_all add: send_player_to_def send_session_to_def tick_conn_def end_conn_def drop_writes_for_def
      case_prod_beta split: option.split)

lemma space_writes_writes [simp]: "s_writes (space_writes s cid) = s_writes s"
  by (simp add: space_writes_def split: option.split)

text \<open>What the host does that leaves the connections as they are.\<close>

locale server_host = server_base R for R :: "gsp_server \<Rightarrow> gsp_server \<Rightarrow> bool" +
  assumes clock: "R s (s\<lparr>s_now_us := now\<rparr>)"
    and player: "R s (s\<lparr>s_player := p, s_player_set := True\<rparr>)"
    and session: "R s (s\<lparr>s_session_state := st\<rparr>)"
begin

lemma then_clock: "R r s \<Longrightarrow> R r (s\<lparr>s_now_us := now\<rparr>)"
  by (rule after [OF _ clock])

lemma tick_ok: "R s (gsp_server_tick s now)"
  by (auto simp: gsp_server_tick_def same tick_conn_def clock intro!: then_for_conns then_simple then_slot simp: rx_side_def)

lemma set_player_ok: "R s (snd (gsp_server_set_player s info now))"
proof -
  have "R s (s\<lparr>s_now_us := now, s_player := p, s_player_set := True\<rparr>)" for p
    using after [OF clock [of s now] player [of _ p]] by simp
  then show ?thesis
    by (auto simp: gsp_server_set_player_def same Let_def split: option.split
        intro!: then_for_conns then_send_player)
qed

lemma send_player_info_ok: "R s (snd (gsp_server_send_player_info s cid info now))"
  by (auto simp: gsp_server_send_player_info_def same Let_def clock split: option.split dest: find_conn_live
      intro!: then_for_conns then_send_player)

lemma set_session_state_ok: "R s (snd (gsp_server_set_session_state s state now))"
proof -
  have "R s (s\<lparr>s_now_us := now, s_session_state := state\<rparr>)"
    using after [OF clock [of s now] session [of _ state]] by simp
  then show ?thesis
    by (auto simp: gsp_server_set_session_state_def same Let_def clock
        intro!: then_for_conns then_send_session)
qed

end

text \<open>Taking writes out of the ring.\<close>

locale server_out = server_host R for R :: "gsp_server \<Rightarrow> gsp_server \<Rightarrow> bool" +
  assumes spaced: "R s (upd_conn i (\<lambda>c. c\<lparr>c_next_write_us := due\<rparr>) s)"
    and removed: "i < rg_count (s_writes s) \<Longrightarrow> R s (s\<lparr>s_writes := ring_remove (s_writes s) i\<rparr>)"
begin

lemma release_ok:
  assumes "i < rg_count (s_writes s)"
  shows "R s (release_write s i)"
proof -
  define w where "w = ring_nth (s_writes s) i"
  define t where "t = space_writes (wire_push_bytes s (w_conn w) GSP_WIRE_SERVER_TO_CLIENT
    (take (unat (w_length w)) (w_data w)) (s_now_us s) False 0) (w_conn w)"
  have "R s t" by (auto simp: t_def space_writes_def wire split: option.split intro!: after [OF wire spaced])
  moreover have "s_writes t = s_writes s" by (simp add: t_def)
  with removed [of i t] assms have "R t (t\<lparr>s_writes := ring_remove (s_writes s) i\<rparr>)" by simp
  ultimately show ?thesis
    by (simp add: release_write_def Let_def w_def [symmetric] t_def [symmetric] after [of s t])
qed

lemma poll_writes_ok: "R s (snd (poll_writes_loop s i left))"
proof (induction s i left rule: poll_writes_loop.induct)
  case (1 s i left)
  show ?case
  proof (cases "i < rg_count (s_writes s) \<and> 0 < left")
    case True
    with 1 have "R s (snd (poll_writes_loop (release_write s i) i (left - 1)))"
      if "\<not> held_back s (w_conn (ring_nth (s_writes s) i))"
      using that after [OF release_ok [of i s]] by simp
    with True 1(1) show ?thesis
      by (simp add: poll_writes_loop.simps [of s] Let_def case_prod_beta)
  next
    case False
    then show ?thesis by (auto simp: poll_writes_loop.simps [of s] same)
  qed
qed

end

text \<open>The bytes of a connection.\<close>

locale server_feed = server_steps R + server_host R for R :: "gsp_server \<Rightarrow> gsp_server \<Rightarrow> bool"
begin

lemma bytes_ok: "R s (snd (gsp_server_on_bytes s cid data now))"
proof (cases "s_closed s \<or> find_conn s cid = None")
  case False
  then obtain i where i: "find_conn s cid = Some i" by auto
  have "R s (s\<lparr>s_now_us := now\<rparr>)" "live (s\<lparr>s_now_us := now\<rparr>) i"
    using find_conn_live [OF i] by (simp_all add: clock)
  from then_on_bytes_loop [OF this, of data 0 now] show ?thesis
    using False i by (simp add: gsp_server_on_bytes_def case_prod_beta then_retain_or_drop)
qed (auto simp: gsp_server_on_bytes_def same)

end

text \<open>A new connection.\<close>

locale server_opens = server_feed R for R :: "gsp_server \<Rightarrow> gsp_server \<Rightarrow> bool" +
  assumes opened: "find_conn s cid = None \<Longrightarrow> cid \<noteq> 0 \<Longrightarrow> cid \<noteq> 0xffffffff \<Longrightarrow> i < length (s_conns s) \<Longrightarrow>
      \<not> c_used (conn s i) \<Longrightarrow> R s (upd_conn i (\<lambda>c. open_slot cid peer now) s)"
begin

lemma opened_ok: "R s (snd (gsp_server_on_connection_opened s cid peer now))"
proof (cases "\<not> s_closed s \<and> cid \<noteq> 0 \<and> cid \<noteq> 0xffffffff \<and> find_conn s cid = None")
  case True
  show ?thesis
  proof (cases "find (\<lambda>i. \<not> c_used (conn s i)) (slots s)")
    case (Some i)
    then have i: "i < length (s_conns s)" "\<not> c_used (conn s i)"
      using find_SomeD [OF Some] by (simp_all add: slots_def)
    define t where "t = upd_conn i (\<lambda>c. open_slot cid peer now) (s\<lparr>s_now_us := now\<rparr>)"
    have cn: "conn (s\<lparr>s_now_us := now\<rparr>) = conn s" by (simp add: conn_def fun_eq_iff)
    then have "R s t"
      unfolding t_def using True i after [OF clock opened] by (simp add: find_conn_def slots_def)
    moreover have "live t i" using i by (simp add: t_def live_def open_slot_def)
    ultimately have "R s (greet t i now)" by (rule then_greet)
    then show ?thesis using True Some by (simp add: gsp_server_on_connection_opened_def t_def)
  qed (use True in \<open>simp add: gsp_server_on_connection_opened_def same\<close>)
qed (auto simp: gsp_server_on_connection_opened_def same)

end

text \<open>Every call.\<close>

locale server_calls = server_opens R + server_out R for R :: "gsp_server \<Rightarrow> gsp_server \<Rightarrow> bool" +
  assumes closed: "R s (s\<lparr>s_closed := True\<rparr>)"
    and ended: "live s i \<Longrightarrow> R s (upd_conn i (\<lambda>c. c\<lparr>c_used := False\<rparr>) (drop_writes_for s (conn_id s i)))"
begin

lemma end_conn_ok:
  assumes "R r s" "live s i"
  shows "R r (end_conn s i cause now)"
proof -
  define t where "t = emit_connection s GSP_EV_CONNECTION_CLOSED i cause now"
  have "R r t" "live t i" "conn_id t i = conn_id s i"
    using assms by (simp_all add: t_def then_connection)
  with ended [of t i] show ?thesis by (simp add: end_conn_def t_def [symmetric] after)
qed

lemma closed_ok: "R s (snd (gsp_server_on_connection_closed s cid cause now))"
  by (auto simp: gsp_server_on_connection_closed_def same clock end_conn_ok dest: find_conn_live
      split: option.split)

lemma close_ok: "R s (gsp_server_close s)"
  by (auto simp: gsp_server_close_def same intro!: after [OF _ closed] then_for_conns end_conn_ok)

theorem call_ok: "R s (call_state c s)"
  by (cases c) (simp_all add: opened_ok bytes_ok closed_ok tick_ok set_player_ok send_player_info_ok
      set_session_state_ok close_ok gsp_server_poll_writes_def poll_writes_ok)

end

end
