(* ===== verification/ServerLog.thy ===== *)
theory ServerLog
  imports ServerSteps
begin

text \<open>
  The two logs of the server, events and wire chunks. The invariant says that each ring is a
  well-formed circular buffer holding the most recent items with consecutive sequence numbers,
  and that every event's union member is the one its type names; the account (what has been
  numbered, less what was dropped and what is still held) moves only when the host polls.
\<close>

section \<open>The invariant of the logs\<close>

text \<open>A ring whose items number consecutively up to, and not including, \<open>nxt\<close>.\<close>

definition numbered :: "('a \<Rightarrow> u32) \<Rightarrow> u32 \<Rightarrow> 'a list \<Rightarrow> bool" where
  "numbered sq nxt xs \<longleftrightarrow> (\<forall>i < length xs. sq (xs ! i) = nxt - of_nat (length xs - i))"

lemma numbered_Nil [simp]: "numbered sq nxt []"
  by (simp add: numbered_def)

lemma numbered_snoc:
  assumes "numbered sq nxt xs" "sq x = nxt"
  shows "numbered sq (nxt + 1) (xs @ [x])"
  unfolding numbered_def
proof (intro allI impI)
  fix i assume i: "i < length (xs @ [x])"
  show "sq ((xs @ [x]) ! i) = nxt + 1 - of_nat (length (xs @ [x]) - i)"
  proof (cases "i < length xs")
    case True
    then have "length (xs @ [x]) - i = Suc (length xs - i)" by simp
    then show ?thesis using True assms(1) by (simp add: numbered_def nth_append)
  next
    case False
    with i have "i = length xs" by simp
    then show ?thesis using assms(2) by simp
  qed
qed

lemma numbered_drop: "numbered sq nxt xs \<Longrightarrow> numbered sq nxt (drop n xs)"
  by (auto simp: numbered_def add.commute)

lemma numbered_tl: "numbered sq nxt xs \<Longrightarrow> numbered sq nxt (tl xs)"
  using numbered_drop [of sq nxt xs 1] by (simp add: drop_Suc)

definition wire_ring_ok :: "gsp_wire_chunk ring \<Rightarrow> bool" where
  "wire_ring_ok r \<longleftrightarrow> ring_ok r \<or> (ring_cap r = 0 \<and> rg_count r = 0)"

definition log_inv :: "gsp_server \<Rightarrow> bool" where
  "log_inv s \<longleftrightarrow> ring_ok (s_events s) \<and> wire_ring_ok (s_wire s) \<and>
     (\<forall>ev \<in> set (ring_items (s_events s)). event_tagged ev) \<and>
     numbered ev_sequence (s_event_sequence s) (ring_items (s_events s)) \<and>
     numbered wc_sequence (s_wire_sequence s) (ring_items (s_wire s))"

definition account :: "gsp_server \<Rightarrow> u32 \<times> u32 \<times> nat \<times> nat" where
  "account s =
     (s_event_sequence s - s_dropped_events s - of_nat (rg_count (s_events s)),
      s_wire_sequence s - s_dropped_wire s - of_nat (rg_count (s_wire s)),
      ring_cap (s_events s), ring_cap (s_wire s))"

definition log_step :: "gsp_server \<Rightarrow> gsp_server \<Rightarrow> bool" where
  "log_step s t \<longleftrightarrow> (log_inv s \<longrightarrow> log_inv t \<and> account t = account s)"

definition log_part ::
  "gsp_server \<Rightarrow> gsp_event ring \<times> gsp_wire_chunk ring \<times> u32 \<times> u32 \<times> u32 \<times> u32" where
  "log_part s = (s_events s, s_wire s, s_event_sequence s, s_wire_sequence s, s_dropped_events s, s_dropped_wire s)"

lemma log_step_refl [simp]: "log_step s s"
  by (simp add: log_step_def)

lemma log_step_trans [trans]: "log_step s t \<Longrightarrow> log_step t u \<Longrightarrow> log_step s u"
  by (simp add: log_step_def)

lemma log_inv_cong: "log_part t = log_part s \<Longrightarrow> log_inv t = log_inv s \<and> account t = account s"
  by (simp add: log_part_def log_inv_def account_def)

lemma log_step_same: "log_step s t \<Longrightarrow> log_part u = log_part t \<Longrightarrow> log_step s u"
  using log_inv_cong [of u t] by (simp add: log_step_def)

section \<open>Emitting an event\<close>

text \<open>A push on a full ring drops the oldest item and nothing else.\<close>

definition push_last :: "nat \<Rightarrow> 'a list \<Rightarrow> 'a \<Rightarrow> 'a list" where
  "push_last cap xs x = (if length xs = cap then tl xs else xs) @ [x]"

lemma set_push_last: "set (push_last cap xs x) \<subseteq> insert x (set xs)"
  by (cases xs) (auto simp: push_last_def)

lemma numbered_push_last: "numbered sq nxt xs \<Longrightarrow> sq x = nxt \<Longrightarrow> numbered sq (nxt + 1) (push_last cap xs x)"
  by (simp add: push_last_def numbered_snoc numbered_tl)

lemma ring_push_event_items:
  assumes "ring_ok (s_events s)"
  shows "ring_ok (s_events (ring_push_event s ev)) \<and>
    ring_cap (s_events (ring_push_event s ev)) = ring_cap (s_events s) \<and>
    ring_items (s_events (ring_push_event s ev)) = push_last (ring_cap (s_events s)) (ring_items (s_events s)) ev \<and>
    s_dropped_events (ring_push_event s ev) =
      s_dropped_events s + (if rg_count (s_events s) = ring_cap (s_events s) then 1 else 0)"
proof -
  have "0 < ring_cap (s_events s)" using assms by (auto simp: ring_ok_def)
  then show ?thesis
    using ring_queue.push_oldest [OF assms _ refl, of ev]
    by (simp add: ring_push_event_def push_last_def Let_def split: if_splits)
qed

lemma log_step_push:
  assumes "event_tagged ev" "ev_sequence ev = s_event_sequence s"
  shows "log_step s (ring_push_event (next_event_sequence s) ev)"
  unfolding log_step_def
proof
  assume inv: "log_inv s"
  define t where "t = ring_push_event (next_event_sequence s) ev"
  have ok: "ring_ok (s_events (next_event_sequence s))"
    using inv by (simp add: log_inv_def next_event_sequence_def)
  note it = ring_push_event_items [OF this, of ev, folded t_def]
  have same: "s_events (next_event_sequence s) = s_events s" "s_dropped_events (next_event_sequence s) = s_dropped_events s"
    by (simp_all add: next_event_sequence_def)
  have other: "s_event_sequence t = s_event_sequence s + 1" "s_wire t = s_wire s"
    "s_wire_sequence t = s_wire_sequence s" "s_dropped_wire t = s_dropped_wire s"
    by (simp_all add: t_def ring_push_event_def next_event_sequence_def Let_def)
  have "rg_count (s_events t) = length (push_last (ring_cap (s_events s)) (ring_items (s_events s)) ev)"
    using it same by (metis ring_items_length)
  then have count: "rg_count (s_events t) =
      (if rg_count (s_events s) = ring_cap (s_events s) then rg_count (s_events s) else rg_count (s_events s) + 1)"
    using ok same by (auto simp: push_last_def ring_ok_def)
  have "\<forall>e \<in> set (ring_items (s_events t)). event_tagged e"
    using inv it same assms(1) set_push_last [of "ring_cap (s_events s)" "ring_items (s_events s)" ev]
    by (auto simp: log_inv_def)
  moreover have "numbered ev_sequence (s_event_sequence t) (ring_items (s_events t))"
    using inv it same assms(2) other by (simp add: log_inv_def numbered_push_last)
  ultimately show "log_inv (ring_push_event (next_event_sequence s) ev) \<and>
      account (ring_push_event (next_event_sequence s) ev) = account s"
    using inv it same other count unfolding t_def [symmetric] by (simp add: log_inv_def account_def)
qed

lemma log_step_emit:
  assumes "event_tagged ev"
  shows "log_step s (emit s ev)"
proof -
  define t where "t = ring_push_event (next_event_sequence s) (ev\<lparr>ev_sequence := s_event_sequence s\<rparr>)"
  have st: "log_step s t"
    unfolding t_def by (rule log_step_push) (use assms in \<open>simp_all add: event_tagged_def\<close>)
  then have "log_step s (t\<lparr>s_drop_warned := 1\<rparr>)"
    by (rule log_step_same) (simp add: log_part_def)
  also have "log_step (t\<lparr>s_drop_warned := 1\<rparr>)
      (ring_push_event (next_event_sequence (t\<lparr>s_drop_warned := 1\<rparr>)) w)"
    if "event_tagged w" "ev_sequence w = s_event_sequence t" for w
    by (rule log_step_push) (use that in simp_all)
  finally have "log_step s (ring_push_event (next_event_sequence (t\<lparr>s_drop_warned := 1\<rparr>)) w)"
    if "event_tagged w" "ev_sequence w = s_event_sequence t" for w
    using that by blast
  then show ?thesis
    using st by (simp add: emit_def Let_def t_def [symmetric] event_tagged_def)
qed

section \<open>Pushing a wire chunk\<close>

lemma mark_lost_sel [simp]:
  "wc_sequence (mark_lost c) = wc_sequence c" "wc_data (mark_lost c) = wc_data c"
  "wc_conn (mark_lost c) = wc_conn c" "wc_direction (mark_lost c) = wc_direction c"
  by (simp_all add: mark_lost_def)

lemma numbered_map: "map sq ys = map sq xs \<Longrightarrow> numbered sq nxt ys = numbered sq nxt xs"
proof -
  assume eq: "map sq ys = map sq xs"
  have len: "length ys = length xs" using arg_cong [OF eq, of length] by simp
  have "sq (ys ! i) = sq (xs ! i)" if "i < length xs" for i
    using arg_cong [OF eq, of "\<lambda>l. l ! i"] that len by simp
  with len show ?thesis by (simp add: numbered_def)
qed

lemma wire_make_room_ring:
  assumes "ring_ok (s_wire s)"
  shows "ring_ok (s_wire (wire_make_room s)) \<and> ring_cap (s_wire (wire_make_room s)) = ring_cap (s_wire s) \<and>
    rg_count (s_wire (wire_make_room s)) < ring_cap (s_wire s) \<and>
    map wc_sequence (ring_items (s_wire (wire_make_room s))) =
      map wc_sequence (if rg_count (s_wire s) = ring_cap (s_wire s) then tl (ring_items (s_wire s))
                       else ring_items (s_wire s)) \<and>
    s_dropped_wire (wire_make_room s) =
      s_dropped_wire s + (if rg_count (s_wire s) = ring_cap (s_wire s) then 1 else 0)"
proof (cases "rg_count (s_wire s) = ring_cap (s_wire s)")
  case True
  define r where "r = ring_drop (s_wire s)"
  have r: "ring_ok r" "ring_cap r = ring_cap (s_wire s)" "ring_items r = tl (ring_items (s_wire s))"
    "rg_count r = ring_cap (s_wire s) - 1" "0 < ring_cap (s_wire s)"
    using assms True by (auto simp: r_def ring_drop_ok ring_drop_items) (auto simp: ring_ok_def)
  have "map wc_sequence (ring_items (ring_store r 0 (mark_lost (ring_nth r 0)))) = map wc_sequence (ring_items r)"
    if "0 < rg_count r"
    using that r(1) ring_items_nth [of 0 r]
    by (simp add: ring_store_items map_update list_update_same_conv)
  with True r show ?thesis
    by (simp add: wire_make_room_def Let_def r_def [symmetric])
next
  case False
  with assms show ?thesis by (simp add: wire_make_room_def ring_ok_def)
qed

lemma wire_make_room_sel [simp]:
  "s_events (wire_make_room s) = s_events s" "s_event_sequence (wire_make_room s) = s_event_sequence s"
  "s_dropped_events (wire_make_room s) = s_dropped_events s"
  "s_wire_sequence (wire_make_room s) = s_wire_sequence s"
  by (simp_all add: wire_make_room_def Let_def)

lemma log_step_warning: "log_step s t \<Longrightarrow> log_step s (emit_warning t cid code v txt now)"
  unfolding emit_warning_def by (erule log_step_trans [OF _ log_step_emit]) simp

lemma log_step_wire_push:
  assumes "wire_on s" "wc_sequence chunk = s_wire_sequence s"
  shows "log_step s (wire_ring_push (s\<lparr>s_wire_sequence := s_wire_sequence s + 1\<rparr>) chunk)"
proof -
  define s1 where "s1 = s\<lparr>s_wire_sequence := s_wire_sequence s + 1\<rparr>"
  define s2 where "s2 = wire_make_room s1"
  define x where "x = (if s_wire_lost_pending s2 then mark_lost chunk else chunk)"
  define s3 where "s3 = s2\<lparr>s_wire := ring_put (s_wire s2) x, s_wire_lost_pending := False\<rparr>"
  have st: "log_step s s3"
    unfolding log_step_def
  proof
    assume inv: "log_inv s"
    have ok: "ring_ok (s_wire s1)" "s_wire s1 = s_wire s"
      using inv assms(1) by (auto simp: log_inv_def wire_ring_ok_def wire_on_def s1_def)
    note rm = wire_make_room_ring [OF ok(1), folded s2_def]
    have it: "ring_items (s_wire s3) = ring_items (s_wire s2) @ [x]" "ring_ok (s_wire s3)"
      "ring_cap (s_wire s3) = ring_cap (s_wire s)" "rg_count (s_wire s3) = rg_count (s_wire s2) + 1"
      using rm ok by (simp_all add: s3_def ring_put_items ring_queue.enqueue_ok ring_queue.enqueue_cap)
        (simp add: ring_put_def)
    have "numbered wc_sequence (s_wire_sequence s) (ring_items (s_wire s2))"
      using inv ok numbered_map [of wc_sequence "ring_items (s_wire s2)"
          "if rg_count (s_wire s) = ring_cap (s_wire s) then tl (ring_items (s_wire s)) else ring_items (s_wire s)"] rm
      by (simp add: log_inv_def numbered_tl)
    then have "numbered wc_sequence (s_wire_sequence s3) (ring_items (s_wire s3))"
      using assms(2) it by (simp add: numbered_snoc x_def s3_def s2_def s1_def)
    moreover have "length (map wc_sequence (ring_items (s_wire s2))) =
        (if rg_count (s_wire s) = ring_cap (s_wire s) then rg_count (s_wire s) - 1 else rg_count (s_wire s))"
      using rm ok by (simp del: length_map) simp
    then have "rg_count (s_wire s2) =
        (if rg_count (s_wire s) = ring_cap (s_wire s) then rg_count (s_wire s) - 1 else rg_count (s_wire s))"
      by simp
    moreover have "0 < ring_cap (s_wire s)" using assms(1) by (simp add: wire_on_def)
    ultimately show "log_inv s3 \<and> account s3 = account s"
      using inv it rm ok
      by (auto simp: log_inv_def account_def wire_ring_ok_def s3_def s2_def s1_def split: if_splits)
  qed
  have "wire_ring_push s1 chunk =
      (if s_wire_drop_warned s3 = 2 then
         emit_warning (s3\<lparr>s_wire_drop_warned := 1\<rparr>) GSP_CONN_NONE GSP_WARN_WIRE_DROPPED (s_dropped_wire s3)
           ''wire ring overflowed; oldest chunks were dropped'' (s_now_us s3)
       else s3)"
    by (simp add: wire_ring_push_def Let_def s3_def x_def s2_def)
  moreover have "log_step s (s3\<lparr>s_wire_drop_warned := 1\<rparr>)"
    using st by (rule log_step_same) (simp add: log_part_def)
  ultimately show ?thesis
    using st log_step_warning unfolding s1_def [symmetric] by auto
qed

lemma wire_chunk_sequence [simp]:
  "wc_sequence (fst (wire_chunk s cid direction data now redact extra_flags r off)) = s_wire_sequence s"
  by (simp add: wire_chunk_def Let_def split: prod.split)

lemma wire_on_log_step:
  assumes "log_step s t" "log_inv s" "wire_on s"
  shows "wire_on t"
  using assms by (simp add: log_step_def account_def wire_on_def)

lemma log_step_push_loop:
  assumes "wire_on s"
  shows "log_step s (wire_push_loop s cid direction data now redact extra_flags r off)"
  unfolding log_step_def
proof
  assume "log_inv s"
  with assms show "log_inv (wire_push_loop s cid direction data now redact extra_flags r off) \<and>
      account (wire_push_loop s cid direction data now redact extra_flags r off) = account s"
  proof (induction s cid direction data now redact extra_flags r off rule: wire_push_loop.induct)
    case (1 s cid direction data now redact extra_flags r off)
    obtain chunk r1 where ch: "wire_chunk s cid direction data now redact extra_flags r off = (chunk, r1)"
      by fastforce
    define t where "t = wire_ring_push (s\<lparr>s_wire_sequence := s_wire_sequence s + 1\<rparr>) chunk"
    have "log_step s t"
      using 1(2) ch wire_chunk_sequence [of s cid direction data now redact extra_flags r off]
      unfolding t_def by (intro log_step_wire_push) simp_all
    with 1(2,3) have "log_inv t" "account t = account s" "wire_on t"
      using wire_on_log_step [of s t] by (simp_all add: log_step_def)
    with 1(1) [OF ch [symmetric] t_def refl] show ?case
      by (simp add: wire_push_loop.simps [of s] ch t_def [symmetric] Let_def)
  qed
qed

lemma log_step_push_bytes:
  "log_step s t \<Longrightarrow> log_step s (wire_push_bytes t cid direction data now redact extra_flags)"
  unfolding wire_push_bytes_def using log_step_push_loop log_step_trans by auto

section \<open>Every operation keeps the logs\<close>

lemma log_part_upd_conn [simp]: "log_part (upd_conn i f s) = log_part s"
  by (simp add: log_part_def upd_conn_def)

lemma log_part_queue_write [simp]: "log_part (snd (queue_write s cid kind code message player)) = log_part s"
  by (simp add: queue_write_def Let_def log_part_def split: prod.split)

lemma log_part_sel [simp]:
  "log_part (s\<lparr>s_now_us := now\<rparr>) = log_part s" "log_part (s\<lparr>s_closed := b\<rparr>) = log_part s"
  "log_part (s\<lparr>s_player := p, s_player_set := b\<rparr>) = log_part s"
  "log_part (s\<lparr>s_session_state := st\<rparr>) = log_part s" "log_part (s\<lparr>s_message_sequence := n\<rparr>) = log_part s"
  "log_part (s\<lparr>s_writes := ws\<rparr>) = log_part s"
  by (simp_all add: log_part_def)

lemma log_part_drop_writes [simp]: "log_part (drop_writes_for s cid) = log_part s"
  by (simp add: drop_writes_for_def)

lemma log_part_step: "log_part t = log_part s \<Longrightarrow> log_step s t"
  by (rule log_step_same [OF log_step_refl])

interpretation logs: server_calls log_step
proof unfold_locales
  show "log_step s (emit s (new_event type cid now u))" if "union_of_type type u" for s type cid now u
    using that by (simp add: log_step_emit)
  show "log_step s (wire_push_bytes s cid direction data now redact extra_flags)"
    for s cid direction data now redact extra_flags
    by (simp add: wire_push_bytes_def log_step_push_loop)
qed (auto intro: log_step_trans log_part_step)

section \<open>Polling the logs\<close>

lemma log_inv_poll_events:
  assumes "log_inv s" "gsp_server_poll_events s n = (evs, t)"
  shows "log_inv t" "evs = take n (ring_items (s_events s))"
    "ring_items (s_events t) = drop n (ring_items (s_events s))"
    "account t = (fst (account s) + of_nat (length evs), snd (account s))"
proof -
  have ok: "ring_ok (s_events s)" using assms(1) by (simp add: log_inv_def)
  obtain xs r where p: "ring_poll (s_events s) n = (xs, r)" by fastforce
  have r: "xs = take n (ring_items (s_events s))" "ring_ok r" "ring_items r = drop n (ring_items (s_events s))"
    "ring_cap r = ring_cap (s_events s)"
    using ring_poll_items [OF ok, of n] p by simp_all
  have same: "n = 0 \<Longrightarrow> r = s_events s" using p by simp
  have t: "evs = xs" "s_events t = r" "log_part t = (r, snd (log_part s))"
    using assms(2) p same by (auto simp: gsp_server_poll_events_def log_part_def split: if_splits)
  then have "rg_count r = rg_count (s_events s) - n" by (metis length_drop r(3) ring_items_length)
  moreover have "length xs = min (rg_count (s_events s)) n" by (simp add: r(1) min.commute)
  ultimately have "rg_count (s_events s) = length xs + rg_count r" by simp
  then have "(of_nat (rg_count (s_events s)) :: u32) = of_nat (length xs) + of_nat (rg_count r)"
    by (simp only: of_nat_add)
  then show "account t = (fst (account s) + of_nat (length evs), snd (account s))"
    using t r(4) by (simp add: account_def log_part_def)
  show "evs = take n (ring_items (s_events s))" "ring_items (s_events t) = drop n (ring_items (s_events s))"
    using t r by simp_all
  have "\<forall>ev \<in> set (ring_items r). event_tagged ev"
    using assms(1) r(3) by (auto simp: log_inv_def dest: in_set_dropD)
  then show "log_inv t"
    using assms(1) t r by (simp add: log_inv_def log_part_def numbered_drop)
qed

lemma log_inv_poll_wire:
  assumes "log_inv s" "gsp_server_poll_wire s n = (cs, t)"
  shows "log_inv t" "cs = take n (ring_items (s_wire s))"
    "ring_items (s_wire t) = drop n (ring_items (s_wire s))"
    "account t = (fst (account s), fst (snd (account s)) + of_nat (length cs), snd (snd (account s)))"
proof -
  obtain xs r where p: "ring_poll (s_wire s) n = (xs, r)" by fastforce
  have r: "xs = take n (ring_items (s_wire s)) \<and> wire_ring_ok r \<and> ring_items r = drop n (ring_items (s_wire s)) \<and>
    ring_cap r = ring_cap (s_wire s)"
  proof (cases "ring_ok (s_wire s)")
    case True
    then show ?thesis using ring_poll_items [OF True, of n] p by (simp add: wire_ring_ok_def)
  next
    case False
    then have off: "ring_cap (s_wire s) = 0" "rg_count (s_wire s) = 0"
      using assms(1) by (auto simp: log_inv_def wire_ring_ok_def)
    then have "ring_items (s_wire s) = []" by (simp add: ring_items_def)
    moreover have "xs = []" "r = s_wire s" using p off by (cases n; simp)+
    ultimately show ?thesis using off by (simp add: wire_ring_ok_def)
  qed
  have none: "\<not> wire_on s \<Longrightarrow> xs = [] \<and> r = s_wire s"
  proof -
    assume "\<not> wire_on s"
    then have "rg_count (s_wire s) = 0" using assms(1) by (auto simp: log_inv_def wire_ring_ok_def wire_on_def ring_ok_def)
    then show ?thesis using p by (cases n) auto
  qed
  have same: "n = 0 \<Longrightarrow> xs = [] \<and> r = s_wire s" using p by simp
  have t: "cs = xs" "s_wire t = r" "log_part t = (s_events s, r, snd (snd (log_part s)))"
    using assms(2) p same none by (auto simp: gsp_server_poll_wire_def log_part_def split: if_splits)
  then have "rg_count r = rg_count (s_wire s) - n" using r by (metis length_drop ring_items_length)
  moreover have "length xs = min (rg_count (s_wire s)) n" using r by (simp add: min.commute)
  ultimately have "rg_count (s_wire s) = length xs + rg_count r" by simp
  then have "(of_nat (rg_count (s_wire s)) :: u32) = of_nat (length xs) + of_nat (rg_count r)"
    by (simp only: of_nat_add)
  moreover have "ring_cap r = ring_cap (s_wire s)" using r by blast
  ultimately show "account t = (fst (account s), fst (snd (account s)) + of_nat (length cs), snd (snd (account s)))"
    using t by (simp add: account_def log_part_def)
  show "cs = take n (ring_items (s_wire s))" "ring_items (s_wire t) = drop n (ring_items (s_wire s))"
    using t r by simp_all
  show "log_inv t"
    using assms(1) t r by (simp add: log_inv_def log_part_def numbered_drop)
qed

end
