(* ===== verification/ServerWrites.thy ===== *)
theory ServerWrites
  imports ServerSteps
begin

text \<open>
  The write ring and the connection table. The invariant: connection ids are unique and never
  one of the two reserved values, and every queued write is a complete reply, of the code its
  kind names, addressed to a connection that is open.
\<close>

section \<open>Slots of a ring\<close>

lemma ring_nth_in_slots: "ring_ok r \<Longrightarrow> ring_nth r i \<in> set (rg_slots r)"
  using ring_index_less [of r i] by (simp add: ring_nth_def ring_cap_def)

lemma ring_store_slots: "set (rg_slots (ring_store r i x)) \<subseteq> insert x (set (rg_slots r))"
  by (simp add: set_update_subset_insert)

lemma ring_put_slots: "set (rg_slots (ring_put r x)) \<subseteq> insert x (set (rg_slots r))"
  using ring_store_slots [of r "rg_count r" x] by (simp add: ring_put_def)

lemma ring_store_nth_slots: "ring_ok r \<Longrightarrow> set (rg_slots (ring_store r i (ring_nth r k))) \<subseteq> set (rg_slots r)"
  using ring_store_slots [of r i "ring_nth r k"] ring_nth_in_slots [of r k] by blast

lemma ring_shift_slots: "ring_ok r \<Longrightarrow> set (rg_slots (ring_shift r k)) \<subseteq> set (rg_slots r)"
proof (induction r k rule: ring_shift.induct)
  case (2 r k)
  then have "set (rg_slots (ring_shift (ring_store r (Suc k) (ring_nth r k)) k))
      \<subseteq> set (rg_slots (ring_store r (Suc k) (ring_nth r k)))"
    by (metis ring_store_sel(5))
  with ring_store_nth_slots [OF 2(2)] show ?case unfolding ring_shift.simps by blast
qed simp

lemma ring_remove_slots: "ring_ok r \<Longrightarrow> set (rg_slots (ring_remove r k)) \<subseteq> set (rg_slots r)"
  using ring_shift_slots [of r k] by (simp add: ring_remove_def ring_drop_def)

lemma ring_compact_loop_slots:
  "ring_ok r \<Longrightarrow> set (rg_slots (fst (ring_compact_loop P r i keep todo))) \<subseteq> set (rg_slots r)"
proof (induction P r i keep todo rule: ring_compact_loop.induct)
  case (2 P r i keep todo)
  define r1 where "r1 = (if keep \<noteq> i then ring_store r keep (ring_nth r i) else r)"
  have r1: "ring_ok r1" "set (rg_slots r1) \<subseteq> set (rg_slots r)"
    using 2(3) ring_store_nth_slots [OF 2(3)] by (simp_all add: r1_def)
  then have "set (rg_slots (fst (ring_compact_loop P r1 (i + 1) (keep + 1) todo))) \<subseteq> set (rg_slots r)"
    if "\<not> P (ring_nth r i)"
    using 2(2) [OF HOL.refl that, folded r1_def] by blast
  with 2(1) [OF HOL.refl] 2(3) show ?case
    by (simp only: ring_compact_loop.simps Let_def r1_def [symmetric] split: if_split) blast
qed simp

lemma ring_compact_slots: "ring_ok r \<Longrightarrow> set (rg_slots (ring_compact P r)) \<subseteq> set (rg_slots r)"
  using ring_compact_loop_slots [of r P 0 0 "rg_count r"] by (simp add: ring_compact_def case_prod_beta)

section \<open>Open connections\<close>

definition is_open :: "gsp_server \<Rightarrow> gsp_conn_id \<Rightarrow> bool" where
  "is_open s cid \<longleftrightarrow> find_conn s cid \<noteq> None"

lemma is_open_iff: "is_open s cid \<longleftrightarrow> (\<exists>i. live s i \<and> conn_id s i = cid)"
  by (auto simp: is_open_def find_conn_def slots_def find_None_iff live_def)

definition ids_ok :: "gsp_server \<Rightarrow> bool" where
  "ids_ok s \<longleftrightarrow>
     (\<forall>i < length (s_conns s). \<forall>k < length (s_conns s).
        c_used (conn s i) \<and> c_used (conn s k) \<and> conn_id s i = conn_id s k \<longrightarrow> i = k) \<and>
     (\<forall>i < length (s_conns s). c_used (conn s i) \<longrightarrow> conn_id s i \<noteq> 0 \<and> conn_id s i \<noteq> 0xffffffff)"

lemma ids_ok_iff:
  "ids_ok s \<longleftrightarrow> (\<forall>i k. live s i \<longrightarrow> live s k \<longrightarrow> conn_id s i = conn_id s k \<longrightarrow> i = k) \<and>
     (\<forall>i. live s i \<longrightarrow> conn_id s i \<noteq> 0 \<and> conn_id s i \<noteq> 0xffffffff)"
  unfolding ids_ok_def live_def by blast

lemma ids_okD:
  "ids_ok s \<Longrightarrow> live s i \<Longrightarrow> live s k \<Longrightarrow> conn_id s i = conn_id s k \<Longrightarrow> i = k"
  "ids_ok s \<Longrightarrow> live s i \<Longrightarrow> conn_id s i \<noteq> 0 \<and> conn_id s i \<noteq> 0xffffffff"
  by (auto simp: ids_ok_iff)

lemma ids_okI:
  assumes "\<And>i k. live s i \<Longrightarrow> live s k \<Longrightarrow> conn_id s i = conn_id s k \<Longrightarrow> i = k"
    and "\<And>i. live s i \<Longrightarrow> conn_id s i \<noteq> 0 \<and> conn_id s i \<noteq> 0xffffffff"
  shows "ids_ok s"
  using assms by (simp add: ids_ok_iff)

lemma find_conn_unique: "ids_ok s \<Longrightarrow> live s i \<Longrightarrow> find_conn s (conn_id s i) = Some i"
  using find_conn_live [of s "conn_id s i"] is_open_iff [of s "conn_id s i"]
  by (cases "find_conn s (conn_id s i)") (auto simp: is_open_def intro: ids_okD(1))

section \<open>The invariant of the writes\<close>

definition reply_of :: "gsp_write_request \<Rightarrow> bytes" where
  "reply_of w = take (unat (w_length w)) (w_data w)"

definition write_ok :: "gsp_write_request \<Rightarrow> bool" where
  "write_ok w \<longleftrightarrow> unat (w_length w) < 256 \<and>
     (\<exists>message player. reply_of w = response_text (code_of_kind (w_kind w)) (Some message) player)"

definition out_inv :: "gsp_server \<Rightarrow> bool" where
  "out_inv s \<longleftrightarrow> ring_ok (s_writes s) \<and> (\<forall>w \<in> set (rg_slots (s_writes s)). length (w_data w) = 256) \<and>
     (\<forall>w \<in> set (ring_items (s_writes s)). write_ok w \<and> is_open s (w_conn w)) \<and> ids_ok s"

definition out_step :: "gsp_server \<Rightarrow> gsp_server \<Rightarrow> bool" where
  "out_step s t \<longleftrightarrow> (out_inv s \<longrightarrow> out_inv t)"

text \<open>What \<^verbatim>\<open>queue_write\<close> does, exactly.\<close>

definition reply_text :: "gsp_write_kind \<Rightarrow> bytes \<Rightarrow> gsp_player_info option \<Rightarrow> bytes" where
  "reply_text kind message player = response_text (code_of_kind kind) (Some message) player"

lemma code_of_kind_ours: "code_of_kind kind \<in> {200, 201, 202, 203, 501}"
  by (cases kind) simp_all

lemma response_encode_reply:
  assumes "length data = 256"
  shows "gsp_response_encode (code_of_kind kind) (Some message) player data =
    encodes (reply_text kind message player) data"
  unfolding reply_text_def
  by (rule gsp_response_encode_value [OF _ code_of_kind_ours]) (use assms in auto)

text \<open>The slot after a reply \<open>t\<close> was written into it.\<close>

definition filled :: "gsp_write_request \<Rightarrow> gsp_conn_id \<Rightarrow> gsp_write_kind \<Rightarrow> bytes \<Rightarrow> gsp_write_request" where
  "filled old cid kind t =
     \<lparr>w_conn = cid, w_length = of_nat (length t), w_kind = kind,
      w_data = t @ [NUL] @ drop (length t + 1) (w_data old)\<rparr>"

lemma filled_sel [simp]:
  "w_conn (filled old cid kind t) = cid" "w_kind (filled old cid kind t) = kind"
  "length t < 256 \<Longrightarrow> reply_of (filled old cid kind t) = t"
  "length t < 256 \<Longrightarrow> unat (w_length (filled old cid kind t)) = length t"
  "length t < 256 \<Longrightarrow> length (w_data old) = 256 \<Longrightarrow> length (w_data (filled old cid kind t)) = 256"
  by (simp_all add: filled_def reply_of_def unat_of_nat)

definition next_slot :: "gsp_server \<Rightarrow> gsp_write_request" where
  "next_slot s = ring_nth (s_writes s) (rg_count (s_writes s))"

lemma next_slot_length: "out_inv s \<Longrightarrow> length (w_data (next_slot s)) = 256"
  using ring_nth_in_slots [of "s_writes s"] by (simp add: out_inv_def next_slot_def)

lemma queue_write_eq:
  assumes "out_inv s" "code_of_kind kind = code"
  shows "queue_write s cid kind code message player =
    (if write_ring_full s \<or> 256 \<le> length (reply_text kind message player) then (False, s)
     else (True, s\<lparr>s_writes := ring_put (s_writes s)
             (filled (next_slot s) cid kind (reply_text kind message player))\<rparr>))"
  using response_encode_reply [OF next_slot_length [OF assms(1)], of kind message player]
    next_slot_length [OF assms(1)] assms(2)
  by (auto simp: queue_write_def Let_def next_slot_def [symmetric] encodes_def failed_def filled_def)

section \<open>Every operation keeps the writes\<close>

lemma is_open_conns: "s_conns t = s_conns s \<Longrightarrow> is_open t cid = is_open s cid"
  by (simp add: is_open_iff live_def conn_def)

lemma ids_ok_conns: "s_conns t = s_conns s \<Longrightarrow> ids_ok t = ids_ok s"
  by (simp add: ids_ok_def conn_def)

lemma out_step_same: "s_conns t = s_conns s \<Longrightarrow> s_writes t = s_writes s \<Longrightarrow> out_step s t"
  using is_open_conns [of t s] ids_ok_conns [of t s] by (simp add: out_step_def out_inv_def)

lemma out_step_queue:
  assumes "live s i" "code_of_kind kind = code"
  shows "out_step s (snd (queue_write s (conn_id s i) kind code message player))"
  unfolding out_step_def
proof
  assume inv: "out_inv s"
  define t where "t = reply_text kind message player"
  show "out_inv (snd (queue_write s (conn_id s i) kind code message player))"
  proof (cases "write_ring_full s \<or> 256 \<le> length t")
    case False
    define w where "w = filled (next_slot s) (conn_id s i) kind t"
    have w: "length (w_data w) = 256" "write_ok w" "is_open s (w_conn w)"
      using False assms(1) next_slot_length [OF inv]
      by (auto simp: w_def write_ok_def is_open_iff t_def reply_text_def)
    have ok: "ring_ok (s_writes s)" "rg_count (s_writes s) < ring_cap (s_writes s)"
      using inv False by (simp_all add: out_inv_def write_ring_full_def)
    define u where "u = s\<lparr>s_writes := ring_put (s_writes s) w\<rparr>"
    have u: "s_conns u = s_conns s" by (simp add: u_def)
    have "out_inv u"
      using inv w ok ring_put_slots [of "s_writes s" w] ring_queue.enqueue_ok [of "s_writes s" w]
        is_open_conns [OF u] ids_ok_conns [OF u]
      by (auto simp: out_inv_def u_def ring_put_items)
    then show ?thesis
      using False by (simp add: queue_write_eq [OF inv assms(2)] t_def [symmetric] w_def [symmetric] u_def)
  qed (use inv in \<open>simp add: queue_write_eq [OF inv assms(2)] t_def\<close>)
qed

lemma conn_id_upd_conn:
  assumes "\<And>c. c_used (f c) = c_used c \<and> ci_conn (c_info (f c)) = ci_conn (c_info c)"
  shows "conn_id (upd_conn k f s) i = conn_id s i" "live (upd_conn k f s) i = live s i"
    "is_open (upd_conn k f s) cid = is_open s cid" "ids_ok (upd_conn k f s) = ids_ok s"
proof -
  show id: "conn_id (upd_conn k f s) i = conn_id s i" for i using assms by (simp add: conn_upd_conn)
  show lv: "live (upd_conn k f s) i = live s i" for i using assms by (simp add: live_upd_conn)
  show "is_open (upd_conn k f s) cid = is_open s cid" by (simp only: is_open_iff id lv)
  show "ids_ok (upd_conn k f s) = ids_ok s"
    by (simp only: ids_ok_iff id lv)
qed

lemma out_step_open:
  assumes "find_conn s cid = None" "cid \<noteq> 0" "cid \<noteq> 0xffffffff" "i < length (s_conns s)" "\<not> c_used (conn s i)"
  shows "out_step s (upd_conn i (\<lambda>c. open_slot cid peer now) s)"
proof -
  define t where "t = upd_conn i (\<lambda>c. open_slot cid peer now) s"
  have t: "live t k \<longleftrightarrow> k = i \<or> live s k" "conn_id t k = (if k = i then cid else conn_id s k)" for k
    using assms(4) by (auto simp: t_def live_def conn_upd_conn open_slot_def)
  have new: "\<not> live s i" "live s k \<Longrightarrow> conn_id s k \<noteq> cid" for k
    using assms(1,5) is_open_iff [of s cid] by (auto simp: live_def is_open_def)
  have "ids_ok t" if "ids_ok s"
    using ids_okD [OF that] t new assms(2,3) by (intro ids_okI) (auto split: if_splits)
  moreover have "is_open t d" if "is_open s d" for d
    using that t new unfolding is_open_iff by metis
  ultimately show ?thesis
    unfolding t_def [symmetric] by (auto simp: out_step_def out_inv_def t_def)
qed

lemma drop_writes_conns [simp]:
  "s_conns (drop_writes_for s cid) = s_conns s" "conn (drop_writes_for s cid) i = conn s i"
  by (simp_all add: drop_writes_for_def conn_def)

lemma out_step_ended:
  assumes "live s i"
  shows "out_step s (upd_conn i (\<lambda>c. c\<lparr>c_used := False\<rparr>) (drop_writes_for s (conn_id s i)))"
  unfolding out_step_def
proof
  define t where "t = upd_conn i (\<lambda>c. c\<lparr>c_used := False\<rparr>) (drop_writes_for s (conn_id s i))"
  assume inv: "out_inv s"
  have ok: "ring_ok (s_writes s)" "ids_ok s" using inv by (simp_all add: out_inv_def)
  have t: "live t k \<longleftrightarrow> k \<noteq> i \<and> live s k" "conn_id t k = conn_id s k" for k
    by (auto simp: t_def live_def conn_upd_conn)
  have wr: "s_writes t = ring_compact (\<lambda>w. w_conn w = conn_id s i) (s_writes s)"
    by (simp add: t_def drop_writes_for_def)
  have op: "is_open t d" if "is_open s d" "d \<noteq> conn_id s i" for d
    using that t by (auto simp: is_open_iff)
  have "ids_ok t" using ids_okD [OF ok(2)] t by (intro ids_okI) auto
  then have "out_inv t"
    using inv ring_compact_items [OF ok(1), of "\<lambda>w. w_conn w = conn_id s i"]
      ring_compact_slots [OF ok(1), of "\<lambda>w. w_conn w = conn_id s i"] op
    by (auto simp: out_inv_def wr)
  then show "out_inv (upd_conn i (\<lambda>c. c\<lparr>c_used := False\<rparr>) (drop_writes_for s (conn_id s i)))"
    by (simp add: t_def)
qed

lemma out_step_removed:
  assumes "i < rg_count (s_writes s)"
  shows "out_step s (s\<lparr>s_writes := ring_remove (s_writes s) i\<rparr>)"
  unfolding out_step_def
proof
  assume inv: "out_inv s"
  then have ok: "ring_ok (s_writes s)" by (simp add: out_inv_def)
  have same: "s_conns (s\<lparr>s_writes := ring_remove (s_writes s) i\<rparr>) = s_conns s" by simp
  show "out_inv (s\<lparr>s_writes := ring_remove (s_writes s) i\<rparr>)"
    using inv ring_remove_items [OF ok assms] ring_remove_slots [OF ok, of i]
      is_open_conns [OF same] ids_ok_conns [OF same]
    by (auto simp: out_inv_def dest: in_set_takeD in_set_dropD)
qed

lemma out_step_trans: "out_step s t \<Longrightarrow> out_step t u \<Longrightarrow> out_step s u"
  by (simp add: out_step_def)

lemma out_step_upd_conn:
  "(\<And>c. c_used (f c) = c_used c \<and> ci_conn (c_info (f c)) = ci_conn (c_info c)) \<Longrightarrow> out_step s (upd_conn i f s)"
  using conn_id_upd_conn(3,4) [of f] by (simp add: out_step_def out_inv_def)

interpretation writes: server_calls out_step
proof unfold_locales
  show "out_step s (upd_conn i f s)" if "\<And>c. rx_side (f c) = rx_side c \<and> c_next_write_us (f c) = c_next_write_us c" for f s i
    by (rule out_step_upd_conn) (use that in \<open>simp add: rx_side_def\<close>)
qed (auto intro: out_step_same out_step_queue out_step_open out_step_ended out_step_removed out_step_trans
    out_step_upd_conn)

end
