(* ===== verification/ServerRx.thy ===== *)
theory ServerRx
  imports ServerSteps
begin

text \<open>
  The receive side. What the sizes of the server are is fixed at creation; delivering and
  sending leave every slot's pending bytes alone; and between two calls a slot either holds
  the beginning of one object, all of it seen by the framer and within the bound, or bytes the
  framer has not been given. From that follows that a read is never stuck: there is always
  room for at least one byte more.
\<close>

section \<open>What stays fixed\<close>

definition static :: "gsp_server \<Rightarrow> gsp_server_policy \<times> nat \<times> nat \<times> nat" where
  "static s = (s_policy s, s_max_message_bytes s, s_rx_capacity s, length (s_conns s))"

lemma static_core: "core t = core s \<Longrightarrow> static t = static s"
  by (simp add: core_def static_def)

lemma static_fields [simp]:
  "static (s\<lparr>s_message_sequence := n\<rparr>) = static s" "static (s\<lparr>s_now_us := now\<rparr>) = static s"
  "static (s\<lparr>s_player := p, s_player_set := b\<rparr>) = static s" "static (s\<lparr>s_session_state := st\<rparr>) = static s"
  "static (s\<lparr>s_closed := b\<rparr>) = static s" "static (s\<lparr>s_writes := ws\<rparr>) = static s"
  by (simp_all add: static_def)

lemma static_upd_conn [simp]: "static (upd_conn i f s) = static s"
  by (simp add: static_def)

lemma static_queue_write [simp]: "static (snd (queue_write s cid kind code message player)) = static s"
  by (simp add: queue_write_def Let_def split: prod.split)

lemma static_drop_writes [simp]: "static (drop_writes_for s cid) = static s"
  by (simp add: drop_writes_for_def)

interpretation fixed: server_calls "\<lambda>s t. static t = static s"
  by unfold_locales (auto intro: static_core)

lemma static_selD:
  "static t = static s \<Longrightarrow> s_max_message_bytes t = s_max_message_bytes s"
  "static t = static s \<Longrightarrow> s_rx_capacity t = s_rx_capacity s"
  "static t = static s \<Longrightarrow> length (s_conns t) = length (s_conns s)"
  by (simp_all add: static_def)

section \<open>Sending and delivering leave the pending bytes alone\<close>

lemma rx_sides_fields [simp]:
  "rx_sides (s\<lparr>s_now_us := now\<rparr>) = rx_sides s" "rx_sides (s\<lparr>s_player := p, s_player_set := b\<rparr>) = rx_sides s"
  "rx_sides (s\<lparr>s_session_state := st\<rparr>) = rx_sides s" "rx_sides (s\<lparr>s_writes := ws\<rparr>) = rx_sides s"
  "rx_sides (s\<lparr>s_closed := b\<rparr>) = rx_sides s"
  by (simp_all add: rx_sides_def)

interpretation rxs: server_out "\<lambda>s t. rx_sides t = rx_sides s"
  by unfold_locales (auto simp: rx_sides_upd_conn rx_side_def intro: rx_sides_core)

section \<open>The invariant of the receive side\<close>

text \<open>During a call: what the loop keeps. Between calls: one of the two states above.\<close>

definition rx_loop_ok :: "nat \<Rightarrow> gs_framer \<Rightarrow> bytes \<Rightarrow> nat \<Rightarrow> bool" where
  "rx_loop_ok bound f buf seen \<longleftrightarrow> seen \<le> length buf \<and> length buf \<le> bound + 1 \<and> framer_ok f \<and>
     (gs_framer_in_message f \<longrightarrow> 0 < seen \<and> seen \<le> bound)"

definition rx_quiet :: "nat \<Rightarrow> gs_framer \<Rightarrow> bytes \<Rightarrow> nat \<Rightarrow> bool" where
  "rx_quiet bound f buf seen \<longleftrightarrow> rx_loop_ok bound f buf seen \<and>
     seen = (if gs_framer_in_message f then length buf else 0)"

definition conn_loop_ok :: "gsp_server \<Rightarrow> nat \<Rightarrow> bool" where
  "conn_loop_ok s i \<longleftrightarrow> rx_loop_ok (s_max_message_bytes s) (c_framer (conn s i)) (c_rx (conn s i)) (c_scan (conn s i))"

definition conn_quiet :: "gsp_server \<Rightarrow> nat \<Rightarrow> bool" where
  "conn_quiet s i \<longleftrightarrow> rx_quiet (s_max_message_bytes s) (c_framer (conn s i)) (c_rx (conn s i)) (c_scan (conn s i))"

definition rx_inv :: "gsp_server \<Rightarrow> bool" where
  "rx_inv s \<longleftrightarrow> s_rx_capacity s = s_max_message_bytes s + 1 \<and> (\<forall>i < length (s_conns s). conn_quiet s i)"

lemma conn_quiet_cong:
  assumes "rx_side (conn t i) = rx_side (conn s i)" "s_max_message_bytes t = s_max_message_bytes s"
  shows "conn_quiet t i = conn_quiet s i" "conn_loop_ok t i = conn_loop_ok s i"
  using assms by (simp_all add: conn_quiet_def conn_loop_ok_def rx_side_def)

lemma rx_inv_same: "rx_sides t = rx_sides s \<Longrightarrow> static t = static s \<Longrightarrow> rx_inv s \<Longrightarrow> rx_inv t"
  using rx_sides_D [of t s] conn_quiet_cong(1) [of t _ s] by (auto simp: rx_inv_def static_def)

text \<open>One turn of the loop on the slot it works on.\<close>

lemma feed_framer:
  assumes "gs_framer_feed f b = (f', step)"
  shows "framer_ok f \<Longrightarrow> framer_ok f'" "step = GS_FRAME_CLOSE \<Longrightarrow> \<not> gs_framer_in_message f'"
  using assms gs_framer_feed_ok [of f b]
  by (auto simp: gs_framer_feed_def gs_framer_in_message_def word_neq_0_conv split: if_splits)

lemma conn_upd_after:
  assumes "rx_sides t = rx_sides s" "i < length (s_conns s)" "static t = static s"
  shows "rx_side (conn (upd_conn i compact t) i) = rx_side (compact (conn s i))"
    "rx_side (conn (upd_conn i reset_rx t) i) = rx_side (reset_rx (conn s i))"
  using rx_sides_D [OF assms(1)] assms(2) by (simp_all add: rx_side_def compact_def reset_rx_def)

lemma conn_okI:
  assumes "rx_side (conn t i) = (u, d, f, buf, seen)" "s_max_message_bytes t = bound"
  shows "rx_loop_ok bound f buf seen \<Longrightarrow> conn_loop_ok t i" "rx_quiet bound f buf seen \<Longrightarrow> conn_quiet t i"
  using assms by (auto simp: conn_loop_ok_def conn_quiet_def rx_side_def)

lemma quiet_loop_ok: "conn_quiet s i \<Longrightarrow> conn_loop_ok s i"
  unfolding conn_quiet_def conn_loop_ok_def rx_quiet_def by blast

lemma reset_quiet:
  assumes "rx_side (conn t i) = rx_side (reset_rx c)"
  shows "conn_quiet t i"
  using assms by (simp add: conn_quiet_def rx_quiet_def rx_loop_ok_def rx_side_def reset_rx_def
      gs_framer_in_message_def gs_framer_reset_def) (simp add: framer_ok_def)

lemma take_step_rx:
  assumes "conn_loop_ok s i" "i < length (s_conns s)" "c_scan (conn s i) < length (c_rx (conn s i))" "live s i"
  shows "case take_step s i now of Inr t \<Rightarrow> conn_loop_ok t i | Inl (st, d, t) \<Rightarrow> conn_quiet t i"
proof -
  let ?Q = "\<lambda>f step. gs_framer_feed (c_framer (conn s i)) (c_rx (conn s i) ! c_scan (conn s i)) = (f, step)"
  have "static (outcome (take_step s i now)) = static s"
    using fixed.then_take_step [of s s i now] assms(4) by simp
  then have mb: "s_max_message_bytes (outcome (take_step s i now)) = s_max_message_bytes s"
    by (rule static_selD)
  show ?thesis
  proof (rule take_step_cases [of s i ?Q now])
    fix f snippet n
    assume "take_step s i now = Inl (GSP_OK, True,
      upd_conn i reset_rx (protocol_error s i GSP_PE_LEADING_GARBAGE snippet n now))"
    then show ?thesis
      using reset_quiet conn_upd_after(2) [of "protocol_error s i GSP_PE_LEADING_GARBAGE snippet n now" s i]
        assms(2,4) fixed.then_protocol_error [of s s i] by simp
  next
    fix f s1 obj
    assume q: "?Q f GS_FRAME_CLOSE" and s1: "s1 = upd_conn i (\<lambda>c. c\<lparr>c_framer := f, c_scan := c_scan c + 1\<rparr>) s"
      and t: "take_step s i now =
        (if fst (deliver_message s1 i obj now) then Inr (upd_conn i compact (snd (deliver_message s1 i obj now)))
         else Inl (GSP_OK, True, upd_conn i reset_rx (snd (deliver_message s1 i obj now))))"
    define s2 where "s2 = snd (deliver_message s1 i obj now)"
    have i1: "i < length (s_conns s1)" "live s1 i" using assms(2,4) by (simp_all add: s1 live_upd_conn)
    have "static s2 = static s1" using fixed.then_deliver [of s1 s1 i] i1 by (simp add: s2_def)
    moreover have rx2: "rx_sides s2 = rx_sides s1" by (simp add: s2_def)
    ultimately have after: "rx_side (conn (upd_conn i compact s2) i) = rx_side (compact (conn s1 i))"
      "rx_side (conn (upd_conn i reset_rx s2) i) = rx_side (reset_rx (conn s1 i))" and
      mb2: "s_max_message_bytes (upd_conn i compact s2) = s_max_message_bytes s"
      using conn_upd_after [OF rx2 i1(1)] by (simp_all add: static_def s1)
    have "rx_side (conn (upd_conn i compact s2) i) =
        (c_used (conn s i), conn_id s i, f, drop (c_scan (conn s i) + 1) (c_rx (conn s i)), 0)"
      unfolding after(1) using assms(2) by (simp add: s1 compact_def rx_side_def)
    moreover have "rx_loop_ok (s_max_message_bytes s) f (drop (c_scan (conn s i) + 1) (c_rx (conn s i))) 0"
      using assms(1) feed_framer [OF q] by (auto simp: conn_loop_ok_def rx_loop_ok_def)
    ultimately have "conn_loop_ok (upd_conn i compact s2) i" using conn_okI(1) mb2 by blast
    moreover have "conn_quiet (upd_conn i reset_rx s2) i"
      by (rule reset_quiet [OF after(2)])
    ultimately show ?thesis using t by (simp add: s2_def)
  next
    fix f s1 step snippet n
    assume s1: "s1 = upd_conn i (\<lambda>c. c\<lparr>c_framer := f, c_scan := c_scan c + 1\<rparr>) s"
      and t: "take_step s i now = Inl (GSP_OK, True, upd_conn i reset_rx (protocol_error s1 i GSP_PE_TOO_LARGE snippet n now))"
    have i1: "i < length (s_conns s1)" "live s1 i" using assms(2,4) by (simp_all add: s1 live_upd_conn)
    then show ?thesis
      using reset_quiet conn_upd_after(2) [of "protocol_error s1 i GSP_PE_TOO_LARGE snippet n now" s1 i]
        t fixed.then_protocol_error [of s1 s1 i] by simp
  next
    fix f s1 step
    assume q: "?Q f step" and s1: "s1 = upd_conn i (\<lambda>c. c\<lparr>c_framer := f, c_scan := c_scan c + 1\<rparr>) s"
      and "c_scan (conn s1 i) \<le> s_max_message_bytes s" "take_step s i now = Inr s1"
    then show ?thesis
      using assms(1,2,3) feed_framer [OF q] by (auto simp: conn_loop_ok_def rx_loop_ok_def)
  qed
qed

lemma compact_quiet:
  "conn_loop_ok s i \<Longrightarrow> i < length (s_conns s) \<Longrightarrow> \<not> gs_framer_in_message (c_framer (conn s i)) \<Longrightarrow>
   conn_quiet (upd_conn i compact s) i"
  by (auto simp: conn_loop_ok_def conn_quiet_def rx_quiet_def rx_loop_ok_def compact_def)

lemma frame_step_rx:
  assumes "conn_loop_ok s i" "c_scan (conn s i) < length (c_rx (conn s i))" "live s i"
  shows "case frame_step s i now of Inr t \<Rightarrow> conn_loop_ok t i | Inl (st, d, t) \<Rightarrow> conn_quiet t i"
proof -
  have i: "i < length (s_conns s)" using assms(3) by (simp add: live_def)
  have "conn_loop_ok (upd_conn i compact s) i" if "\<not> gs_framer_in_message (c_framer (conn s i))"
    using quiet_loop_ok [OF compact_quiet [OF assms(1) i that]] .
  moreover have "c_scan (conn (upd_conn i compact s) i) < length (c_rx (conn (upd_conn i compact s) i))"
    using assms(2) i by (simp add: compact_def)
  moreover have "conn_loop_ok (upd_conn i (\<lambda>c. c\<lparr>c_scan := c_scan c + 1\<rparr>) s) i"
    if "\<not> gs_framer_in_message (c_framer (conn s i))"
    using assms i that by (simp add: conn_loop_ok_def rx_loop_ok_def)
  ultimately show ?thesis
    using assms i take_step_rx [of s i now] take_step_rx [of "upd_conn i compact s" i now] compact_quiet [of s i]
    by (simp add: frame_step_def Let_def)
qed

text \<open>After a pass over the pending bytes; when nothing was refused there is room again.\<close>

lemma take_step_status: "take_step s i now = Inl (st, d, t) \<Longrightarrow> st = GSP_OK \<and> d"
  by (rule take_step_cases [of s i "\<lambda>_ _. True" now]) (auto split: if_splits)

lemma frame_step_status:
  "frame_step s i now = Inl (st, d, t) \<Longrightarrow> i < length (s_conns s) \<Longrightarrow>
   st = GSP_OK \<and> d \<or> st = GSP_ERR_QUEUE_FULL \<and> \<not> d \<and> \<not> gs_framer_in_message (c_framer (conn t i))"
  by (auto simp: frame_step_def Let_def compact_def dest: take_step_status split: if_splits)

lemma frame_pending_cases [case_names turn return rest]:
  assumes "frame_pending s i now = (st, d, t)"
  obtains (turn) u where "i < length (s_conns s)" "c_scan (conn s i) < length (c_rx (conn s i))"
      "frame_step s i now = Inr u" "frame_pending u i now = (st, d, t)"
    | (return) "i < length (s_conns s)" "c_scan (conn s i) < length (c_rx (conn s i))"
      "frame_step s i now = Inl (st, d, t)"
    | (rest) "\<not> (i < length (s_conns s) \<and> c_scan (conn s i) < length (c_rx (conn s i)))" "st = GSP_OK" "\<not> d"
      "t = (if gs_framer_in_message (c_framer (conn s i)) then s else upd_conn i compact s)"
  using assms
  by (cases "i < length (s_conns s) \<and> c_scan (conn s i) < length (c_rx (conn s i))"; cases "frame_step s i now")
    (auto simp: frame_pending.simps [of s])

lemma frame_pending_rx:
  assumes "conn_loop_ok s i" "live s i" "frame_pending s i now = (st, d, t)"
  shows "conn_quiet t i \<and> (st = GSP_OK \<longrightarrow> length (c_rx (conn t i)) \<le> s_max_message_bytes t) \<and>
    (st = GSP_OK \<or> st = GSP_ERR_QUEUE_FULL \<and> \<not> d \<and> \<not> gs_framer_in_message (c_framer (conn t i)))"
  using assms
proof (induction s i now rule: frame_pending.induct)
  case (1 s i now)
  from 1(4) show ?case
  proof (cases rule: frame_pending_cases)
    case (turn u)
    then have "conn_loop_ok u i" "live u i"
      using frame_step_rx [OF 1(2) turn(2) 1(3), of now] live_frame_step [of s i now i] 1(3) by simp_all
    with 1(1) [OF _ turn(3)] turn show ?thesis by simp
  next
    case return
    have q: "conn_quiet t i" using frame_step_rx [OF 1(2) return(2) 1(3), of now] return(3) by simp
    have "c_rx (conn t i) = []" if "d" using frame_step_Inl [of s i now st t] return that by simp
    then show ?thesis using q frame_step_status [OF return(3,1)] by auto
  next
    case rest
    have i: "i < length (s_conns s)" using 1(3) by (simp add: live_def)
    show ?thesis
    proof (cases "gs_framer_in_message (c_framer (conn s i))")
      case True
      with rest i 1(2) show ?thesis by (auto simp: conn_quiet_def rx_quiet_def conn_loop_ok_def rx_loop_ok_def)
    next
      case False
      with compact_quiet [OF 1(2) i False] rest i show ?thesis by (simp add: compact_def)
    qed
  qed
qed

section \<open>Other slots\<close>

lemmas rx_side_protocol_error = rx_sides_D(2) [OF rx_sides_protocol_error]
lemmas rx_side_deliver = rx_sides_D(2) [OF rx_sides_deliver_message]

lemma take_step_other:
  assumes "k \<noteq> i" "k < length (s_conns s)"
  shows "rx_side (conn (outcome (take_step s i now)) k) = rx_side (conn s k)"
  by (rule take_step_cases [of s i "\<lambda>_ _. True" now])
    (use assms in \<open>simp_all add: rx_side_protocol_error rx_side_deliver\<close>)

lemma frame_step_other:
  assumes "k \<noteq> i" "k < length (s_conns s)"
  shows "rx_side (conn (outcome (frame_step s i now)) k) = rx_side (conn s k)"
  using assms take_step_other [of k i s now] take_step_other [of k i "upd_conn i compact s" now]
  by (simp add: frame_step_def Let_def)

lemma frame_pending_other:
  assumes "frame_pending s i now = (st, d, t)" "k \<noteq> i" "k < length (s_conns s)" "live s i"
  shows "rx_side (conn t k) = rx_side (conn s k)"
  using assms
proof (induction s i now rule: frame_pending.induct)
  case (1 s i now)
  from 1(2) show ?case
  proof (cases rule: frame_pending_cases)
    case (turn u)
    have "length (s_conns u) = length (s_conns s)" "live u i" "rx_side (conn u k) = rx_side (conn s k)"
      using fixed.then_frame_step [of s s i now] frame_step_other [of k i s now] live_frame_step [of s i now i]
        turn(3) 1(3-5) by (simp_all add: static_def)
    with 1(1) [OF _ turn(3)] turn 1(3,4) show ?thesis by simp
  next
    case return
    then show ?thesis using frame_step_other [OF 1(3,4), of now] by simp
  next
    case rest
    then show ?thesis using 1(3) by simp
  qed
qed

section \<open>Receiving\<close>

lemma append_rx_loop_ok:
  assumes "conn_quiet s i" "live s i" "length (c_rx (conn s i)) + length bs \<le> s_max_message_bytes s + 1"
  shows "conn_loop_ok (append_rx s i bs) i"
  using assms by (auto simp: append_rx_def live_def conn_quiet_def conn_loop_ok_def rx_quiet_def rx_loop_ok_def)

lemma append_rx_other: "k \<noteq> i \<Longrightarrow> conn (append_rx s i bs) k = conn s k"
  by (simp add: append_rx_def)

lemma append_rx_static [simp]: "static (append_rx s i bs) = static s"
  by (simp add: append_rx_def)

text \<open>
  One call of \<^verbatim>\<open>gsp_server_on_bytes\<close>'s loop. When the buffer had room to begin with, a
  call that is not refused takes every byte it was given.
\<close>

lemma on_bytes_loop_rx:
  assumes "conn_quiet s i" "live s i" "s_rx_capacity s = s_max_message_bytes s + 1"
    "on_bytes_loop s i data pos now = (st, pos', t)" "pos \<le> length data"
  shows "conn_quiet t i \<and>
    (st = GSP_OK \<or> st = GSP_ERR_QUEUE_FULL \<and> \<not> gs_framer_in_message (c_framer (conn t i))) \<and> pos' \<le> length data \<and>
    (st = GSP_OK \<longrightarrow> length (c_rx (conn s i)) \<le> s_max_message_bytes s \<longrightarrow> pos' = length data) \<and>
    (\<forall>k < length (s_conns s). k \<noteq> i \<longrightarrow> rx_side (conn t k) = rx_side (conn s k))"
  using assms
proof (induction s i data pos now rule: on_bytes_loop.induct)
  case (1 s i data pos now)
  define taken where "taken = room_taken s i data pos"
  define s1 where "s1 = append_rx s i (take taken (drop pos data))"
  obtain st1 d t1 where fp: "frame_pending s1 i now = (st1, d, t1)" by (metis prod_cases3)
  have tk: "taken \<le> length data - pos" "length (c_rx (conn s i)) + taken \<le> s_max_message_bytes s + 1"
    using 1(3,5) by (auto simp: taken_def room_taken_def conn_quiet_def rx_quiet_def rx_loop_ok_def)
  have s1: "conn_loop_ok s1 i" "live s1 i" "static s1 = static s"
    using append_rx_loop_ok [OF 1(3,4)] 1(4) tk by (simp_all add: s1_def)
  note rx = frame_pending_rx [OF s1(1,2) fp]
  have t1: "live t1 i" "static t1 = static s"
    using fixed.then_frame_pending [of s1 s1 i now] s1 fp by simp_all
  have other: "rx_side (conn t1 k) = rx_side (conn s k)" if "k < length (s_conns s)" "k \<noteq> i" for k
    using frame_pending_other [OF fp that(2) _ s1(2)] that s1(3) by (simp add: s1_def append_rx_other static_def append_rx_def)
  have cap: "s_rx_capacity t1 = s_max_message_bytes t1 + 1" "s_max_message_bytes t1 = s_max_message_bytes s"
    "length (s_conns t1) = length (s_conns s)"
    using t1(2) 1(5) by (simp_all add: static_def)
  have loop: "on_bytes_loop s i data pos now =
      (if d then on_bytes_loop t1 i data (length data) now
       else if st1 = GSP_ERR_QUEUE_FULL \<or> length data \<le> pos + taken \<or> taken = 0 then (st1, pos + taken, t1)
       else on_bytes_loop t1 i data (pos + taken) now)"
    by (simp add: on_bytes_loop.simps [of s] taken_def [symmetric] s1_def [symmetric] fp Let_def)
  note IH = 1(1,2) [OF taken_def, unfolded s1_def [symmetric], OF fp [symmetric] refl]
  consider "d" | "\<not> d" "st1 = GSP_ERR_QUEUE_FULL \<or> length data \<le> pos + taken \<or> taken = 0"
    | "\<not> d" "\<not> (st1 = GSP_ERR_QUEUE_FULL \<or> length data \<le> pos + taken \<or> taken = 0)" by blast
  then show ?case
  proof cases
    case 1
    then have "on_bytes_loop t1 i data (length data) now = (st, pos', t)"
      "st1 = GSP_OK" using \<open>on_bytes_loop s i data pos now = (st, pos', t)\<close> loop rx by auto
    with IH(1) [OF 1 _ t1(1) cap(1)] rx other cap show ?thesis by auto
  next
    case 2
    then have "st = st1" "pos' = pos + taken" "t = t1"
      using \<open>on_bytes_loop s i data pos now = (st, pos', t)\<close> loop by auto
    moreover have "0 < taken" if "length (c_rx (conn s i)) \<le> s_max_message_bytes s" "pos < length data"
      using that \<open>s_rx_capacity s = s_max_message_bytes s + 1\<close> by (simp add: taken_def room_taken_def)
    then have "pos = length data" if "length (c_rx (conn s i)) \<le> s_max_message_bytes s" "taken = 0"
      using that \<open>pos \<le> length data\<close> by (metis le_neq_implies_less less_irrefl)
    ultimately show ?thesis using 2 rx other tk \<open>pos \<le> length data\<close> by auto
  next
    case 3
    then have "on_bytes_loop t1 i data (pos + taken) now = (st, pos', t)" "st1 = GSP_OK"
      using \<open>on_bytes_loop s i data pos now = (st, pos', t)\<close> loop rx by auto
    with IH(2) [OF 3 _ t1(1) cap(1)] rx other cap tk \<open>pos \<le> length data\<close> show ?thesis by auto
  qed
qed

section \<open>Every call keeps the receive side\<close>

lemma conn_quiet_upd:
  assumes "\<And>c. c_framer (f c) = c_framer c \<and> c_rx (f c) = c_rx c \<and> c_scan (f c) = c_scan c"
  shows "conn_quiet (upd_conn i f s) k = conn_quiet s k"
  using assms by (simp add: conn_quiet_def conn_upd_conn)

lemma rx_inv_end_conn: "rx_inv s \<Longrightarrow> live s i \<Longrightarrow> rx_inv (end_conn s i cause now)"
proof -
  assume inv: "rx_inv s" and "live s i"
  define t where "t = drop_writes_for (emit_connection s GSP_EV_CONNECTION_CLOSED i cause now) (conn_id s i)"
  have "rx_sides t = rx_sides s" by (simp add: t_def drop_writes_for_def)
  moreover have "static t = static s" by (simp add: t_def fixed.then_connection)
  ultimately have "rx_inv t" using inv rx_inv_same by blast
  then show ?thesis
    by (simp add: end_conn_def t_def [symmetric] rx_inv_def conn_quiet_upd)
qed

lemma rx_inv_for_conns:
  assumes "\<And>i s. live s i \<Longrightarrow> rx_inv s \<Longrightarrow> rx_inv (body i s) \<and> length (s_conns (body i s)) = length (s_conns s)"
    and "rx_inv s"
  shows "rx_inv (for_conns body s)"
proof -
  have "rx_inv (fold (\<lambda>i s. if c_used (conn s i) then body i s else s) is t)"
    if "rx_inv t" "\<forall>i \<in> set is. i < length (s_conns t)" for "is" t
    using that
  proof (induction "is" arbitrary: t)
    case (Cons i "is")
    then show ?case using assms(1) [of t i] by (auto simp: live_def)
  qed simp
  then show ?thesis using assms(2) by (simp add: for_conns_def slots_def)
qed

lemma rx_inv_close: "rx_inv s \<Longrightarrow> rx_inv (gsp_server_close s)"
proof -
  assume inv: "rx_inv s"
  define t where "t = for_conns (\<lambda>i s. end_conn s i GSP_CLOSE_SERVER_CLOSED (s_now_us s)) s"
  have "rx_inv t" unfolding t_def by (rule rx_inv_for_conns [OF _ inv]) (simp add: rx_inv_end_conn)
  then have "rx_inv (t\<lparr>s_closed := True\<rparr>)" by (rule rx_inv_same [rotated -1]) simp_all
  then show ?thesis using inv by (simp add: gsp_server_close_def t_def)
qed

lemma rx_inv_opened: "rx_inv s \<Longrightarrow> rx_inv (snd (gsp_server_on_connection_opened s cid peer now))"
proof (cases "\<not> s_closed s \<and> cid \<noteq> 0 \<and> cid \<noteq> 0xffffffff \<and> find_conn s cid = None")
  case True
  assume inv: "rx_inv s"
  show ?thesis
  proof (cases "find (\<lambda>i. \<not> c_used (conn s i)) (slots s)")
    case (Some i)
    then have i: "i < length (s_conns s)" using find_SomeD [OF Some] by (simp add: slots_def)
    define s1 where "s1 = upd_conn i (\<lambda>c. open_slot cid peer now) (s\<lparr>s_now_us := now\<rparr>)"
    have cn: "conn (s\<lparr>s_now_us := now\<rparr>) = conn s" by (simp add: conn_def fun_eq_iff)
    have "conn_quiet s1 i"
      by (rule reset_quiet [where c = "open_slot cid peer now"])
        (use i in \<open>simp add: s1_def open_slot_def zero_conn_def reset_rx_def\<close>)
    moreover have "conn_quiet s1 k" if "k \<noteq> i" "k < length (s_conns s)" for k
      using inv that by (simp add: s1_def conn_quiet_def rx_inv_def cn)
    ultimately have "\<forall>k < length (s_conns s). conn_quiet s1 k" by metis
    then have inv1: "rx_inv s1" using inv by (simp add: rx_inv_def s1_def)
    have "live s1 i" using i by (simp add: s1_def live_def open_slot_def)
    then have "rx_inv (greet s1 i now)"
      using rx_inv_same [OF _ _ inv1] rxs.then_greet [of s1 s1 i now] fixed.then_greet [of s1 s1 i now] by simp
    then show ?thesis using True Some by (simp add: gsp_server_on_connection_opened_def s1_def)
  qed (use True inv in \<open>simp add: gsp_server_on_connection_opened_def\<close>)
qed (auto simp: gsp_server_on_connection_opened_def)

lemma retain_or_drop_quiet:
  assumes "conn_quiet s i" "live s i" "\<not> gs_framer_in_message (c_framer (conn s i))"
    "s_rx_capacity s = s_max_message_bytes s + 1"
  shows "conn_quiet (retain_or_drop s i cid left now) i"
proof -
  have i: "i < length (s_conns s)" using assms(2) by (simp add: live_def)
  have "conn_quiet (append_rx s i left) i" if "\<not> s_rx_capacity s - length (c_rx (conn s i)) < length left"
    using that assms i by (auto simp: append_rx_def conn_quiet_def rx_quiet_def rx_loop_ok_def)
  moreover have "conn_quiet (upd_conn i reset_rx s) i" by (rule reset_quiet) (simp add: i)
  ultimately show ?thesis
    by (simp add: retain_or_drop_def Let_def conn_quiet_def)
qed

lemma retain_or_drop_other: "k \<noteq> i \<Longrightarrow> conn (retain_or_drop s i cid left now) k = conn s k"
  by (simp add: retain_or_drop_def Let_def append_rx_other)

lemma rx_inv_bytes: "rx_inv s \<Longrightarrow> rx_inv (snd (gsp_server_on_bytes s cid data now))"
proof (cases "s_closed s \<or> find_conn s cid = None")
  case False
  assume inv0: "rx_inv s"
  define s0 where "s0 = s\<lparr>s_now_us := now\<rparr>"
  have inv: "rx_inv s0" unfolding s0_def by (rule rx_inv_same [OF _ _ inv0]) simp_all
  obtain i where i: "find_conn s cid = Some i" using False by auto
  have lv: "live s0 i" "i < length (s_conns s0)" using find_conn_live [OF i] by (simp_all add: s0_def live_def conn_def)
  obtain st pos t where lp: "on_bytes_loop s0 i data 0 now = (st, pos, t)" by (metis prod_cases3)
  have cap: "conn_quiet s0 i" "s_rx_capacity s0 = s_max_message_bytes s0 + 1"
    using inv lv by (simp_all add: rx_inv_def)
  note rx = on_bytes_loop_rx [OF cap(1) lv(1) cap(2) lp]
  have t: "live t i" "static t = static s0"
    using fixed.then_on_bytes_loop [of s0 s0 i data 0 now] lv lp by simp_all
  have others: "conn_quiet t k" if "k < length (s_conns s0)" for k
    using that rx inv t(2) conn_quiet_cong(1) [of t k s0] by (cases "k = i") (auto simp: rx_inv_def static_def)
  then have "rx_inv t" using inv t(2) by (simp add: rx_inv_def static_def)
  moreover have "rx_inv (retain_or_drop t i cid left now)" if "st \<noteq> GSP_OK" for left
  proof -
    define u where "u = retain_or_drop t i cid left now"
    have "static u = static t" by (simp add: u_def fixed.then_retain_or_drop)
    moreover from this have "conn_quiet u k" if "k < length (s_conns s0)" for k
      using others [OF that] retain_or_drop_quiet [of t i cid left now] retain_or_drop_other [of k i t cid left now]
        rx \<open>st \<noteq> GSP_OK\<close> t cap(2) by (cases "k = i") (auto simp: u_def conn_quiet_def static_def)
    ultimately show ?thesis
      using inv t(2) unfolding u_def [symmetric] by (simp add: rx_inv_def static_def)
  qed
  ultimately show ?thesis
    using False i by (simp add: gsp_server_on_bytes_def s0_def [symmetric] lp)
qed (auto simp: gsp_server_on_bytes_def)

theorem rx_inv_call: "rx_inv s \<Longrightarrow> rx_inv (call_state c s)"
proof (cases c)
  case (On_closed cid cause now)
  assume inv: "rx_inv s"
  have "rx_inv (s\<lparr>s_now_us := now\<rparr>)" by (rule rx_inv_same [OF _ _ inv]) simp_all
  then show ?thesis
    using inv by (auto simp: On_closed gsp_server_on_connection_closed_def rx_inv_end_conn dest: find_conn_live
        split: option.split)
next
  case (Tick now)
  assume inv: "rx_inv s"
  show ?thesis using rx_inv_same [OF _ _ inv] rxs.tick_ok fixed.tick_ok by (simp add: Tick)
qed (auto simp: rx_inv_opened rx_inv_bytes rx_inv_close gsp_server_poll_writes_def
    intro: rx_inv_same [OF rxs.set_player_ok fixed.set_player_ok]
      rx_inv_same [OF rxs.send_player_info_ok fixed.send_player_info_ok]
      rx_inv_same [OF rxs.set_session_state_ok fixed.set_session_state_ok]
      rx_inv_same [OF rxs.poll_writes_ok fixed.poll_writes_ok])

end
