(* ===== verification/ServerRun.thy ===== *)
theory ServerRun
  imports ServerLog ServerWrites ServerRx
begin

text \<open>
  Runs of the server: the states a host can bring a server to by its calls, with everything it
  has polled from the two logs, and the invariant that holds in all of them.
\<close>

section \<open>Reachable states\<close>

inductive reachable :: "gsp_server \<Rightarrow> gsp_event list \<Rightarrow> gsp_wire_chunk list \<Rightarrow> bool" where
  created: "gsp_server_create config True = Inr s \<Longrightarrow> reachable s [] []"
| called: "reachable s evs cs \<Longrightarrow> reachable (call_state c s) evs cs"
| polled_events: "reachable s evs cs \<Longrightarrow> gsp_server_poll_events s n = (es, t) \<Longrightarrow> reachable t (evs @ es) cs"
| polled_wire: "reachable s evs cs \<Longrightarrow> gsp_server_poll_wire s n = (ds, t) \<Longrightarrow> reachable t evs (cs @ ds)"

definition server_inv :: "gsp_server \<Rightarrow> bool" where
  "server_inv s \<longleftrightarrow> log_inv s \<and> out_inv s \<and> rx_inv s"

section \<open>Creation\<close>

lemma ring_ok_new: "0 < n \<Longrightarrow> ring_ok (new_ring n x)"
  by (simp add: new_ring_def ring_ok_def ring_cap_def)

lemma new_ring_sel [simp]:
  "ring_items (new_ring n x) = []" "rg_count (new_ring n x) = 0" "ring_cap (new_ring n x) = n"
  by (auto simp: new_ring_def ring_items_def ring_cap_def)

lemma new_ring_slots: "y \<in> set (rg_slots (new_ring n x)) \<Longrightarrow> y = x"
  by (simp add: new_ring_def)

lemma or_default_pos: "d \<noteq> 0 \<Longrightarrow> 0 < unat (or_default v d)"
  by (simp add: or_default_def unat_gt_0)

lemma create_inv:
  assumes "gsp_server_create config alloc_ok = Inr s"
  shows "server_inv s" "account s = (0, 0, ring_cap (s_events s), ring_cap (s_wire s))"
proof -
  define cfg where "cfg = (case config of Some c \<Rightarrow> c | None \<Rightarrow> gsp_server_config_default)"
  obtain ev wr wi mc mm where s: "s_events s = new_ring ev zero_event" "s_writes s = new_ring wr zero_write"
    "s_wire s = new_ring wi zero_chunk" "s_conns s = replicate mc zero_conn"
    "s_max_message_bytes s = mm" "s_rx_capacity s = mm + 1" "s_dropped_events s = 0" "s_dropped_wire s = 0"
    "s_event_sequence s = 0" "s_wire_sequence s = 0" "0 < ev" "0 < wr"
    using assms or_default_pos [of 64 "cfg_event_ring cfg"] or_default_pos [of 32 "cfg_write_ring cfg"]
    by (auto simp: gsp_server_create_def Let_def cfg_def [symmetric] split: if_splits)
  have cn: "conn s i = zero_conn" if "i < mc" for i using that s by (simp add: conn_def)
  have "log_inv s" using s by (auto simp: log_inv_def wire_ring_ok_def ring_ok_new)
  moreover have "length (w_data w) = 256" if "w \<in> set (rg_slots (s_writes s))" for w
    using new_ring_slots [of w wr zero_write] that s(2) by (simp add: zero_write_def)
  then have "out_inv s" using s cn by (simp add: out_inv_def ring_ok_new ids_ok_def zero_conn_def)
  moreover have "conn_quiet s i" if "i < mc" for i
    by (rule reset_quiet [where c = zero_conn]) (use that cn in \<open>simp add: zero_conn_def reset_rx_def\<close>)
  then have "rx_inv s" using s by (simp add: rx_inv_def)
  ultimately show "server_inv s" by (simp add: server_inv_def)
  show "account s = (0, 0, ring_cap (s_events s), ring_cap (s_wire s))"
    using s by (simp add: account_def)
qed

section \<open>The invariant holds in every reachable state\<close>

lemma call_inv: "server_inv s \<Longrightarrow> server_inv (call_state c s) \<and> account (call_state c s) = account s"
  using logs.call_ok [of s c] writes.call_ok [of s c] rx_inv_call [of s c]
  by (simp add: server_inv_def log_step_def out_step_def)

lemma poll_events_other:
  assumes "gsp_server_poll_events s n = (es, t)"
  shows "s_conns t = s_conns s" "s_writes t = s_writes s" "static t = static s"
  using assms by (auto simp: gsp_server_poll_events_def static_def split: if_splits prod.splits)

lemma poll_wire_other:
  assumes "gsp_server_poll_wire s n = (ds, t)"
  shows "s_conns t = s_conns s" "s_writes t = s_writes s" "static t = static s"
  using assms by (auto simp: gsp_server_poll_wire_def static_def split: if_splits prod.splits)

lemma inv_same_sides:
  "server_inv s \<Longrightarrow> log_inv t \<Longrightarrow> s_conns t = s_conns s \<Longrightarrow> s_writes t = s_writes s \<Longrightarrow> static t = static s \<Longrightarrow>
   server_inv t"
  using out_step_same [of t s] rx_inv_same [OF rx_sides_core] by (auto simp: server_inv_def out_step_def)

lemma reachable_account:
  "reachable s evs cs \<Longrightarrow> server_inv s \<and>
     fst (account s) = of_nat (length evs) \<and> fst (snd (account s)) = of_nat (length cs)"
proof (induction rule: reachable.induct)
  case (created config s)
  then show ?case using create_inv [of config True s] by simp
next
  case (called s evs cs c)
  then show ?case using call_inv [of s c] by simp
next
  case (polled_events s evs cs n es t)
  then have "log_inv s" by (simp add: server_inv_def)
  note p = log_inv_poll_events [OF this polled_events(2)]
  show ?case
    using polled_events(3) p inv_same_sides [OF _ p(1) poll_events_other [OF polled_events(2)]] by simp
next
  case (polled_wire s evs cs n ds t)
  then have "log_inv s" by (simp add: server_inv_def)
  note p = log_inv_poll_wire [OF this polled_wire(2)]
  show ?case
    using polled_wire(3) p inv_same_sides [OF _ p(1) poll_wire_other [OF polled_wire(2)]] by simp
qed

text \<open>
  C1. In every state a host can reach, whatever it calls with whatever bytes: the event, write
  and wire rings are well formed and within their capacity, events number consecutively and
  carry the union member their type names, connection ids are unique and never a reserved
  value, every queued write is a complete reply of the code its kind names to an open
  connection, and every connection's pending bytes fit its buffer, with an object that is being
  assembled within the bound on one message.
\<close>

theorem reachable_inv:
  assumes "reachable s evs cs"
  shows "server_inv s"
  using reachable_account [OF assms] by simp

definition demo_config :: gsp_server_config where
  "demo_config = gsp_server_config_default\<lparr>cfg_max_connections := 1, cfg_event_ring := 2,
     cfg_write_ring := 2, cfg_policy := gsp_server_policy_default\<lparr>max_message_bytes := 256\<rparr>\<rparr>"

definition demo_server :: gsp_server where
  "demo_server = (case gsp_server_create (Some demo_config) True of Inr s \<Rightarrow> s)"

lemma demo_created: "gsp_server_create (Some demo_config) True = Inr demo_server"
proof -
  have "isl (gsp_server_create (Some demo_config) True) = False" by code_simp
  then show ?thesis by (cases "gsp_server_create (Some demo_config) True") (simp_all add: demo_server_def)
qed

theorem reachable_inv_witness:
  "server_inv (call_state (On_bytes 7 ''{}x'' 6) (call_state (On_opened 7 (Some ''host'') 5) demo_server))"
  by (rule reachable_inv, rule called, rule called, rule created [OF demo_created])

text \<open>
  C6. Nothing is lost unaccounted for: in every reachable state the number of events ever
  emitted is what the host has polled, plus what it can still poll, plus
  \<^verbatim>\<open>gsp_server_dropped_events\<close>; the same for the chunks of the wire log. (The counters
  are 32 bits wide and the equations are modulo \<open>2 ^ 32\<close>, as the counters are.)
\<close>

theorem reachable_conservation:
  assumes "reachable s evs cs"
  shows "s_event_sequence s =
      of_nat (length evs) + of_nat (length (ring_items (s_events s))) + gsp_server_dropped_events s \<and>
    s_wire_sequence s =
      of_nat (length cs) + of_nat (length (ring_items (s_wire s))) + gsp_server_dropped_wire s"
  using reachable_account [OF assms]
  by (auto simp: account_def gsp_server_dropped_events_def gsp_server_dropped_wire_def algebra_simps)

theorem reachable_conservation_witness:
  "let t = call_state (On_bytes 7 ''{}x'' 6) (call_state (On_opened 7 (Some ''host'') 5) demo_server) in
   s_event_sequence t =
     of_nat (length (ring_items (s_events t))) + gsp_server_dropped_events t"
  using reachable_conservation [OF called [OF called [OF created [OF demo_created]]],
      of "On_bytes 7 ''{}x'' 6" "On_opened 7 (Some ''host'') 5"]
  by (simp add: Let_def)

end
