(* ===== verification/ServerReply.thy ===== *)
theory ServerReply
  imports ServerRun
begin

text \<open>
  What a client is told: the one reply each framed object earns, what closing a connection does
  to the replies that wait, the broadcasts, and the order in which replies leave.
\<close>

section \<open>The reply to a message\<close>

text \<open>The kind and the text of the reply to a decoded message, by policy.\<close>

definition reply_for :: "gsp_server_policy \<Rightarrow> gsp_message \<Rightarrow> gsp_write_kind \<times> bytes" where
  "reply_for p m =
     (if reject_incomplete_shots p \<and> m_flags m AND GSP_MSGF_BALL_INCOMPLETE \<noteq> 0
      then (GSP_WRITE_FAILURE, GSP_TEXT_INCOMPLETE)
      else (GSP_WRITE_ACK, if ack_text p \<noteq> [] then ack_text p else GSP_TEXT_SHOT_RECEIVED))"

text \<open>The write ring after one more reply: appended when there is a slot and it fits, refused otherwise.\<close>

definition queued :: "gsp_server \<Rightarrow> gsp_conn_id \<Rightarrow> gsp_write_kind \<Rightarrow> bytes \<Rightarrow> gsp_write_request list" where
  "queued s cid kind message =
     (if write_ring_full s \<or> 256 \<le> length (reply_text kind message None) then []
      else [filled (next_slot s) cid kind (reply_text kind message None)])"

lemma queue_write_items:
  assumes "out_inv s" "code_of_kind kind = code"
  shows "ring_items (s_writes (snd (queue_write s cid kind code message None))) =
    ring_items (s_writes s) @ queued s cid kind message"
  using assms by (simp add: queue_write_eq queued_def out_inv_def write_ring_full_def ring_put_items)

lemma queued_cong:
  "s_writes t = s_writes s \<Longrightarrow> queued t = queued s"
  by (simp add: queued_def write_ring_full_def next_slot_def fun_eq_iff)

lemma upd_info_writes [simp]: "s_writes (upd_info i f s) = s_writes s" "s_policy (upd_info i f s) = s_policy s"
  by (simp_all add: upd_info_def)

lemma conn_id_upd_info: "(\<And>n. ci_conn (f n) = ci_conn n) \<Longrightarrow> conn_id (upd_info k f s) i = conn_id s i"
  by (simp add: upd_info_def conn_upd_conn)

lemma notes_writes [simp]:
  "s_writes (note_active s i now) = s_writes s" "s_writes (note_identity s i m now) = s_writes s"
  "s_writes (note_client_state s i m now) = s_writes s"
  by (simp_all add: note_active_def note_identity_def note_client_state_def Let_def)

lemma reply_to_items:
  assumes "out_inv s"
  shows "ring_items (s_writes (reply_to s i m)) =
    ring_items (s_writes s) @ (case reply_for (s_policy s) m of (kind, txt) \<Rightarrow> queued s (conn_id s i) kind txt)"
  using assms by (simp add: reply_to_def reply_for_def queue_write_items)

lemma deliver_items:
  assumes "out_inv s" "live s i" "gsp_message_decode json (length json) = Inr m0"
  shows "fst (deliver_message s i json now)"
    "ring_items (s_writes (snd (deliver_message s i json now))) =
      ring_items (s_writes s) @
      (case reply_for (s_policy s) (stamp_message s i m0 now) of (kind, txt) \<Rightarrow> queued s (conn_id s i) kind txt)"
proof -
  define s1 where "s1 = wire_client s (conn_id s i) json now"
  define m where "m = stamp_message s1 i m0 now"
  define s2 where "s2 = upd_info i (count_message m now) (s1\<lparr>s_message_sequence := s_message_sequence s1 + 1\<rparr>)"
  have m: "m = stamp_message s i m0 now" by (simp add: m_def s1_def stamp_message_def)
  have "out_step s s2" unfolding s2_def s1_def
    by (intro writes.then_info writes.then_sequence writes.then_client) (simp_all add: writes.same)
  then have inv: "out_inv s2" using assms(1) by (simp add: out_step_def)
  have s2: "s_writes s2 = s_writes s" "s_policy s2 = s_policy s" by (simp_all add: s2_def s1_def)
  have id: "conn_id s2 i = conn_id s i"
    unfolding s2_def by (subst conn_id_upd_info) (simp_all add: s1_def conn_def)
  have eq: "deliver_message s i json now =
      (True, emit (note_client_state (note_identity (note_active (reply_to s2 i m) i now) i m now) i m now)
        (new_event (event_for_kind (m_kind m))
          (conn_id (note_client_state (note_identity (note_active (reply_to s2 i m) i now) i m now) i m now) i) now
          (EV_MESSAGE m)))"
    unfolding deliver_message_def assms(3) sum.case Let_def s1_def [symmetric] m_def [symmetric] s2_def [symmetric] ..
  show "fst (deliver_message s i json now)" by (simp add: eq)
  show "ring_items (s_writes (snd (deliver_message s i json now))) =
      ring_items (s_writes s) @
      (case reply_for (s_policy s) (stamp_message s i m0 now) of (kind, txt) \<Rightarrow> queued s (conn_id s i) kind txt)"
    by (simp add: eq reply_to_items [OF inv] s2 id queued_cong [OF s2(1)] m [symmetric])
qed

lemma protocol_error_items:
  assumes "out_inv s" "live s i"
  shows "ring_items (s_writes (protocol_error s i reason snippet discarded now)) =
    ring_items (s_writes s) @ queued s (conn_id s i) GSP_WRITE_FAILURE
      (if reason = GSP_PE_TOO_LARGE then GSP_TEXT_TOO_LARGE else GSP_TEXT_BAD_JSON)"
proof -
  define s1 where "s1 = wire_client s (conn_id s i) snippet now"
  define s2 where "s2 = upd_info i (\<lambda>n. n\<lparr>ci_protocol_errors := ci_protocol_errors n + 1,
    ci_consecutive_errors := ci_consecutive_errors n + 1\<rparr>) s1"
  have "out_step s s2" unfolding s2_def s1_def
    by (intro writes.then_info writes.then_client) (simp_all add: writes.same)
  then have inv: "out_inv s2" using assms(1) by (simp add: out_step_def)
  have s2: "s_writes s2 = s_writes s" "conn_id s2 i = conn_id s i"
    by (simp_all add: s2_def s1_def conn_id_upd_info)
  define msg where "msg = (if reason = GSP_PE_TOO_LARGE then GSP_TEXT_TOO_LARGE else GSP_TEXT_BAD_JSON)"
  have "s_writes (protocol_error s i reason snippet discarded now) =
      s_writes (snd (queue_write s2 (conn_id s2 i) GSP_WRITE_FAILURE 501 msg None))"
    unfolding protocol_error_def s1_def [symmetric] Let_def s2_def [symmetric] msg_def [symmetric] by simp
  then show ?thesis
    by (simp add: queue_write_items [OF inv] s2 queued_cong [OF s2(1)] msg_def)
qed


definition demo_open :: gsp_server where
  "demo_open = call_state (On_opened 7 None 5) demo_server"

lemma demo_open_reachable: "reachable demo_open [] []"
  unfolding demo_open_def by (rule called, rule created [OF demo_created])

lemma demo_open_facts:
  "find_conn demo_open 7 = Some 0" "\<not> write_ring_full demo_open"
  "length (reply_text GSP_WRITE_ACK (ack_text (s_policy demo_open)) None) < 256"
  "ring_items (s_writes demo_open) = []"
  by code_simp+


section \<open>What is queued is a reply\<close>


definition demo_acked :: gsp_server where
  "demo_acked = call_state (On_bytes 7 ''{}'' 9) demo_open"

lemma demo_acked_reachable: "reachable demo_acked [] []"
  unfolding demo_acked_def by (rule called [OF demo_open_reachable])

lemma demo_acked_writes:
  "map (\<lambda>w. (w_conn w, w_kind w, length (reply_of w))) (ring_items (s_writes demo_acked)) = [(7, GSP_WRITE_ACK, 51)]"
  by code_simp


section \<open>Closing\<close>

lemma live_end_conn: "live (end_conn s i cause now) k \<longleftrightarrow> k \<noteq> i \<and> live s k"
  by (auto simp: end_conn_def live_def conn_upd_conn)

lemma conn_id_end_conn: "conn_id (end_conn s i cause now) k = conn_id s k"
  by (simp add: end_conn_def conn_upd_conn)

lemma end_conn_items:
  "ring_ok (s_writes s) \<Longrightarrow> ring_items (s_writes (end_conn s i cause now)) =
   filter (\<lambda>w. w_conn w \<noteq> conn_id s i) (ring_items (s_writes s))"
  by (simp add: end_conn_def drop_writes_for_def ring_compact_items)

lemma connection_closed_found:
  assumes inv: "out_inv s" and "\<not> s_closed s" and i: "find_conn s cid = Some i"
    and t: "t = snd (gsp_server_on_connection_closed s cid cause now)"
  shows "(\<forall>d. is_open t d \<longleftrightarrow> d \<noteq> cid \<and> is_open s d) \<and>
    ring_items (s_writes t) = filter (\<lambda>w. w_conn w \<noteq> cid) (ring_items (s_writes s))"
proof -
  have ids: "ids_ok s" "ring_ok (s_writes s)" using inv by (simp_all add: out_inv_def)
  define s0 where "s0 = s\<lparr>s_now_us := now\<rparr>"
  have s0: "live s0 k = live s k" "conn_id s0 k = conn_id s k" "s_writes s0 = s_writes s" for k
    by (simp_all add: s0_def conn_def)
  have te: "t = end_conn s0 i cause now"
    using assms(2) i by (simp add: t gsp_server_on_connection_closed_def s0_def)
  note li = find_conn_live [OF i]
  have "is_open t d \<longleftrightarrow> d \<noteq> cid \<and> is_open s d" for d
    using li ids_okD(1) [OF ids(1), of _ i] unfolding is_open_iff te live_end_conn conn_id_end_conn s0 by metis
  then show ?thesis using te end_conn_items [of s0 i cause now] ids(2) li s0 by simp
qed

text \<open>
  C7. A connection that goes away takes its replies with it: after
  \<^verbatim>\<open>gsp_server_on_connection_closed\<close> the id is no longer open, every other connection
  is as it was, and the write ring holds exactly the writes to other connections, in their
  order.
\<close>

theorem connection_closed_forgets:
  assumes "reachable s evs cs" and t: "gsp_server_on_connection_closed s cid cause now = (GSP_OK, t)"
  shows "is_open s cid \<and> (\<forall>d. is_open t d \<longleftrightarrow> d \<noteq> cid \<and> is_open s d) \<and>
    ring_items (s_writes t) = filter (\<lambda>w. w_conn w \<noteq> cid) (ring_items (s_writes s))"
proof -
  have inv: "out_inv s" using reachable_account [OF assms(1)] by (simp add: server_inv_def)
  obtain i where "\<not> s_closed s" "find_conn s cid = Some i"
    using t by (auto simp: gsp_server_on_connection_closed_def split: if_splits option.splits)
  with connection_closed_found [OF inv this, of t cause now] t show ?thesis by (simp add: is_open_def)
qed

theorem connection_closed_forgets_witness:
  "\<exists>t. gsp_server_on_connection_closed demo_acked 7 1 12 = (GSP_OK, t) \<and> \<not> is_open t 7 \<and> ring_items (s_writes t) = []"
proof -
  have "fst (gsp_server_on_connection_closed demo_acked 7 1 12) = GSP_OK" by code_simp
  then obtain t where t: "gsp_server_on_connection_closed demo_acked 7 1 12 = (GSP_OK, t)"
    by (cases "gsp_server_on_connection_closed demo_acked 7 1 12") simp
  obtain w where "ring_items (s_writes demo_acked) = [w]" "w_conn w = 7" using demo_acked_writes by auto
  with connection_closed_forgets [OF demo_acked_reachable t] t show ?thesis by simp
qed

lemma for_conns_end:
  "live (for_conns (\<lambda>i s. end_conn s i cause (s_now_us s)) s) k = False"
proof -
  have "live (fold (\<lambda>i s. if c_used (conn s i) then end_conn s i cause (s_now_us s) else s) is t) k \<longleftrightarrow>
      live t k \<and> k \<notin> set is" if "\<forall>i \<in> set is. i < length (s_conns t)" for "is" t
    using that
  proof (induction "is" arbitrary: t)
    case (Cons i "is")
    have "live t i = c_used (conn t i)" using Cons.prems by (simp add: live_def)
    then show ?case using Cons by (cases "c_used (conn t i)") (auto simp: live_end_conn)
  qed simp
  moreover have "live s k \<Longrightarrow> k \<in> set (slots s)" by (simp add: live_def slots_def)
  ultimately show ?thesis by (auto simp: for_conns_def slots_def)
qed



end
