(* ===== verification/ServerPoll.thy ===== *)
theory ServerPoll
  imports ServerReply
begin

text \<open>
  What the host takes out and when: the order in which queued writes leave, their spacing, the
  idle alarm and the next deadline.
\<close>

section \<open>Releasing a write\<close>

lemma find_conn_cong:
  assumes "length (s_conns t) = length (s_conns s)"
    and "\<And>k. c_used (conn t k) = c_used (conn s k) \<and> conn_id t k = conn_id s k"
  shows "find_conn t cid = find_conn s cid"
  using assms by (simp add: find_conn_def slots_def)

lemma space_writes_find [simp]: "find_conn (space_writes s cid) d = find_conn s d"
  by (rule find_conn_cong) (simp_all add: space_writes_def conn_upd_conn split: option.split)

lemma find_conn_wire [simp]: "find_conn (wire_push_bytes s cid direction data now redact extra_flags) d = find_conn s d"
  by (rule find_conn_cong) simp_all

lemma find_conn_writes [simp]: "find_conn (s\<lparr>s_writes := ws\<rparr>) d = find_conn s d"
  by (rule find_conn_cong) (simp_all add: conn_def)

lemma release_write_sel:
  "s_writes (release_write s i) = ring_remove (s_writes s) i" "s_now_us (release_write s i) = s_now_us s"
  "s_policy (release_write s i) = s_policy s" "find_conn (release_write s i) d = find_conn s d"
  by (simp_all add: release_write_def Let_def) (simp_all add: space_writes_def split: option.split)

lemma release_write_conn:
  "c_next_write_us (conn (release_write s i) k) =
     (if find_conn s (w_conn (ring_nth (s_writes s) i)) = Some k \<and> 0 < write_spacing_us (s_policy s)
      then s_now_us s + write_spacing_us (s_policy s) else c_next_write_us (conn s k))"
proof -
  have cn: "conn (t\<lparr>s_writes := ws\<rparr>) k = conn t k" for t ws by (simp add: conn_def)
  have "k < length (s_conns s)" if "find_conn s d = Some k" for d
    using find_conn_live [OF that] by (simp add: live_def)
  then show ?thesis
    by (auto simp: release_write_def Let_def cn space_writes_def conn_upd_conn split: option.split)
qed

lemma held_release:
  "held_back (release_write s i) cid \<longleftrightarrow> held_back s cid \<or>
     (0 < write_spacing_us (s_policy s) \<and> find_conn s cid \<noteq> None \<and>
      find_conn s cid = find_conn s (w_conn (ring_nth (s_writes s) i)))"
  by (auto simp: held_back_def release_write_sel release_write_conn split: option.split)

section \<open>Polling writes\<close>

text \<open>The writes to one connection, in order.\<close>

abbreviation writes_to :: "gsp_conn_id \<Rightarrow> gsp_write_request list \<Rightarrow> gsp_write_request list" where
  "writes_to cid ws \<equiv> filter (\<lambda>w. w_conn w = cid) ws"

lemma poll_writes_loop_order:
  assumes "ring_ok (s_writes s)" "\<forall>w \<in> set (take i (ring_items (s_writes s))). held_back s (w_conn w)"
    "poll_writes_loop s i left = (ws, t)"
  shows "ring_ok (s_writes t) \<and> length ws \<le> left \<and> (\<forall>w \<in> set ws. \<not> held_back s (w_conn w)) \<and>
    writes_to cid (ring_items (s_writes s)) = writes_to cid ws @ writes_to cid (ring_items (s_writes t)) \<and>
    (length ws < left \<longrightarrow> (\<forall>w \<in> set (ring_items (s_writes t)). held_back t (w_conn w)))"
  using assms
proof (induction s i left arbitrary: ws t rule: poll_writes_loop.induct)
  case (1 s i left)
  define xs where "xs = ring_items (s_writes s)"
  define w where "w = ring_nth (s_writes s) i"
  show ?case
  proof (cases "i < rg_count (s_writes s) \<and> 0 < left")
    case False
    then have "ws = []" "t = s" using 1(5) by (auto simp: poll_writes_loop.simps [of s i left] split: if_splits)
    with False 1(3,4) show ?thesis by auto
  next
    case True
    then have "i < length xs" "xs ! i = w" by (simp_all add: xs_def w_def ring_items_nth)
    then have i: "take (i + 1) xs = take i xs @ [w]" "xs = take i xs @ w # drop (i + 1) xs"
      using id_take_nth_drop [of i xs] by (simp_all add: take_Suc_conv_app_nth)
    show ?thesis
    proof (cases "held_back s (w_conn w)")
      case h: True
      have "\<forall>v \<in> set (take (i + 1) xs). held_back s (w_conn v)" using i h 1(4) by (auto simp: xs_def)
      with 1(1) [OF True w_def h 1(3)] show ?thesis
        using 1(5) True h by (simp add: poll_writes_loop.simps [of s i left] w_def [symmetric] xs_def [symmetric])
    next
      case free: False
      define s1 where "s1 = release_write s i"
      obtain ws1 where rec: "poll_writes_loop s1 i (left - 1) = (ws1, t)" and ws: "ws = w # ws1"
        using 1(5) True free
        by (cases "poll_writes_loop s1 i (left - 1)")
          (auto simp: poll_writes_loop.simps [of s i left] w_def [symmetric] s1_def Let_def)
      have rm: "ring_items (s_writes s1) = take i xs @ drop (i + 1) xs" "ring_ok (s_writes s1)"
        using ring_remove_items [OF 1(3), of i] True by (simp_all add: s1_def release_write_sel xs_def)
      have mono: "held_back s d \<Longrightarrow> held_back s1 d" for d by (simp add: s1_def held_release)
      have "take i (ring_items (s_writes s1)) = take i xs" using True by (simp add: rm xs_def)
      then have pre: "\<forall>v \<in> set (take i (ring_items (s_writes s1))). held_back s1 (w_conn v)"
        using 1(4) mono by (simp add: xs_def)
      note IH = 1(2) [OF True w_def free, folded s1_def, OF rm(2) pre rec]
      have "writes_to cid xs = writes_to cid (take i xs @ w # drop (i + 1) xs)" using i(2) by simp
      moreover have "writes_to cid (take i xs) = []" if "w_conn w = cid"
        using 1(4) free that by (auto simp: xs_def filter_empty_conv)
      ultimately have "writes_to cid xs = writes_to cid [w] @ writes_to cid (ring_items (s_writes s1))"
        by (simp add: rm)
      moreover have "\<forall>v \<in> set ws1. \<not> held_back s (w_conn v)" using IH mono by blast
      ultimately show ?thesis
        using IH ws free True by (auto simp: xs_def [symmetric])
    qed
  qed
qed

text \<open>
  C4. Replies leave in the order they were queued. In every reachable state, for every
  connection, what one call of \<^verbatim>\<open>gsp_server_poll_writes\<close> hands out followed by what it
  leaves in the ring is exactly what was queued for it, so nothing is lost, duplicated or
  reordered within a connection; a write held back by the spacing policy is not handed out; and
  when the caller's array was not filled, only held-back writes remain.
\<close>

theorem poll_writes_order:
  assumes "reachable s evs cs" "gsp_server_poll_writes s n = (ws, t)"
  shows "length ws \<le> n \<and> (\<forall>w \<in> set ws. \<not> held_back s (w_conn w)) \<and>
    writes_to cid (ring_items (s_writes s)) = writes_to cid ws @ writes_to cid (ring_items (s_writes t)) \<and>
    (length ws < n \<longrightarrow> (\<forall>w \<in> set (ring_items (s_writes t)). held_back t (w_conn w)))"
proof -
  have "ring_ok (s_writes s)" using reachable_account [OF assms(1)] by (simp add: server_inv_def out_inv_def)
  from poll_writes_loop_order [OF this, of 0] assms(2) show ?thesis
    by (simp add: gsp_server_poll_writes_def)
qed

theorem poll_writes_order_witness:
  "\<exists>ws t. gsp_server_poll_writes demo_acked 4 = (ws, t) \<and> length ws \<le> 4 \<and>
     writes_to 7 (ring_items (s_writes demo_acked)) = writes_to 7 ws @ writes_to 7 (ring_items (s_writes t))"
  using poll_writes_order [OF demo_acked_reachable, of 4 _ _ 7] by (metis surj_pair)

lemma poll_writes_loop_spaced:
  assumes "ring_ok (s_writes s)" "0 < write_spacing_us (s_policy s)" "find_conn s cid \<noteq> None"
    "poll_writes_loop s i left = (ws, t)"
  shows "length (writes_to cid ws) \<le> (if held_back s cid then 0 else 1)"
  using assms
proof (induction s i left arbitrary: ws t rule: poll_writes_loop.induct)
  case (1 s i left)
  define w where "w = ring_nth (s_writes s) i"
  show ?case
  proof (cases "i < rg_count (s_writes s) \<and> 0 < left")
    case False
    then show ?thesis using 1(6) by (auto simp: poll_writes_loop.simps [of s i left] split: if_splits)
  next
    case True
    show ?thesis
    proof (cases "held_back s (w_conn w)")
      case h: True
      with 1(1) [OF True w_def h 1(3,4,5)] show ?thesis
        using 1(6) True by (simp add: poll_writes_loop.simps [of s i left] w_def [symmetric])
    next
      case free: False
      define s1 where "s1 = release_write s i"
      obtain ws1 where rec: "poll_writes_loop s1 i (left - 1) = (ws1, t)" and ws: "ws = w # ws1"
        using 1(6) True free
        by (cases "poll_writes_loop s1 i (left - 1)")
          (auto simp: poll_writes_loop.simps [of s i left] w_def [symmetric] s1_def Let_def)
      have s1: "ring_ok (s_writes s1)" "0 < write_spacing_us (s_policy s1)" "find_conn s1 cid \<noteq> None"
        using ring_remove_items [OF 1(3), of i] True 1(4,5) by (simp_all add: s1_def release_write_sel)
      note IH = 1(2) [OF True w_def free, folded s1_def, OF s1 rec]
      have "held_back s1 cid \<longleftrightarrow> held_back s cid \<or> find_conn s cid = find_conn s (w_conn w)"
        using 1(4,5) by (simp add: s1_def held_release w_def)
      then show ?thesis using IH ws free by (auto split: if_splits)
    qed
  qed
qed

text \<open>
  C9. With \<^verbatim>\<open>write_spacing_us\<close> set, one call never hands out two writes for the same
  open connection, and none at all to one whose earliest write time has not come.
\<close>

theorem poll_writes_spaced:
  assumes "reachable s evs cs" "0 < write_spacing_us (s_policy s)" "is_open s cid"
    "gsp_server_poll_writes s n = (ws, t)"
  shows "length (writes_to cid ws) \<le> (if held_back s cid then 0 else 1)"
proof (rule poll_writes_loop_spaced)
  show "ring_ok (s_writes s)" using reachable_account [OF assms(1)] by (simp add: server_inv_def out_inv_def)
  show "poll_writes_loop s 0 n = (ws, t)" using assms(4) by (simp add: gsp_server_poll_writes_def)
qed (use assms(2,3) in \<open>simp_all add: is_open_def\<close>)

definition spaced_config :: gsp_server_config where
  "spaced_config = demo_config\<lparr>cfg_policy := gsp_server_policy_default\<lparr>max_message_bytes := 256, write_spacing_us := 1000\<rparr>\<rparr>"

definition demo_spaced :: gsp_server where
  "demo_spaced = (case gsp_server_create (Some spaced_config) True of Inr s \<Rightarrow>
     call_state (On_bytes 7 ''{}{}'' 9) (call_state (On_opened 7 None 5) s))"

text \<open>What the statement below needs of the state, read off in one evaluation.\<close>

definition spacing_facts :: "gsp_server \<Rightarrow> gsp_conn_id \<Rightarrow> bool \<times> bool \<times> bool \<times> nat" where
  "spacing_facts s cid = (0 < write_spacing_us (s_policy s), is_open s cid, held_back s cid,
     length (writes_to cid (ring_items (s_writes s))))"

lemma demo_spaced_reachable: "reachable demo_spaced [] []"
proof -
  have "isl (gsp_server_create (Some spaced_config) True) = False" by code_simp
  then obtain s where c: "gsp_server_create (Some spaced_config) True = Inr s"
    by (cases "gsp_server_create (Some spaced_config) True") simp_all
  show ?thesis
    unfolding demo_spaced_def c sum.case by (rule called, rule called, rule created [OF c])
qed

theorem poll_writes_spaced_witness:
  "length (writes_to 7 (ring_items (s_writes demo_spaced))) = 2 \<and>
   length (writes_to 7 (fst (gsp_server_poll_writes demo_spaced 4))) \<le> 1"
proof -
  have "spacing_facts demo_spaced 7 = (True, True, False, 2)" by code_simp
  then have f: "0 < write_spacing_us (s_policy demo_spaced)" "is_open demo_spaced 7" "\<not> held_back demo_spaced 7"
    "length (writes_to 7 (ring_items (s_writes demo_spaced))) = 2"
    by (simp_all add: spacing_facts_def)
  obtain ws t where p: "gsp_server_poll_writes demo_spaced 4 = (ws, t)" by fastforce
  from poll_writes_spaced [OF demo_spaced_reachable f(1,2) p] f(3,4) p show ?thesis by simp
qed

section \<open>The idle alarm\<close>

text \<open>What one tick does to a slot, whatever the order of the slots.\<close>

definition tick_step :: "gsp_time_us \<Rightarrow> nat \<Rightarrow> gsp_server \<Rightarrow> gsp_server" where
  "tick_step now i s = (if c_used (conn s i) then tick_conn now i s else s)"

lemma tick_step_conn:
  assumes "i < length (s_conns s)"
  shows "conn (tick_step now i s) k =
      (if k = i \<and> c_used (conn s i) \<and> idle_deadline s (conn s i) \<le> now
       then (conn s i)\<lparr>c_idle_reported := True\<rparr> else conn s k)"
    "s_policy (tick_step now i s) = s_policy s" "s_closed (tick_step now i s) = s_closed s"
    "s_now_us (tick_step now i s) = s_now_us s" "length (s_conns (tick_step now i s)) = length (s_conns s)"
  using assms by (auto simp: tick_step_def tick_conn_def)

lemma tick_fold:
  assumes "distinct is" "\<forall>i \<in> set is. i < length (s_conns s)"
  shows "conn (fold (tick_step now) is s) k =
      (if k \<in> set is \<and> c_used (conn s k) \<and> idle_deadline s (conn s k) \<le> now
       then (conn s k)\<lparr>c_idle_reported := True\<rparr> else conn s k) \<and>
    s_policy (fold (tick_step now) is s) = s_policy s \<and> s_closed (fold (tick_step now) is s) = s_closed s \<and>
    s_now_us (fold (tick_step now) is s) = s_now_us s \<and>
    length (s_conns (fold (tick_step now) is s)) = length (s_conns s)"
  using assms
proof (induction "is" arbitrary: s)
  case (Cons i "is")
  have i: "i < length (s_conns s)" using Cons.prems by simp
  note s1 = tick_step_conn [OF i, of now]
  have dl: "idle_deadline (tick_step now i s) c = idle_deadline s c" for c by (simp add: idle_deadline_def s1)
  show ?case
    using Cons.IH [of "tick_step now i s"] Cons.prems s1 dl by auto
qed simp

lemma tick_fold_idle:
  assumes "\<forall>i \<in> set is. \<not> (c_used (conn s i) \<and> idle_deadline s (conn s i) \<le> now)"
  shows "fold (tick_step now) is s = s"
  using assms by (induction "is") (auto simp: tick_step_def tick_conn_def)

lemma tick_eq:
  "gsp_server_tick s now =
     (if s_closed s then s else fold (tick_step now) (slots s) (s\<lparr>s_now_us := now\<rparr>))"
  by (simp add: gsp_server_tick_def for_conns_def tick_step_def [abs_def] slots_def)

lemma conn_now [simp]: "conn (s\<lparr>s_now_us := now\<rparr>) k = conn s k"
  "idle_deadline (s\<lparr>s_now_us := now\<rparr>) c = idle_deadline s c"
  by (simp_all add: conn_def idle_deadline_def)

lemma tick_conns:
  assumes "\<not> s_closed s"
  shows "conn (gsp_server_tick s now) k =
      (if live s k \<and> idle_deadline s (conn s k) \<le> now
       then (conn s k)\<lparr>c_idle_reported := True\<rparr> else conn s k)"
    "s_policy (gsp_server_tick s now) = s_policy s" "\<not> s_closed (gsp_server_tick s now)"
    "s_now_us (gsp_server_tick s now) = now" "length (s_conns (gsp_server_tick s now)) = length (s_conns s)"
  using assms tick_fold [of "slots s" "s\<lparr>s_now_us := now\<rparr>" now] by (auto simp: tick_eq slots_def live_def)

text \<open>
  C10. The idle alarm fires once. A tick marks exactly the open connections whose deadline has
  come and changes nothing else about any connection; ticking again at the same time changes
  nothing at all, so a silent client is reported once however often the host ticks.
\<close>

theorem tick_once:
  assumes "\<not> s_closed s" "now < GSP_TIME_NEVER"
  shows "gsp_server_tick (gsp_server_tick s now) now = gsp_server_tick s now \<and>
    conn (gsp_server_tick s now) k =
      (if live s k \<and> idle_deadline s (conn s k) \<le> now
       then (conn s k)\<lparr>c_idle_reported := True\<rparr> else conn s k)"
proof -
  define t where "t = gsp_server_tick s now"
  note t = tick_conns [OF assms(1), of now, folded t_def]
  have "\<not> (c_used (conn t i) \<and> idle_deadline t (conn t i) \<le> now)" if "i \<in> set (slots t)" for i
    using t that assms(2) by (auto simp: slots_def live_def idle_deadline_def split: if_splits)
  then have "fold (tick_step now) (slots t) t = t" by (simp add: tick_fold_idle)
  moreover have "t\<lparr>s_now_us := now\<rparr> = t" using t(4) by (metis gsp_server.surjective gsp_server.update_convs(5))
  ultimately have "gsp_server_tick t now = t" using t(3) by (simp add: tick_eq)
  then show ?thesis using t(1) by (simp add: t_def)
qed

theorem tick_once_witness:
  "gsp_server_tick (gsp_server_tick demo_acked 50) 50 = gsp_server_tick demo_acked 50"
proof -
  have "\<not> s_closed demo_acked" by code_simp
  then show ?thesis using tick_once [of demo_acked 50 0] by simp
qed

section \<open>The next deadline\<close>

definition write_waits :: "gsp_server \<Rightarrow> nat \<Rightarrow> bool" where
  "write_waits s i \<longleftrightarrow> 0 < write_spacing_us (s_policy s) \<and> s_now_us s < c_next_write_us (conn s i) \<and>
     writes_to (conn_id s i) (ring_items (s_writes s)) \<noteq> []"

lemma conn_due_eq:
  "conn_due s i due =
     (if \<not> c_used (conn s i) then due
      else min (min due (idle_deadline s (conn s i)))
             (if write_waits s i then c_next_write_us (conn s i) else min due (idle_deadline s (conn s i))))"
  by (auto simp: conn_due_def Let_def write_waits_def ring_items_def list_ex_iff filter_empty_conv min_def)

lemma conn_due_fold:
  "\<forall>i \<in> set is. i < length (s_conns s) \<Longrightarrow>
   fold (conn_due s) is due \<le> due \<and>
   (\<forall>i \<in> set is. live s i \<longrightarrow> fold (conn_due s) is due \<le> idle_deadline s (conn s i)) \<and>
   (\<forall>i \<in> set is. live s i \<and> write_waits s i \<longrightarrow> fold (conn_due s) is due \<le> c_next_write_us (conn s i)) \<and>
   (fold (conn_due s) is due = due \<or>
    (\<exists>i. live s i \<and> (fold (conn_due s) is due = idle_deadline s (conn s i) \<or>
       write_waits s i \<and> fold (conn_due s) is due = c_next_write_us (conn s i))))"
proof (induction "is" arbitrary: due)
  case (Cons i "is")
  have d: "conn_due s i due \<le> due" "live s i \<Longrightarrow> conn_due s i due \<le> idle_deadline s (conn s i)"
    "live s i \<and> write_waits s i \<Longrightarrow> conn_due s i due \<le> c_next_write_us (conn s i)"
    by (auto simp: conn_due_eq live_def)
  have "live s i" if "c_used (conn s i)" using that Cons.prems by (simp add: live_def)
  then have e: "conn_due s i due = due \<or> live s i \<and> (conn_due s i due = idle_deadline s (conn s i) \<or>
      write_waits s i \<and> conn_due s i due = c_next_write_us (conn s i))"
    by (auto simp: conn_due_eq min_def)
  have IH: "fold (conn_due s) is (conn_due s i due) \<le> conn_due s i due"
    using Cons.IH [of "conn_due s i due"] Cons.prems by simp
  show ?case
    using Cons.IH [of "conn_due s i due"] Cons.prems IH d e by (auto intro: order_trans)
qed simp



end
