(* ===== verification/Replay.thy ===== *)
theory Replay
  imports Recorder ServerPoll
begin

text \<open>
  \<^verbatim>\<open>record/gs_record.c\<close>, the replay: a recorded session driven back through a server, with
  the comparison of the replies it gives now with those it gave then.

  The loop that feeds bytes again while the server's write ring is full may run for ever, so it
  is a partial function: \<open>None\<close> says it does not return, and so does every function above it.
\<close>

section \<open>State and report\<close>

abbreviation (input) GS_REPLAY_CONNS :: nat where "GS_REPLAY_CONNS \<equiv> 64"
abbreviation (input) GS_REPLAY_PENDING :: nat where "GS_REPLAY_PENDING \<equiv> 32"
abbreviation (input) GSP_CLOSE_REMOTE_CLOSED :: gsp_close_cause where "GSP_CLOSE_REMOTE_CLOSED \<equiv> 1"

record gs_replay_state =
  rs_ids :: "gsp_conn_id list"
  rs_pending :: "gsp_write_request list"

record gsp_replay_report =
  rep_chunks :: u64
  rep_client_chunks :: u64
  rep_server_chunks :: u64
  rep_meta_chunks :: u64
  rep_lost_chunks :: u64
  rep_messages :: u64
  rep_shots :: u64
  rep_protocol_errors :: u64
  rep_replies_produced :: u64
  rep_replies_matched :: u64
  rep_replies_differing :: u64
  rep_replies_missing :: u64
  rep_replies_unsolicited :: u64
  rep_replies_extra :: u64
  rep_connections :: u32
  rep_flags_seen :: u32

definition zero_report :: gsp_replay_report where
  "zero_report = \<lparr>rep_chunks = 0, rep_client_chunks = 0, rep_server_chunks = 0, rep_meta_chunks = 0,
     rep_lost_chunks = 0, rep_messages = 0, rep_shots = 0, rep_protocol_errors = 0, rep_replies_produced = 0,
     rep_replies_matched = 0, rep_replies_differing = 0, rep_replies_missing = 0, rep_replies_unsolicited = 0,
     rep_replies_extra = 0, rep_connections = 0, rep_flags_seen = 0\<rparr>"

definition replay_is_open :: "gs_replay_state \<Rightarrow> gsp_conn_id \<Rightarrow> bool" where
  "replay_is_open st cid \<longleftrightarrow> list_ex (\<lambda>d. d = cid) (rs_ids st)"

definition replay_opened :: "gs_replay_state \<Rightarrow> gsp_conn_id \<Rightarrow> gs_replay_state" where
  "replay_opened st cid =
     (if length (rs_ids st) < GS_REPLAY_CONNS then st\<lparr>rs_ids := rs_ids st @ [cid]\<rparr> else st)"

definition replay_closed :: "gs_replay_state \<Rightarrow> gsp_conn_id \<Rightarrow> gs_replay_state" where
  "replay_closed st cid = st\<lparr>rs_ids := remove1 cid (rs_ids st)\<rparr>"

section \<open>Draining the server\<close>

definition note_write :: "gsp_write_request \<Rightarrow> gs_replay_state \<times> gsp_replay_report \<Rightarrow> gs_replay_state \<times> gsp_replay_report" where
  "note_write w = (\<lambda>(st, rep).
     (let rep = rep\<lparr>rep_replies_produced := rep_replies_produced rep + 1\<rparr> in
      if length (rs_pending st) < GS_REPLAY_PENDING then (st\<lparr>rs_pending := rs_pending st @ [w]\<rparr>, rep)
      else (st, rep\<lparr>rep_replies_extra := rep_replies_extra rep + 1\<rparr>)))"

text \<open>The flags are read from the union's message, which is the member these three types carry.\<close>

definition message_flags :: "gsp_event \<Rightarrow> u32" where
  "message_flags ev = (case ev_u ev of EV_MESSAGE m \<Rightarrow> m_flags m | _ \<Rightarrow> 0)"

definition note_event :: "gsp_event \<Rightarrow> gsp_replay_report \<Rightarrow> gsp_replay_report" where
  "note_event ev rep =
     (if ev_type ev = GSP_EV_SHOT then
        rep\<lparr>rep_shots := rep_shots rep + 1, rep_messages := rep_messages rep + 1,
            rep_flags_seen := rep_flags_seen rep OR message_flags ev\<rparr>
      else if ev_type ev = GSP_EV_HEARTBEAT \<or> ev_type ev = GSP_EV_STATUS then
        rep\<lparr>rep_messages := rep_messages rep + 1, rep_flags_seen := rep_flags_seen rep OR message_flags ev\<rparr>
      else if ev_type ev = GSP_EV_PROTOCOL_ERROR then
        rep\<lparr>rep_protocol_errors := rep_protocol_errors rep + 1\<rparr>
      else rep)"

lemma ring_remove_count: "rg_count (ring_remove r i) = rg_count r - 1"
proof -
  have "rg_count (ring_shift r i) = rg_count r" by (induction r i rule: ring_shift.induct) simp_all
  then show ?thesis by (simp add: ring_remove_def)
qed

lemma poll_writes_count: "poll_writes_loop s i left = (ws, t) \<Longrightarrow> rg_count (s_writes t) + length ws = rg_count (s_writes s)"
proof (induction s i left arbitrary: ws t rule: poll_writes_loop.induct)
  case (1 s i left)
  show ?case
  proof (cases "i < rg_count (s_writes s) \<and> 0 < left")
    case True
    then show ?thesis
      using 1(1) [OF True refl] 1(2) [OF True refl] 1(3)
      by (auto simp: poll_writes_loop.simps [of s i left] Let_def release_write_sel ring_remove_count
          split: if_splits prod.splits)
  next
    case False
    then show ?thesis using 1(3) by (auto simp: poll_writes_loop.simps [of s i left] split: if_splits)
  qed
qed

lemma ring_poll_count: "ring_poll r n = (xs, q) \<Longrightarrow> rg_count q + length xs = rg_count r"
proof (induction r n arbitrary: xs q rule: ring_poll.induct)
  case (2 r n)
  then show ?case by (cases "ring_poll (ring_drop r) n") (auto split: if_splits)
qed simp

function drain_writes ::
  "gsp_server \<Rightarrow> gs_replay_state \<times> gsp_replay_report \<Rightarrow> gsp_server \<times> gs_replay_state \<times> gsp_replay_report" where
  "drain_writes s x =
     (case gsp_server_poll_writes s 8 of (ws, s) \<Rightarrow>
        if ws = [] then (s, x) else drain_writes s (fold note_write ws x))"
  by pat_completeness auto
termination
proof (relation "measure (\<lambda>(s, x). rg_count (s_writes s))", goal_cases)
  case (2 s x ws t)
  then have "poll_writes_loop s 0 8 = (ws, t)" by (simp add: gsp_server_poll_writes_def)
  from poll_writes_count [OF this] 2 show ?case by (cases ws) auto
qed simp

function drain_events :: "gsp_server \<Rightarrow> gsp_replay_report \<Rightarrow> gsp_server \<times> gsp_replay_report" where
  "drain_events s rep =
     (case gsp_server_poll_events s 16 of (evs, s) \<Rightarrow>
        if evs = [] then (s, rep) else drain_events s (fold note_event evs rep))"
  by pat_completeness auto
termination
proof (relation "measure (\<lambda>(s, rep). rg_count (s_events s))", goal_cases)
  case (2 s rep evs t)
  then obtain q where "ring_poll (s_events s) 16 = (evs, q)" "s_events t = q"
    by (auto simp: gsp_server_poll_events_def split: prod.splits)
  from ring_poll_count [OF this(1)] this(2) 2 show ?case by (cases evs) auto
qed simp

declare drain_writes.simps [simp del]
declare drain_events.simps [simp del]

definition replay_drain ::
  "gsp_server \<times> gs_replay_state \<times> gsp_replay_report \<Rightarrow> gsp_server \<times> gs_replay_state \<times> gsp_replay_report" where
  "replay_drain = (\<lambda>(s, x).
     (case drain_writes s x of (s, st, rep) \<Rightarrow>
      case drain_events s rep of (s, rep) \<Rightarrow> (s, st, rep)))"

section \<open>Matching a recorded reply\<close>

fun kind_code :: "gsp_write_kind \<Rightarrow> int" where
  "kind_code GSP_WRITE_ACK = GSP_CODE_SHOT_RECEIVED"
| "kind_code GSP_WRITE_PLAYER_INFO = GSP_CODE_PLAYER_INFO"
| "kind_code GSP_WRITE_READY = GSP_CODE_READY"
| "kind_code GSP_WRITE_ROUND_ENDED = GSP_CODE_ROUND_ENDED"
| "kind_code GSP_WRITE_FAILURE = GSP_CODE_FAILURE"

definition replay_consume :: "gs_replay_state \<Rightarrow> nat \<Rightarrow> gs_replay_state" where
  "replay_consume st i = st\<lparr>rs_pending := take i (rs_pending st) @ drop (i + 1) (rs_pending st)\<rparr>"

definition same_reply :: "gsp_wire_chunk \<Rightarrow> gsp_write_request \<Rightarrow> bool" where
  "same_reply c w \<longleftrightarrow> w_conn w = wc_conn c \<and> unat (w_length w) = length (wc_data c) \<and>
     take (length (wc_data c)) (w_data w) = wc_data c"

definition replay_match_reply ::
  "gsp_wire_chunk \<Rightarrow> gs_replay_state \<times> gsp_replay_report \<Rightarrow> gs_replay_state \<times> gsp_replay_report" where
  "replay_match_reply c = (\<lambda>(st, rep).
     (let recorded = gsp_response_decode (wc_data c) (length (wc_data c));
          idx = [0..<length (rs_pending st)]
      in case find (\<lambda>i. same_reply c (rs_pending st ! i)) idx of
           Some i \<Rightarrow> (replay_consume st i, rep\<lparr>rep_replies_matched := rep_replies_matched rep + 1\<rparr>)
         | None \<Rightarrow>
             (case recorded of
                Inl e \<Rightarrow> (st, rep\<lparr>rep_replies_missing := rep_replies_missing rep + 1\<rparr>)
              | Inr r \<Rightarrow>
                  (case find (\<lambda>i. w_conn (rs_pending st ! i) = wc_conn c \<and>
                                  kind_code (w_kind (rs_pending st ! i)) = r_code r) idx of
                     Some i \<Rightarrow> (replay_consume st i, rep\<lparr>rep_replies_differing := rep_replies_differing rep + 1\<rparr>)
                   | None \<Rightarrow>
                       if r_code r = GSP_CODE_PLAYER_INFO \<or> r_code r = GSP_CODE_READY \<or>
                          r_code r = GSP_CODE_ROUND_ENDED
                       then (st, rep\<lparr>rep_replies_unsolicited := rep_replies_unsolicited rep + 1\<rparr>)
                       else (st, rep\<lparr>rep_replies_missing := rep_replies_missing rep + 1\<rparr>)))))"

section \<open>Replay into a server\<close>

text \<open>The loop that feeds nothing until the server has taken all it was given.\<close>

partial_function (option) feed_again ::
  "gsp_conn_id \<Rightarrow> gsp_time_us \<Rightarrow> gsp_status \<Rightarrow> gsp_server \<times> gs_replay_state \<times> gsp_replay_report \<Rightarrow>
   (gsp_server \<times> gs_replay_state \<times> gsp_replay_report) option" where
  "feed_again cid now fed x =
     (if fed \<noteq> GSP_ERR_QUEUE_FULL then Some x
      else
        (case replay_drain x of (s, y) \<Rightarrow>
         case gsp_server_on_bytes s cid [] now of (fed, s) \<Rightarrow> feed_again cid now fed (s, y)))"

declare feed_again.simps [code]

text \<open>What holds of the turns of the loop holds of what it returns.\<close>

lemma feed_again_induct [consumes 1, case_names quit again]:
  assumes "feed_again cid now fed x = Some y"
    and quit: "\<And>fed x. fed \<noteq> GSP_ERR_QUEUE_FULL \<Longrightarrow> P fed x x"
    and again: "\<And>x s z fed t y. replay_drain x = (s, z) \<Longrightarrow> gsp_server_on_bytes s cid [] now = (fed, t) \<Longrightarrow>
      P fed (t, z) y \<Longrightarrow> P GSP_ERR_QUEUE_FULL x y"
  shows "P fed x y"
proof -
  have "cid' = cid \<longrightarrow> now' = now \<longrightarrow> P fed' x' y'" if "feed_again cid' now' fed' x' = Some y'" for cid' now' fed' x' y'
  proof (rule feed_again.raw_induct [where xa = "(((cid', now'), fed'), x')" and y = y' and
        P = "\<lambda>c n f x y. c = cid \<longrightarrow> n = now \<longrightarrow> P f x y", unfolded prod.case])
    fix f c n fed x y
    assume IH: "\<And>c n fed x y. f c n fed x = Some y \<Longrightarrow> c = cid \<longrightarrow> n = now \<longrightarrow> P fed x y"
      and step: "(if fed \<noteq> GSP_ERR_QUEUE_FULL then Some x
         else case replay_drain x of (s, z) \<Rightarrow>
           case gsp_server_on_bytes s c [] n of (fed, t) \<Rightarrow> f c n fed (t, z)) = Some y"
    show "c = cid \<longrightarrow> n = now \<longrightarrow> P fed x y"
    proof (cases "fed = GSP_ERR_QUEUE_FULL")
      case True
      obtain s z where d: "replay_drain x = (s, z)" by (rule prod.exhaust)
      obtain fed' t where b: "gsp_server_on_bytes s c [] n = (fed', t)" by (rule prod.exhaust)
      from step True d b have "f c n fed' (t, z) = Some y" by simp
      with IH again [OF d, of fed' t y] b True show ?thesis by blast
    qed (use step quit in simp)
  qed (rule that)
  with assms(1) show ?thesis by blast
qed

text \<open>A connection the replay has not seen is opened when its first bytes come.\<close>

definition replay_open_lazily ::
  "gsp_wire_chunk \<Rightarrow> gsp_server \<times> gs_replay_state \<times> gsp_replay_report \<Rightarrow>
   gsp_server \<times> gs_replay_state \<times> gsp_replay_report" where
  "replay_open_lazily c = (\<lambda>(s, st, rep).
     (if replay_is_open st (wc_conn c) then (s, st, rep)
      else
        (case gsp_server_on_connection_opened s (wc_conn c) None (wc_host_time_us c) of (ok, s) \<Rightarrow>
           replay_drain
             (if failed ok then (s, st, rep)
              else (s, replay_opened st (wc_conn c), rep\<lparr>rep_connections := rep_connections rep + 1\<rparr>)))))"

definition replay_client ::
  "gsp_wire_chunk \<Rightarrow> gsp_server \<times> gs_replay_state \<times> gsp_replay_report \<Rightarrow>
   (gsp_server \<times> gs_replay_state \<times> gsp_replay_report) option" where
  "replay_client c = (\<lambda>(s, st, rep).
     (case replay_open_lazily c (s, st, rep\<lparr>rep_client_chunks := rep_client_chunks rep + 1\<rparr>) of (s, y) \<Rightarrow>
      case gsp_server_on_bytes s (wc_conn c) (wc_data c) (wc_host_time_us c) of (fed, s) \<Rightarrow>
        map_option replay_drain (feed_again (wc_conn c) (wc_host_time_us c) fed (s, y))))"

definition replay_server ::
  "gsp_wire_chunk \<Rightarrow> gsp_server \<times> gs_replay_state \<times> gsp_replay_report \<Rightarrow>
   gsp_server \<times> gs_replay_state \<times> gsp_replay_report" where
  "replay_server c = (\<lambda>(s, st, rep).
     (case replay_drain (s, st, rep\<lparr>rep_server_chunks := rep_server_chunks rep + 1\<rparr>) of (s, y) \<Rightarrow>
        (s, replay_match_reply c y)))"

definition replay_meta ::
  "gsp_wire_chunk \<Rightarrow> gsp_server \<times> gs_replay_state \<times> gsp_replay_report \<Rightarrow>
   gsp_server \<times> gs_replay_state \<times> gsp_replay_report" where
  "replay_meta c = (\<lambda>(s, st, rep).
     (let rep = rep\<lparr>rep_meta_chunks := rep_meta_chunks rep + 1\<rparr> in
      if 17 \<le> length (wc_data c) \<and> take 17 (wc_data c) = ''CONNECTION_CLOSED'' \<and> replay_is_open st (wc_conn c)
      then
        (let s = snd (gsp_server_on_connection_closed s (wc_conn c) GSP_CLOSE_REMOTE_CLOSED (wc_host_time_us c))
         in replay_drain (s, replay_closed st (wc_conn c), rep))
      else (s, st, rep)))"

text \<open>The body of the loop over the chunks of one read.\<close>

definition replay_chunk ::
  "gsp_wire_chunk \<Rightarrow> gsp_server \<times> gs_replay_state \<times> gsp_replay_report \<Rightarrow>
   (gsp_server \<times> gs_replay_state \<times> gsp_replay_report) option" where
  "replay_chunk c = (\<lambda>(s, st, rep).
     (let rep = rep\<lparr>rep_chunks := rep_chunks rep + 1\<rparr>;
          rep = (if wc_flags c AND GSP_WIRE_LOST \<noteq> 0
                 then rep\<lparr>rep_lost_chunks := rep_lost_chunks rep + 1\<rparr> else rep)
      in if wc_direction c = direction_value GSP_WIRE_CLIENT_TO_SERVER then replay_client c (s, st, rep)
         else if wc_direction c = direction_value GSP_WIRE_SERVER_TO_CLIENT then Some (replay_server c (s, st, rep))
         else if wc_direction c = direction_value GSP_WIRE_META then Some (replay_meta c (s, st, rep))
         else Some (s, st, rep)))"

primrec replay_chunks ::
  "gsp_wire_chunk list \<Rightarrow> gsp_server \<times> gs_replay_state \<times> gsp_replay_report \<Rightarrow>
   (gsp_server \<times> gs_replay_state \<times> gsp_replay_report) option" where
  "replay_chunks [] x = Some x"
| "replay_chunks (c # cs) x = (case replay_chunk c x of None \<Rightarrow> None | Some x \<Rightarrow> replay_chunks cs x)"

lemma replay_read_loop_shrinks:
  "replay_read_loop n r = (cs, t) \<Longrightarrow> length (rp_file t) + 24 * length cs \<le> length (rp_file r)"
proof (induction n arbitrary: r cs t)
  case (Suc n)
  have f: "rp_file (replay_fail u st what) = rp_file u" for u st what by (simp add: replay_fail_def)
  define r1 where "r1 = r\<lparr>rp_file := drop (unat (get_u32 (take 24 (rp_file r)))) (drop 24 (rp_file r)),
    rp_chunks := rp_chunks r + 1\<rparr>"
  obtain ds u where ds: "replay_read_loop n r1 = (ds, u)" by fastforce
  note loop = Suc(2) [unfolded replay_read_loop.simps(2) Let_def, folded r1_def]
  show ?case
    using Suc(1) [OF ds] loop ds by (auto simp: f r1_def split: if_splits prod.splits)
qed simp

function replay_loop ::
  "gsp_replay \<Rightarrow> gsp_server \<times> gs_replay_state \<times> gsp_replay_report \<Rightarrow>
   (gsp_replay \<times> gsp_server \<times> gs_replay_state \<times> gsp_replay_report) option" where
  "replay_loop r x =
     (case gsp_replay_read r 8 of (cs, r) \<Rightarrow>
        if cs = [] then Some (r, x)
        else (case replay_chunks cs x of None \<Rightarrow> None | Some x \<Rightarrow> replay_loop r x))"
  by pat_completeness auto
termination
proof (relation "measure (\<lambda>(r, x). length (rp_file r))", goal_cases)
  case (2 r x cs t y)
  then have "replay_read_loop 8 r = (cs, t)" by (auto simp: gsp_replay_read_def split: if_splits)
  from replay_read_loop_shrinks [OF this] 2 show ?case by (cases cs) auto
qed simp

declare replay_loop.simps [simp del]

definition gsp_replay_into_server ::
  "gsp_replay \<Rightarrow> gsp_server \<Rightarrow> (gsp_status \<times> gsp_replay_report \<times> gsp_replay \<times> gsp_server) option" where
  "gsp_replay_into_server r s =
     (case replay_loop r (s, \<lparr>rs_ids = [], rs_pending = []\<rparr>, zero_report) of
        None \<Rightarrow> None
      | Some (r, x) \<Rightarrow>
          (case replay_drain x of (s, st, rep) \<Rightarrow>
             Some (if failed (gsp_replay_status r) then gsp_replay_status r else GSP_OK,
                   rep\<lparr>rep_replies_extra := rep_replies_extra rep + of_nat (length (rs_pending st))\<rparr>, r, s)))"

end
