(* ===== verification/Capture.thy ===== *)
theory Capture
  imports Recorder
begin

text \<open>
  What the container promises: the integers read back as they were written, a capture read back
  is the capture that was written, a file cut short anywhere still gives its whole records, and
  a device that fills up is reported and never damages what is already on it.
\<close>

section \<open>Integers\<close>

lemma word_of_byte_of: "(word_of_byte (byte_of w) :: 'a::len word) = w AND 0xff"
proof -
  have "unat (w AND 0xff) < 256" if "8 \<le> LENGTH('a)"
  proof -
    have "w AND 0xff = take_bit 8 w" by (simp add: take_bit_eq_mask mask_eq_exp_minus_1)
    then show ?thesis using take_bit_nat_less_exp [of 8 "unat w"] by (simp add: unsigned_take_bit_eq)
  qed
  moreover have "unat (w AND 0xff) < 256" if "LENGTH('a) < 8"
  proof -
    have "unat (w AND 0xff) < 2 ^ LENGTH('a)" by (rule unsigned_less)
    also have "\<dots> \<le> 2 ^ 8" using that by (intro power_increasing) simp_all
    finally show ?thesis by simp
  qed
  ultimately have "unat (w AND 0xff) mod 256 = unat (w AND 0xff)" by (metis leI mod_less)
  then show ?thesis by (simp add: word_of_byte_def byte_of_def)
qed

lemma get_put_u32: "get_u32 (put_u32 v @ rest) = v"
proof -
  have "v AND 255 OR push_bit 8 (drop_bit 8 v AND 255) OR push_bit 16 (drop_bit 16 v AND 255) OR
      push_bit 24 (drop_bit 24 v AND 255) = v"
  proof (rule bit_word_eqI)
    fix n assume "n < LENGTH(32)"
    have m: "(255 :: u32) = mask 8" by (simp add: mask_eq_exp_minus_1)
    show "bit (v AND 255 OR push_bit 8 (drop_bit 8 v AND 255) OR push_bit 16 (drop_bit 16 v AND 255) OR
      push_bit 24 (drop_bit 24 v AND 255)) n = bit v n"
      unfolding m using \<open>n < LENGTH(32)\<close> by (cases "n < 8"; cases "n < 16"; cases "n < 24"; simp add: bit_simps less_diff_conv2)
  qed
  then show ?thesis by (simp add: get_u32_def put_u32_def word_of_byte_of)
qed

lemma shift_byte: "push_bit 8 (drop_bit (k + 8) u) OR (drop_bit k u AND 255) = drop_bit k u" for u :: u64
proof (rule bit_word_eqI)
  fix n
  have m: "(255 :: u64) = mask 8" by (simp add: mask_eq_exp_minus_1)
  assume "n < LENGTH(64)"
  then show "bit (push_bit 8 (drop_bit (k + 8) u) OR (drop_bit k u AND 255)) n = bit (drop_bit k u) n"
    unfolding m by (cases "n < 8") (auto simp: bit_simps)
qed

lemma get_put_i64:
  assumes "- (2 ^ 63) \<le> v" "v < 2 ^ 63"
  shows "get_i64 (put_i64 v @ rest) = v"
proof -
  define u :: u64 where "u = word_of_int v"
  have r: "rev [0..<8] = [7, 6, 5, 4, 3, 2, 1, 0 :: nat]" by (simp add: upt_rec)
  have p: "(put_i64 v @ rest) ! i = byte_of (drop_bit (8 * i) u)" if "i < 8" for i
    using that by (simp add: put_i64_def Let_def u_def nth_append)
  have "fold (\<lambda>i u. push_bit 8 u OR (word_of_byte ((put_i64 v @ rest) ! i) :: u64)) (rev [0..<8]) 0 =
     fold (\<lambda>i w. push_bit 8 w OR (drop_bit (8 * i) u AND 255)) (rev [0..<8]) 0"
    by (rule fold_cong) (auto simp: p word_of_byte_of)
  also have "\<dots> = u"
    using shift_byte [of 56 u] shift_byte [of 48 u] shift_byte [of 40 u] shift_byte [of 32 u] shift_byte [of 24 u]
      shift_byte [of 16 u] shift_byte [of 8 u] shift_byte [of 0 u]
    by (simp add: r)
  finally show ?thesis
    using assms by (simp add: get_i64_def u_def signed_take_bit_int_eq_self_iff signed_of_int)
qed

section \<open>Records\<close>

text \<open>A chunk the recorder takes; the times are the \<^verbatim>\<open>int64_t\<close> values of the source.\<close>

definition chunk_ok :: "gsp_wire_chunk \<Rightarrow> bool" where
  "chunk_ok c \<longleftrightarrow> length (wc_data c) \<le> 512 \<and> - (2 ^ 63) \<le> wc_host_time_us c \<and> wc_host_time_us c < 2 ^ 63"

definition entry_bytes :: "gsp_wire_chunk \<Rightarrow> bytes" where
  "entry_bytes c = entry_head c @ wc_data c"

lemma put_field_length [simp]: "length (put_u32 v) = 4" "length (put_u16 x) = 2" "length (put_i64 t) = 8"
  by (simp_all add: put_u32_def put_u16_def put_i64_def)

lemma entry_head_length [simp]: "length (entry_head c) = 24"
  by (simp add: entry_head_def)

lemma entry_bytes_length: "length (entry_bytes c) = 24 + length (wc_data c)"
  by (simp add: entry_bytes_def)

lemma byte_round: "(word_of_byte (byte_of w) :: u8) = w"
proof -
  have m: "(0xff :: u8) = mask 8" by (simp add: mask_eq_exp_minus_1)
  have "w AND 0xff = w" unfolding m by (rule bit_word_eqI) (simp add: bit_simps)
  then show ?thesis by (simp add: word_of_byte_of)
qed

lemma entry_fields:
  assumes "chunk_ok c"
  shows "unat (get_u32 (entry_head c)) = length (wc_data c)" "word_of_byte (entry_head c ! 4) = wc_direction c"
    "word_of_byte (entry_head c ! 5) = wc_flags c" "get_u32 (drop 8 (entry_head c)) = wc_sequence c"
    "get_u32 (drop 12 (entry_head c)) = wc_conn c" "get_i64 (drop 16 (entry_head c)) = wc_host_time_us c"
proof -
  have "unat (of_nat (length (wc_data c)) :: u32) = length (wc_data c)"
    using assms by (simp add: unat_of_nat chunk_ok_def)
  then show "unat (get_u32 (entry_head c)) = length (wc_data c)" by (simp add: entry_head_def get_put_u32)
  show "word_of_byte (entry_head c ! 4) = wc_direction c" "word_of_byte (entry_head c ! 5) = wc_flags c"
    by (simp_all add: entry_head_def nth_append byte_round)
  show "get_u32 (drop 8 (entry_head c)) = wc_sequence c" "get_u32 (drop 12 (entry_head c)) = wc_conn c"
    by (simp_all add: entry_head_def get_put_u32)
  show "get_i64 (drop 16 (entry_head c)) = wc_host_time_us c"
    using get_put_i64 [of "wc_host_time_us c" "[]"] assms by (simp add: entry_head_def chunk_ok_def)
qed

text \<open>Reading one record that is all there.\<close>

lemma replay_read_entry:
  assumes "chunk_ok c" "rp_file r = entry_bytes c @ rest"
  shows "replay_read_loop (Suc n) r =
    apfst ((#) c) (replay_read_loop n (r\<lparr>rp_file := rest, rp_chunks := rp_chunks r + 1\<rparr>))"
proof -
  have h: "take 24 (rp_file r) = entry_head c" "drop 24 (rp_file r) = wc_data c @ rest"
    by (simp_all add: assms(2) entry_bytes_def)
  have "entry_head c \<noteq> []" using entry_head_length [of c] by (metis length_0_conv zero_neq_numeral)
  then show ?thesis
    using assms(1) by (simp add: replay_read_loop.simps(2) h entry_fields [OF assms(1)] Let_def chunk_ok_def split: prod.split)
qed

text \<open>The whole records that fit the first \<open>k\<close> bytes.\<close>

fun whole :: "nat \<Rightarrow> gsp_wire_chunk list \<Rightarrow> gsp_wire_chunk list" where
  "whole k [] = []"
| "whole k (c # cs) =
     (if 24 + length (wc_data c) \<le> k then c # whole (k - (24 + length (wc_data c))) cs else [])"

definition records :: "gsp_wire_chunk list \<Rightarrow> bytes" where
  "records cs = concat (map entry_bytes cs)"

lemma records_simps [simp]: "records [] = []" "records (c # cs) = entry_bytes c @ records cs"
  "records (cs @ ds) = records cs @ records ds"
  by (simp_all add: records_def)

lemma whole_prefix: "\<exists>ds. cs = whole k cs @ ds"
  by (induction k cs rule: whole.induct) auto

lemma whole_all: "length (records cs) \<le> k \<Longrightarrow> whole k cs = cs"
  by (induction k cs rule: whole.induct) (auto simp: entry_bytes_length)

lemma replay_read_nothing:
  assumes "rp_file r = take k (entry_bytes c)" "k < length (entry_bytes c)" "chunk_ok c" "rp_status r = GSP_OK"
  shows "fst (replay_read_loop (Suc n) r) = [] \<and>
    rp_status (snd (replay_read_loop (Suc n) r)) = (if k = 0 then GSP_PENDING else GSP_ERR_BUFFER_TOO_SMALL)"
proof (cases "k < 24")
  case True
  then have f: "rp_file r = take k (entry_head c)" using assms(1) by (simp add: entry_bytes_def)
  have "take k (entry_head c) = [] \<longleftrightarrow> k = 0" using entry_head_length [of c] by (auto simp: take_eq_Nil simp del: entry_head_length)
  with True show ?thesis using assms(4) by (simp add: replay_read_loop.simps(2) f Let_def replay_fail_def failed_def)
next
  case False
  then have h: "take 24 (rp_file r) = entry_head c" "drop 24 (rp_file r) = take (k - 24) (wc_data c)"
    using assms(1) by (simp_all add: entry_bytes_def)
  have "entry_head c \<noteq> []" using entry_head_length [of c] by (metis length_0_conv zero_neq_numeral)
  moreover have short: "k - 24 < length (wc_data c)" using assms(2) False by (simp add: entry_bytes_length)
  ultimately show ?thesis
    using assms(3,4) False short
    by (simp add: replay_read_loop.simps(2) h entry_fields [OF assms(3)] Let_def chunk_ok_def replay_fail_def failed_def entry_bytes_length)
qed

lemma replay_read_cut:
  assumes "list_all chunk_ok cs" "rp_file r = take k (records cs)" "rp_status r = GSP_OK" "length cs < n"
  shows "fst (replay_read_loop n r) = whole k cs \<and>
    rp_status (snd (replay_read_loop n r)) =
      (if k < length (records cs) \<and> k \<noteq> length (records (whole k cs)) then GSP_ERR_BUFFER_TOO_SMALL else GSP_PENDING)"
  using assms
proof (induction cs arbitrary: k n r)
  case Nil
  then obtain m where "n = Suc m" by (cases n) auto
  then show ?case using Nil by (simp add: replay_read_loop.simps(2))
next
  case (Cons c cs)
  then obtain m where n: "n = Suc m" by (cases n) auto
  have c: "chunk_ok c" using Cons(2) by simp
  show ?case
  proof (cases "length (entry_bytes c) \<le> k")
    case True
    then have "rp_file r = entry_bytes c @ take (k - length (entry_bytes c)) (records cs)" using Cons(3) by simp
    note rd = replay_read_entry [OF c this, of m]
    show ?thesis
      using Cons(1) [of "r\<lparr>rp_file := take (k - length (entry_bytes c)) (records cs), rp_chunks := rp_chunks r + 1\<rparr>"
          "k - length (entry_bytes c)" m] Cons(2,4,5) True n
      by (auto simp: rd entry_bytes_length)
  next
    case False
    then show ?thesis
      using replay_read_nothing [of r k c m] Cons(2-5) n by (simp add: entry_bytes_length)
  qed
qed

section \<open>Writing\<close>

lemma fputs_Nil [simp]: "fputs [] f = f"
  by (simp add: fputs_def fwrite_def)

lemma fputs_sel [simp]:
  "of_bytes (fputs bs f) = of_bytes f @ take (of_room f) bs" "of_room (fputs bs f) = of_room f - length bs"
  "of_error (fputs bs f) \<longleftrightarrow> of_error f \<or> of_room f < length bs" "of_flush_ok (fputs bs f) = of_flush_ok f"
  by (auto simp: fputs_def fwrite_def Let_def min_def)

lemma fputs_append: "fputs b (fputs a f) = fputs (a @ b) f"
  by (rule out_file.equality) auto

lemma fputc_fold: "fold (\<lambda>c. fputc (g c)) v f = fputs (map g v) f"
  by (induction v arbitrary: f) (simp_all add: fputc_def fputs_append)

definition clean :: "bytes \<Rightarrow> bytes" where
  "clean v = map (\<lambda>c. if c = LF \<or> c = CR then SPACE else c) v"

definition header_entry :: "bytes \<Rightarrow> bytes \<Rightarrow> bytes" where
  "header_entry key value = key @ CHR ''='' # clean value @ [LF]"

lemma write_header_value_text: "write_header_value key value f = fputs (header_entry key value) f"
  by (simp add: write_header_value_def fputc_fold fputs_append fputc_def header_entry_def clean_def)

definition header_entries :: "gsp_recording_info \<Rightarrow> bytes" where
  "header_entries i =
     header_entry ''library'' (ri_library i) @ header_entry ''clock'' (ri_clock i) @
     header_entry ''byte_order'' ''little'' @
     header_entry ''identifiers'' (if ri_identifiers_recorded i then ''recorded'' else ''redacted'') @
     header_entry ''port'' (dec_digits (uint (ri_port i))) @
     (if ri_note i \<noteq> [] then header_entry ''note'' (ri_note i) else [])"

definition header_text :: "gsp_recording_info \<Rightarrow> bytes" where
  "header_text i = GSP_RECORD_MAGIC @ LF # header_entries i @ [LF]"

lemma write_header_text: "write_header i f = fputs (header_text i) f"
  by (simp add: write_header_def Let_def write_header_value_text fputs_append fputc_def header_text_def
      header_entries_def)

lemma fwrite_fputs: "fwrite bs f = (min (length bs) (of_room f), fputs bs f)"
  by (simp add: fputs_def fwrite_def Let_def)

lemma fputs_full: "of_room f = 0 \<Longrightarrow> of_error f \<Longrightarrow> fputs bs f = f"
  by (rule out_file.equality) auto

lemma recorder_fail_sel [simp]:
  "rc_file (recorder_fail r st what) = rc_file r"
  "failed st \<Longrightarrow> failed (rc_first_error (recorder_fail r st what))"
  by (simp_all add: recorder_fail_def)

lemma failed_invalid_state [simp]: "failed GSP_ERR_INVALID_STATE" "\<not> failed GSP_OK"
  by (simp_all add: failed_def)

lemma write_entry_file:
  "case write_entry c r of
     Inr t \<Rightarrow> length (entry_bytes c) \<le> of_room (rc_file r) \<and> rc_file t = fputs (entry_bytes c) (rc_file r) \<and>
       rc_first_error t = rc_first_error r
   | Inl t \<Rightarrow> of_room (rc_file r) < length (entry_bytes c) \<and> rc_file t = fputs (entry_bytes c) (rc_file r) \<and>
       failed (rc_first_error t)"
proof (cases "of_room (rc_file r) < 24")
  case True
  define f1 where "f1 = fputs (entry_head c) (rc_file r)"
  have "fputs (entry_bytes c) (rc_file r) = f1"
    using True fputs_append [of "wc_data c" "entry_head c" "rc_file r", symmetric] fputs_full [of f1 "wc_data c"]
    by (simp add: entry_bytes_def f1_def)
  then show ?thesis using True by (simp add: write_entry_def fwrite_fputs Let_def entry_bytes_length f1_def [symmetric])
next
  case False
  then show ?thesis
    by (cases "wc_data c = []")
      (auto simp: write_entry_def fwrite_fputs Let_def entry_bytes_length entry_bytes_def fputs_append min_def)
qed

lemma write_entries_file:
  "case write_entries cs r of
     Inr t \<Rightarrow> length (records cs) \<le> of_room (rc_file r) \<and> rc_file t = fputs (records cs) (rc_file r) \<and>
       rc_first_error t = rc_first_error r
   | Inl t \<Rightarrow> of_room (rc_file r) < length (records cs) \<and> rc_file t = fputs (records cs) (rc_file r) \<and>
       failed (rc_first_error t)"
proof (induction cs arbitrary: r)
  case (Cons c cs)
  show ?case
  proof (cases "write_entry c r")
    case (Inl t)
    then have t: "of_room (rc_file r) < length (entry_bytes c)" "rc_file t = fputs (entry_bytes c) (rc_file r)"
      "failed (rc_first_error t)"
      using write_entry_file [of r c] by simp_all
    then have "fputs (records cs) (rc_file t) = rc_file t" by (intro fputs_full) simp_all
    then have "rc_file t = fputs (entry_bytes c @ records cs) (rc_file r)" using t(2) by (simp add: fputs_append)
    then show ?thesis using Inl t by simp
  next
    case (Inr t)
    then have t: "length (entry_bytes c) \<le> of_room (rc_file r)" "rc_file t = fputs (entry_bytes c) (rc_file r)"
      "rc_first_error t = rc_first_error r"
      using write_entry_file [of r c] by simp_all
    then show ?thesis
      using Cons [of t] Inr by (cases "write_entries cs t") (auto simp: fputs_append)
  qed
qed simp

definition accepted :: "gsp_wire_chunk list \<Rightarrow> bool" where
  "accepted b \<longleftrightarrow> \<not> list_ex (\<lambda>c. GSP_WIRE_CHUNK_MAX < length (wc_data c)) b"

lemma recorder_write_file:
  "rc_file (snd (gsp_recorder_write r b)) = (if accepted b then fputs (records b) (rc_file r) else rc_file r)"
  using write_entries_file [of r b]
  by (cases "write_entries b r") (auto simp: gsp_recorder_write_def accepted_def Let_def)

lemma recorder_write_error:
  "failed (rc_first_error (snd (gsp_recorder_write r b))) \<longleftrightarrow>
     failed (rc_first_error r) \<or>
     accepted b \<and> (of_room (rc_file r) < length (records b) \<or> b \<noteq> [] \<and> \<not> of_flush_ok (rc_file r))"
  using write_entries_file [of r b]
  by (cases "write_entries b r") (auto simp: gsp_recorder_write_def accepted_def Let_def recorder_fail_def)

section \<open>A whole capture\<close>

definition record_all :: "gsp_recorder \<Rightarrow> gsp_wire_chunk list list \<Rightarrow> gsp_recorder" where
  "record_all r bs = fold (\<lambda>b r. snd (gsp_recorder_write r b)) bs r"

definition taken_chunks :: "gsp_wire_chunk list list \<Rightarrow> gsp_wire_chunk list" where
  "taken_chunks bs = concat (filter accepted bs)"

text \<open>A recorder reports an error only for a short write or a flush that fails.\<close>

definition honest :: "gsp_recorder \<Rightarrow> bool" where
  "honest r \<longleftrightarrow> (failed (rc_first_error r) \<longrightarrow> of_error (rc_file r) \<or> \<not> of_flush_ok (rc_file r)) \<and>
     rc_first_error r \<in> {GSP_OK, GSP_ERR_INVALID_STATE}"

lemma write_entry_honest: "rc_first_error r \<in> {GSP_OK, GSP_ERR_INVALID_STATE} \<Longrightarrow>
  rc_first_error (case write_entry c r of Inl t \<Rightarrow> t | Inr t \<Rightarrow> t) \<in> {GSP_OK, GSP_ERR_INVALID_STATE}"
  by (auto simp: write_entry_def fwrite_fputs Let_def recorder_fail_def)

lemma write_entries_honest: "rc_first_error r \<in> {GSP_OK, GSP_ERR_INVALID_STATE} \<Longrightarrow>
  rc_first_error (case write_entries cs r of Inl t \<Rightarrow> t | Inr t \<Rightarrow> t) \<in> {GSP_OK, GSP_ERR_INVALID_STATE}"
proof (induction cs arbitrary: r)
  case (Cons c cs)
  then show ?case using write_entry_honest [of r c] by (cases "write_entry c r") auto
qed simp

lemma honest_write: "honest r \<Longrightarrow> honest (snd (gsp_recorder_write r b))"
proof -
  assume h: "honest r"
  have "rc_first_error (snd (gsp_recorder_write r b)) \<in> {GSP_OK, GSP_ERR_INVALID_STATE}"
    using h write_entries_honest [of r b] unfolding honest_def
    by (cases "write_entries b r") (auto simp: gsp_recorder_write_def Let_def recorder_fail_def)
  then show ?thesis
    using h recorder_write_error [of r b] recorder_write_file [of r b] by (auto simp: honest_def)
qed

lemma record_all_file:
  "honest r \<Longrightarrow> rc_file (record_all r bs) = fputs (records (taken_chunks bs)) (rc_file r) \<and> honest (record_all r bs)"
proof (induction bs arbitrary: r)
  case (Cons b bs)
  define t where "t = snd (gsp_recorder_write r b)"
  have "rc_file t = (if accepted b then fputs (records b) (rc_file r) else rc_file r)"
    by (simp add: t_def recorder_write_file)
  with Cons.IH [of t] Cons.prems honest_write [of r b] show ?case
    by (auto simp: record_all_def taken_chunks_def t_def [symmetric] fputs_append)
qed (simp add: record_all_def taken_chunks_def)

lemma recorder_open_file:
  assumes "gsp_recorder_open True fopen (Some p) info = Inr r" "fopen p = Some f"
  shows "rc_file r = fputs (header_text (fill_info info)) f" "honest r"
proof -
  define f1 where "f1 = fputs (header_text (fill_info info)) f"
  define r0 where "r0 = \<lparr>rc_file = f1, rc_info = fill_info info, rc_chunks = 0, rc_bytes = 0,
      rc_first_error = GSP_OK, rc_error = []\<rparr>"
  have "r = (if of_error f1 then recorder_fail r0 GSP_ERR_INVALID_STATE ''the header could not be written'' else r0)"
    using assms unfolding gsp_recorder_open_def Let_def write_header_text r0_def f1_def
    by (auto simp del: fputs_sel)
  moreover have "rc_file r0 = f1" "rc_first_error r0 = GSP_OK" by (simp_all add: r0_def)
  ultimately show "rc_file r = fputs (header_text (fill_info info)) f" "honest r"
    by (auto simp: honest_def f1_def [symmetric]) (auto simp: recorder_fail_def)
qed

lemma recorder_close_status:
  "honest r \<Longrightarrow> fst (gsp_recorder_close r) =
     (if of_error (rc_file r) \<or> \<not> of_flush_ok (rc_file r) then GSP_ERR_INVALID_STATE else GSP_OK) \<and>
   snd (gsp_recorder_close r) = rc_file r"
  by (auto simp: gsp_recorder_close_def Let_def honest_def recorder_fail_def)


section \<open>Reading the header back\<close>

lemma read_line_whole:
  assumes "LF \<notin> set xs" "n + length xs < cap"
  shows "read_line cap (xs @ LF # rest) out n k = (True, out @ xs, rest, k + length xs + 1)"
  using assms by (induction xs arbitrary: out n k) auto

lemma header_loop_line:
  assumes "LF \<notin> set ln" "NUL \<notin> set ln" "ln \<noteq> []" "length ln < 1024" "k \<le> 1024" "header_line ln info = Inr info'"
  shows "header_loop info k (ln @ LF # rest) = header_loop info' (k + length ln + 1) rest"
  using assms by (simp add: header_loop.simps [of info k "ln @ LF # rest"] read_line_whole)

lemma header_loop_end: "k \<le> 1024 \<Longrightarrow> header_loop info k (LF # rest) = Inr (info, rest)"
  by (simp add: header_loop.simps [of info k "LF # rest"] cstr_def)

text \<open>A value as the header holds it: a C string on one line, short enough for its array.\<close>

definition value_ok :: "nat \<Rightarrow> bytes \<Rightarrow> bool" where
  "value_ok cap v \<longleftrightarrow> NUL \<notin> set v \<and> length v < cap"

lemma clean_props [simp]: "length (clean v) = length v" "LF \<notin> set (clean v)" "NUL \<in> set (clean v) \<longleftrightarrow> NUL \<in> set v"
  by (auto simp: clean_def)

lemma clean_id: "LF \<notin> set v \<Longrightarrow> CR \<notin> set v \<Longrightarrow> clean v = v"
  unfolding clean_def by (rule map_idI) auto

lemma copy_bounded_ok: "value_ok cap v \<Longrightarrow> copy_bounded cap (Some v) = v"
  by (auto simp: copy_bounded_def value_ok_def)

lemma header_line_entry:
  assumes "CHR ''='' \<notin> set key"
  shows "header_line (key @ CHR ''='' # v) info = header_key key v info"
proof -
  have "takeWhile (\<lambda>c. c \<noteq> CHR ''='') (key @ CHR ''='' # v) = key"
    "dropWhile (\<lambda>c. c \<noteq> CHR ''='') (key @ CHR ''='' # v) = CHR ''='' # v"
    using assms by (auto simp: takeWhile_append dropWhile_append)
  then show ?thesis by (simp add: header_line_def)
qed

lemma header_loop_entry:
  assumes "list_all (\<lambda>c. c \<notin> {LF, NUL, CHR ''=''}) key" "NUL \<notin> set v" "length key + length v < 1023" "k \<le> 1024"
    "header_key key (clean v) info = Inr info'"
  shows "header_loop info k (header_entry key v @ rest) = header_loop info' (k + length (header_entry key v)) rest"
proof -
  have "header_loop info k ((key @ CHR ''='' # clean v) @ LF # rest) =
      header_loop info' (k + length (key @ CHR ''='' # clean v) + 1) rest"
  proof (rule header_loop_line)
    have k: "LF \<notin> set key" "NUL \<notin> set key" "CHR ''='' \<notin> set key" using assms(1) by (auto simp: list_all_iff)
    show "LF \<notin> set (key @ CHR ''='' # clean v)" "NUL \<notin> set (key @ CHR ''='' # clean v)" using k assms(2) by simp_all
    show "header_line (key @ CHR ''='' # clean v) info = Inr info'" by (simp only: header_line_entry [OF k(3)] assms(5))
  qed (use assms(3,4) in simp_all)
  then show ?thesis by (simp add: header_entry_def)
qed

section \<open>The port\<close>

lemma digits_value_snoc: "digits_value (ds @ [c]) = 10 * digits_value ds + (of_char c - 48)"
  by (simp add: digits_value_def)

lemma digits_value_digits: "0 \<le> n \<Longrightarrow> int (digits_value (dec_digits n)) = n"
proof (induction n rule: dec_digits.induct)
  case (1 n)
  have c: "int ((of_char (char_of (48 + n mod 10) :: char) :: nat) - 48) = n mod 10"
  proof -
    have "int (of_char (char_of (48 + n mod 10) :: char)) = 48 + n mod 10"
      using pos_mod_bound [of 10 n] pos_mod_sign [of 10 n] by (simp add: of_nat_of_char)
    then show ?thesis by linarith
  qed
  show ?case
  proof (cases "n < 10")
    case True
    then show ?thesis using 1(2) c by (simp add: dec_digits.simps [of n] digits_value_def)
  next
    case False
    then have "int (digits_value (dec_digits (n div 10))) = n div 10" using 1 by simp
    with False c show ?thesis by (simp add: dec_digits.simps [of n] digits_value_snoc)
  qed
qed

lemma strtoul_digits: "0 \<le> n \<Longrightarrow> n < 2 ^ 64 \<Longrightarrow> strtoul (dec_digits n) = of_int n"
proof -
  assume n: "0 \<le> n" "n < 2 ^ 64"
  have d: "list_all is_digit (dec_digits n)" "dec_digits n \<noteq> []" by (rule dec_digits_digits dec_digits_nonempty)+
  then have h: "is_digit (hd (dec_digits n))" by (simp add: list_all_iff)
  then have "\<not> is_space (hd (dec_digits n))" "hd (dec_digits n) \<noteq> CHR ''-''" "hd (dec_digits n) \<noteq> CHR ''+''"
    by (auto simp: is_digit_def is_space_def)
  moreover from this(1) d(2) have "dropWhile is_space (dec_digits n) = dec_digits n"
    by (cases "dec_digits n") simp_all
  moreover have "takeWhile is_digit (dec_digits n) = dec_digits n"
    using d(1) by (simp add: takeWhile_eq_all_conv list_all_iff)
  moreover have v: "int (digits_value (dec_digits n)) = n" using digits_value_digits n(1) by blast
  with n(2) have "int (digits_value (dec_digits n)) < int (2 ^ 64)" by simp
  then have "digits_value (dec_digits n) < 2 ^ 64" by (simp only: of_nat_less_iff)
  moreover have "(of_nat (digits_value (dec_digits n)) :: u64) = of_int n"
    using arg_cong [OF v, of "of_int :: int \<Rightarrow> u64"] by (simp only: of_int_of_nat_eq)
  ultimately show ?thesis using d(2) by (simp add: strtoul_def Let_def not_le del: takeWhile_eq_all_conv)
qed

lemma port_round: "(ucast (strtoul (dec_digits (uint (p :: u16)))) :: u16) = p"
proof -
  have "uint p < 2 ^ 16" using uint_lt2p [of p] by simp
  then have "strtoul (dec_digits (uint p)) = of_int (uint p)" by (intro strtoul_digits) simp_all
  moreover have "take_bit 64 (uint p) = uint p" using \<open>uint p < 2 ^ 16\<close> by (intro take_bit_int_eq_self) simp_all
  ultimately show ?thesis by (simp only: unsigned_of_int word_of_int_uint) simp
qed

section \<open>Round trip\<close>

definition info_ok :: "gsp_recording_info \<Rightarrow> bool" where
  "info_ok i \<longleftrightarrow> value_ok 32 (ri_library i) \<and> value_ok 32 (ri_clock i) \<and> value_ok 160 (ri_note i)"

text \<open>The info a reader sees: line ends in the texts have become spaces.\<close>

definition info_read :: "gsp_recording_info \<Rightarrow> gsp_recording_info" where
  "info_read i = i\<lparr>ri_library := clean (ri_library i), ri_clock := clean (ri_clock i), ri_note := clean (ri_note i)\<rparr>"

lemma dec_digits_length: "0 \<le> n \<Longrightarrow> n < 10 ^ Suc k \<Longrightarrow> length (dec_digits n) \<le> Suc k"
proof (induction k arbitrary: n)
  case 0
  then show ?case by (simp add: dec_digits.simps [of n])
next
  case (Suc k)
  then have "n div 10 < 10 ^ Suc k" by (simp add: zdiv_less_mult)
  with Suc show ?case by (simp add: dec_digits.simps [of n])
qed

lemma port_length: "length (dec_digits (uint (p :: u16))) \<le> 5"
  using dec_digits_length [of "uint p" 4] uint_lt2p [of p] by simp

lemma digits_plain: "NUL \<notin> set (dec_digits n)" "clean (dec_digits n) = dec_digits n"
proof -
  have "\<forall>c \<in> set (dec_digits n). is_digit c" using dec_digits_digits [of n] by (simp add: list_all_iff)
  moreover have "\<not> is_digit NUL" "\<not> is_digit LF" "\<not> is_digit CR" by (simp_all add: is_digit_def)
  ultimately show "NUL \<notin> set (dec_digits n)" "clean (dec_digits n) = dec_digits n" by (auto intro!: clean_id)
qed

lemma header_entries_read:
  assumes "info_ok i" "k \<le> 16"
  shows "header_loop (gsp_recording_info_default\<lparr>ri_library := []\<rparr>) k (header_entries i @ LF # rest) =
    Inr (info_read i, rest)"
proof -
  have ok: "NUL \<notin> set (ri_library i)" "length (ri_library i) < 32" "NUL \<notin> set (ri_clock i)" "length (ri_clock i) < 32"
    "NUL \<notin> set (ri_note i)" "length (ri_note i) < 160"
    using assms(1) by (simp_all add: info_ok_def value_ok_def)
  have cb: "copy_bounded 32 (Some (clean (ri_library i))) = clean (ri_library i)"
    "copy_bounded 32 (Some (clean (ri_clock i))) = clean (ri_clock i)"
    "copy_bounded 160 (Some (clean (ri_note i))) = clean (ri_note i)"
    using ok by (simp_all add: copy_bounded_ok value_ok_def)
  have lit: "clean ''little'' = ''little''" "clean ''recorded'' = ''recorded''" "clean ''redacted'' = ''redacted''"
    by (simp_all add: clean_def)
  let ?id = "if ri_identifiers_recorded i then ''recorded'' else ''redacted''"
  define k1 where "k1 = k + length (header_entry ''library'' (ri_library i))"
  define k2 where "k2 = k1 + length (header_entry ''clock'' (ri_clock i))"
  define k3 where "k3 = k2 + length (header_entry ''byte_order'' ''little'')"
  define k4 where "k4 = k3 + length (header_entry ''identifiers'' ?id)"
  define k5 where "k5 = k4 + length (header_entry ''port'' (dec_digits (uint (ri_port i))))"
  define k6 where "k6 = k5 + length (header_entry ''note'' (ri_note i))"
  have ks: "k \<le> 1024" "k1 \<le> 1024" "k2 \<le> 1024" "k3 \<le> 1024" "k4 \<le> 1024" "k5 \<le> 1024" "k6 \<le> 1024"
    using assms(2) ok port_length [of "ri_port i"]
    by (auto simp: k1_def k2_def k3_def k4_def k5_def k6_def header_entry_def)
  have 1: "header_loop j k (header_entry ''library'' (ri_library i) @ R) =
      header_loop (j\<lparr>ri_library := clean (ri_library i)\<rparr>) k1 R" for j R
    unfolding k1_def by (rule header_loop_entry) (use ok cb ks in \<open>simp_all add: header_key_def\<close>)
  have 2: "header_loop j k1 (header_entry ''clock'' (ri_clock i) @ R) =
      header_loop (j\<lparr>ri_clock := clean (ri_clock i)\<rparr>) k2 R" for j R
    unfolding k2_def by (rule header_loop_entry) (use ok cb ks in \<open>simp_all add: header_key_def\<close>)
  have 3: "header_loop j k2 (header_entry ''byte_order'' ''little'' @ R) = header_loop j k3 R" for j R
    unfolding k3_def by (rule header_loop_entry) (use ks in \<open>simp_all add: header_key_def lit\<close>)
  have 4: "header_loop j k3 (header_entry ''identifiers'' ?id @ R) =
      header_loop (j\<lparr>ri_identifiers_recorded := ri_identifiers_recorded i\<rparr>) k4 R" for j R
    unfolding k4_def by (rule header_loop_entry) (use ks in \<open>simp_all add: header_key_def lit\<close>)
  have 5: "header_loop j k4 (header_entry ''port'' (dec_digits (uint (ri_port i))) @ R) =
      header_loop (j\<lparr>ri_port := ri_port i\<rparr>) k5 R" for j R
    unfolding k5_def by (rule header_loop_entry)
      (use ks port_length [of "ri_port i"] digits_plain in \<open>simp_all add: header_key_def port_round\<close>)
  have 6: "header_loop j k5 (header_entry ''note'' (ri_note i) @ R) =
      header_loop (j\<lparr>ri_note := clean (ri_note i)\<rparr>) k6 R" for j R
    unfolding k6_def by (rule header_loop_entry) (use ok cb ks in \<open>simp_all add: header_key_def\<close>)
  show ?thesis
  proof (cases "ri_note i = []")
    case True
    then show ?thesis
      using ks by (simp add: header_entries_def 1 2 3 4 5 header_loop_end info_read_def clean_def
          gsp_recording_info_default_def)
  next
    case False
    then show ?thesis
      using ks by (simp add: header_entries_def 1 2 3 4 5 6 header_loop_end info_read_def gsp_recording_info_default_def)
  qed
qed

lemma replay_open_capture:
  assumes "info_ok i" "fopen q = Some (header_text i @ rest)"
  shows "gsp_replay_open True fopen (Some q) =
    Inr \<lparr>rp_file = rest, rp_info = info_read i, rp_chunks = 0, rp_status = GSP_OK, rp_error = []\<rparr>"
proof -
  have m: "LF \<notin> set GSP_RECORD_MAGIC" "NUL \<notin> set GSP_RECORD_MAGIC" "length GSP_RECORD_MAGIC = 7"
    by (simp_all add: GSP_RECORD_MAGIC_def)
  have "header_text i @ rest = GSP_RECORD_MAGIC @ LF # (header_entries i @ LF # rest)" by (simp add: header_text_def)
  then have "read_line 1024 (header_text i @ rest) [] 0 0 = (True, GSP_RECORD_MAGIC, header_entries i @ LF # rest, 8)"
    using read_line_whole [of GSP_RECORD_MAGIC 0 1024 "header_entries i @ LF # rest" "[]" 0] m by simp
  with assms(2) header_entries_read [OF assms(1), of 8 rest] m show ?thesis
    by (simp add: gsp_replay_open_def)
qed

text \<open>A capture that was closed without an error is on the device whole.\<close>

lemma recorded_file:
  assumes "gsp_recorder_open True fopen (Some p) info = Inr r" "fopen p = Some f" "of_bytes f = []" "\<not> of_error f"
    and "fst (gsp_recorder_close (record_all r bs)) = GSP_OK"
  shows "of_bytes (snd (gsp_recorder_close (record_all r bs))) = header_text (fill_info info) @ records (taken_chunks bs)"
proof -
  note o = recorder_open_file [OF assms(1,2)]
  note all = record_all_file [OF o(2), of bs]
  define cap where "cap = header_text (fill_info info) @ records (taken_chunks bs)"
  have written: "rc_file (record_all r bs) = fputs cap f" using all o(1) by (simp add: fputs_append cap_def)
  have h: "honest (record_all r bs)" using all by simp
  note close = recorder_close_status [OF h, unfolded written]
  then have "length cap \<le> of_room f" using assms(5) by (auto split: if_splits)
  then show ?thesis using assms(3) close by (simp add: cap_def)
qed

text \<open>
  C20. What is recorded reads back: when the device took a whole capture, opening the file gives
  the info the recorder was opened with (its defaults filled in, line ends in the texts turned
  to spaces), and reading gives exactly the chunks of the batches that were written, in order
  and with every field, and then a clean end of file.
\<close>

theorem capture_roundtrip:
  assumes "gsp_recorder_open True fopen_w (Some p) info = Inr r" "fopen_w p = Some f" "of_bytes f = []" "\<not> of_error f"
    and "info_ok (fill_info info)" "list_all chunk_ok (taken_chunks bs)"
    and "fst (gsp_recorder_close (record_all r bs)) = GSP_OK"
    and "fopen_r p = Some (of_bytes (snd (gsp_recorder_close (record_all r bs))))"
    and "length (taken_chunks bs) < n"
  shows "\<exists>rp. gsp_replay_open True fopen_r (Some p) = Inr rp \<and>
    gsp_replay_info rp = info_read (fill_info info) \<and>
    fst (gsp_replay_read rp n) = taken_chunks bs \<and>
    gsp_replay_status (snd (gsp_replay_read rp n)) = GSP_PENDING"
proof -
  have "fopen_r p = Some (header_text (fill_info info) @ records (taken_chunks bs))"
    using recorded_file [OF assms(1-4,7)] assms(8) by simp
  from replay_open_capture [where fopen = fopen_r and q = p, OF assms(5) this]
  show ?thesis
    using replay_read_cut [OF assms(6) _ _ assms(9), of _ "length (records (taken_chunks bs))"]
    by (simp add: gsp_replay_read_def gsp_replay_info_def gsp_replay_status_def whole_all)
qed


definition demo_chunk :: gsp_wire_chunk where
  "demo_chunk = \<lparr>wc_host_time_us = -5, wc_conn = 7, wc_direction = 1, wc_flags = 2, wc_sequence = 300, wc_data = ''{}''\<rparr>"

definition demo_disk :: out_file where
  "demo_disk = \<lparr>of_bytes = [], of_room = 200, of_flush_ok = True, of_error = False\<rparr>"

definition demo_recorder :: gsp_recorder where
  "demo_recorder = (case gsp_recorder_open True (\<lambda>_. Some demo_disk) (Some ''a'') None of Inr r \<Rightarrow> r)"

lemma demo_recorder_open: "gsp_recorder_open True (\<lambda>_. Some demo_disk) (Some ''a'') None = Inr demo_recorder"
  by (simp add: demo_recorder_def gsp_recorder_open_def Let_def)

lemma demo_disk_facts: "of_bytes demo_disk = []" "\<not> of_error demo_disk" "of_flush_ok demo_disk" "of_room demo_disk = 200"
  by (simp_all add: demo_disk_def)

lemma demo_chunks: "list_all chunk_ok (taken_chunks [[demo_chunk], []])" "taken_chunks [[demo_chunk], []] = [demo_chunk]"
  by (simp_all add: taken_chunks_def accepted_def chunk_ok_def demo_chunk_def)

lemma demo_info: "info_ok (fill_info None)" "length (header_text (fill_info None)) \<le> 150"
  by code_simp+


lemma demo_closes: "fst (gsp_recorder_close (record_all demo_recorder [[demo_chunk], []])) = GSP_OK"
proof -
  have "length (header_text (fill_info None) @ records [demo_chunk]) \<le> 200"
    using demo_info by (simp add: entry_bytes_length demo_chunk_def)
  then show ?thesis
    using record_all_file [of demo_recorder "[[demo_chunk], []]"] recorder_open_file [OF demo_recorder_open refl]
      recorder_close_status [of "record_all demo_recorder [[demo_chunk], []]"]
    by (simp add: demo_chunks demo_disk_facts)
qed

theorem capture_roundtrip_witness:
  "\<exists>rp. gsp_replay_open True
      (\<lambda>_. Some (of_bytes (snd (gsp_recorder_close (record_all demo_recorder [[demo_chunk], []]))))) (Some ''a'') = Inr rp \<and>
    gsp_replay_info rp = info_read (fill_info None) \<and> fst (gsp_replay_read rp 5) = [demo_chunk] \<and>
    gsp_replay_status (snd (gsp_replay_read rp 5)) = GSP_PENDING"
proof -
  from capture_roundtrip [OF demo_recorder_open refl demo_disk_facts(1,2) demo_info(1) demo_chunks(1) demo_closes refl, of 5]
  show ?thesis by (simp add: demo_chunks)
qed


section \<open>Any file at all\<close>

lemma get_i64_range: "- (2 ^ 63) \<le> get_i64 p" "get_i64 p < 2 ^ 63"
proof -
  define w :: u64 where "w = fold (\<lambda>i u. push_bit 8 u OR (word_of_byte (p ! i) :: u64)) (rev [0..<8]) 0"
  have "get_i64 p = sint w" by (simp add: get_i64_def w_def)
  then show "- (2 ^ 63) \<le> get_i64 p" "get_i64 p < 2 ^ 63"
    using sint_greater_eq [of w] sint_less [of w] by simp_all
qed

lemma replay_fail_status: "rp_status r = GSP_OK \<Longrightarrow> rp_status (replay_fail r st what) = st"
  by (simp add: replay_fail_def)

lemma replay_read_any:
  assumes "rp_status r = GSP_OK" "replay_read_loop n r = (cs, t)"
  shows "length cs \<le> n \<and> list_all chunk_ok cs \<and>
    (if length cs = n then rp_status t = GSP_OK
     else rp_status t \<in> {GSP_PENDING, GSP_ERR_BUFFER_TOO_SMALL, GSP_ERR_MALFORMED}) \<and>
    rp_chunks t = rp_chunks r + of_nat (length cs)"
  using assms
proof (induction n arbitrary: r cs t)
  case (Suc n)
  define head where "head = take 24 (rp_file r)"
  define rest where "rest = drop 24 (rp_file r)"
  define k where "k = unat (get_u32 head)"
  define r1 where "r1 = r\<lparr>rp_file := drop k rest, rp_chunks := rp_chunks r + 1\<rparr>"
  note loop = Suc(3) [unfolded replay_read_loop.simps(2) Let_def, folded head_def rest_def, folded k_def, folded r1_def]
  show ?case
  proof (cases "length head = 24 \<and> k \<le> 512 \<and> length (take k rest) = k")
    case True
    obtain ds u where ds: "replay_read_loop n r1 = (ds, u)" by fastforce
    from True have "head \<noteq> []" by auto
    with True loop ds obtain c where c: "cs = c # ds" "t = u" "chunk_ok c"
      using get_i64_range [of "drop 16 head"] by (auto simp: chunk_ok_def)
    have "rp_status r1 = GSP_OK" "rp_chunks r1 = rp_chunks r + 1" using Suc(2) by (simp_all add: r1_def)
    with Suc(1) [OF _ ds] c show ?thesis by (auto simp: add.assoc split: if_splits)
  next
    case False
    have f: "rp_chunks (replay_fail u st what) = rp_chunks u" for u st what by (simp add: replay_fail_def)
    have "cs = [] \<and> rp_status t \<in> {GSP_PENDING, GSP_ERR_BUFFER_TOO_SMALL, GSP_ERR_MALFORMED} \<and> rp_chunks t = rp_chunks r"
      using False loop Suc(2) by (auto simp: replay_fail_status f split: if_splits)
    then show ?thesis by simp
  qed
qed simp

text \<open>
  C26. Whatever a file holds, reading it is bounded: at most as many chunks as were asked for, each
  within \<^verbatim>\<open>GSP_WIRE_CHUNK_MAX\<close> and so fit to be recorded again; when fewer come back the
  reader has ended, cleanly or with one of its two refusals, and from then on it gives nothing
  and stays as it is.
\<close>

theorem replay_read_bounded:
  assumes "gsp_replay_read r n = (cs, t)"
  shows "length cs \<le> n \<and> list_all chunk_ok cs \<and>
    (length cs < n \<longrightarrow> gsp_replay_status t \<noteq> GSP_OK \<and> (\<forall>m. gsp_replay_read t m = ([], t))) \<and>
    (gsp_replay_status r = GSP_OK \<longrightarrow>
      gsp_replay_status t \<in> {GSP_OK, GSP_PENDING, GSP_ERR_BUFFER_TOO_SMALL, GSP_ERR_MALFORMED})"
  using assms replay_read_any [of r n cs t]
  by (auto simp: gsp_replay_read_def gsp_replay_status_def split: if_splits)

definition demo_garbage :: gsp_replay where
  "demo_garbage = \<lparr>rp_file = CHR 0x01 # CHR 0x02 # replicate 28 NUL, rp_info = gsp_recording_info_default, rp_chunks = 0,
     rp_status = GSP_OK, rp_error = []\<rparr>"

theorem replay_read_bounded_witness:
  "gsp_replay_status (snd (gsp_replay_read demo_garbage 4)) = GSP_ERR_MALFORMED \<and>
   gsp_replay_read (snd (gsp_replay_read demo_garbage 4)) 9 = ([], snd (gsp_replay_read demo_garbage 4))"
proof -
  have "length (fst (gsp_replay_read demo_garbage 4)) < 4"
    "gsp_replay_status (snd (gsp_replay_read demo_garbage 4)) = GSP_ERR_MALFORMED" by code_simp+
  with replay_read_bounded [of demo_garbage 4 "fst (gsp_replay_read demo_garbage 4)" "snd (gsp_replay_read demo_garbage 4)"]
  show ?thesis by simp
qed

end
