(* ===== verification/ReplayReport.thy ===== *)
theory ReplayReport
  imports Replay Capture
begin

text \<open>
  What the report of a replay says: every chunk of the file is counted once and under its
  direction, every recorded reply is classified exactly once, every reply the server gives is
  claimed by at most one recorded reply, and reading the file eight chunks at a time is the same
  as reading it whole.
\<close>

section \<open>Reading in pieces\<close>

lemma replay_read_cases:
  assumes "rp_status r = GSP_OK"
  obtains (stop) t where "\<And>n. replay_read_loop (Suc n) r = ([], t)" "rp_status t \<noteq> GSP_OK"
    | (chunk) c t where "\<And>n. replay_read_loop (Suc n) r = apfst ((#) c) (replay_read_loop n t)" "rp_status t = GSP_OK"
proof -
  define head where "head = take 24 (rp_file r)"
  define rest where "rest = drop 24 (rp_file r)"
  define k where "k = unat (get_u32 head)"
  define r1 where "r1 = r\<lparr>rp_file := drop k rest, rp_chunks := rp_chunks r + 1\<rparr>"
  note step = replay_read_loop.simps(2) [of _ r, unfolded Let_def, folded head_def rest_def, folded k_def, folded r1_def]
  show thesis
  proof (cases "head \<noteq> [] \<and> length head = 24 \<and> k \<le> 512 \<and> length (take k rest) = k")
    case True
    then show thesis
      using chunk [of _ r1] assms by (simp add: step case_prod_beta apfst_def map_prod_def r1_def)
  next
    case False
    then consider "head = []" | "head \<noteq> []" "length head \<noteq> 24" | "head \<noteq> []" "length head = 24" "512 < k"
      | "head \<noteq> []" "length head = 24" "\<not> 512 < k" "length rest < k"
      by (fastforce simp: not_le min_def split: if_splits)
    then show thesis
      by cases (rule stop [of "snd (replay_read_loop (Suc 0) r)"]; use assms in \<open>simp add: step replay_fail_status\<close>)+
  qed
qed

lemma replay_read_loop_add:
  assumes "rp_status r = GSP_OK"
  shows "replay_read_loop (m + n) r =
    (case replay_read_loop m r of (a, t) \<Rightarrow>
       if rp_status t = GSP_OK then apfst ((@) a) (replay_read_loop n t) else (a, t))"
  using assms
proof (induction m arbitrary: r)
  case (Suc m)
  from Suc(2) show ?case
  proof (cases rule: replay_read_cases)
    case (stop t)
    then show ?thesis by simp
  next
    case (chunk c t)
    obtain a u where a: "replay_read_loop m t = (a, u)" by fastforce
    show ?thesis
      using Suc(1) [OF chunk(2)] by (cases "replay_read_loop n u") (simp add: chunk a)
  qed
next
  case 0
  then show ?case by (cases "replay_read_loop n r") simp
qed

lemma replay_read_enough:
  assumes "rp_status r = GSP_OK" "length (fst (replay_read_loop n r)) < n"
  shows "replay_read_loop (n + k) r = replay_read_loop n r"
proof -
  obtain cs t where ct: "replay_read_loop n r = (cs, t)" by fastforce
  with replay_read_any [OF assms(1) ct] assms(2) have "rp_status t \<noteq> GSP_OK" by auto
  with ct show ?thesis by (simp add: replay_read_loop_add [OF assms(1)])
qed

lemma replay_chunks_append:
  "replay_chunks (a @ b) x = (case replay_chunks a x of None \<Rightarrow> None | Some y \<Rightarrow> replay_chunks b y)"
  by (induction a arbitrary: x) (auto split: option.split)

text \<open>The chunks of a file, and the reader at its end.\<close>

definition read_whole :: "gsp_replay \<Rightarrow> gsp_wire_chunk list \<times> gsp_replay" where
  "read_whole r = gsp_replay_read r (length (rp_file r) + 1)"

lemma read_whole_more:
  assumes "rp_status r = GSP_OK" "length (rp_file r) < n"
  shows "replay_read_loop n r = read_whole r"
proof -
  obtain cs t where ct: "replay_read_loop (length (rp_file r) + 1) r = (cs, t)" by fastforce
  from replay_read_loop_shrinks [OF ct] have "length cs < length (rp_file r) + 1" by simp
  with replay_read_enough [OF assms(1), of "length (rp_file r) + 1" "n - (length (rp_file r) + 1)"] ct assms(2)
  show ?thesis using assms(1) by (simp add: read_whole_def gsp_replay_read_def)
qed

text \<open>Reading a block first is reading the whole file.\<close>

lemma read_whole_block:
  assumes "gsp_replay_read r (Suc n) = (cs, t)"
  shows "read_whole r = (if cs = [] then ([], t) else apfst ((@) cs) (read_whole t))"
proof (cases "rp_status r = GSP_OK")
  case False
  then show ?thesis using assms by (auto simp: gsp_replay_read_def read_whole_def)
next
  case True
  then have loop: "replay_read_loop (Suc n) r = (cs, t)" using assms by (simp add: gsp_replay_read_def)
  have "length (rp_file t) \<le> length (rp_file r)" using replay_read_loop_shrinks [OF loop] by simp
  then have t: "rp_status t = GSP_OK \<Longrightarrow> replay_read_loop (length (rp_file r) + 1) t = read_whole t"
    by (intro read_whole_more) simp_all
  have "read_whole r = replay_read_loop (Suc n + (length (rp_file r) + 1)) r"
    by (rule read_whole_more [OF True, symmetric]) simp
  also have "\<dots> = (if rp_status t = GSP_OK then apfst ((@) cs) (read_whole t) else (cs, t))"
    unfolding replay_read_loop_add [OF True] loop prod.case
    by (cases "rp_status t = GSP_OK") (simp_all only: t if_True if_False simp_thms)
  finally have split: "read_whole r = (if rp_status t = GSP_OK then apfst ((@) cs) (read_whole t) else (cs, t))" .
  have "rp_status t \<noteq> GSP_OK \<Longrightarrow> read_whole t = ([], t)" by (simp add: read_whole_def gsp_replay_read_def)
  moreover have "cs = [] \<Longrightarrow> rp_status t \<noteq> GSP_OK" using replay_read_any [OF True loop] by auto
  ultimately show ?thesis using split by auto
qed

lemma replay_loop_whole:
  "replay_loop r x = map_option (Pair (snd (read_whole r))) (replay_chunks (fst (read_whole r)) x)"
proof (induction r x rule: replay_loop.induct)
  case (1 r x)
  obtain cs t where ct: "gsp_replay_read r 8 = (cs, t)" by fastforce
  then have "gsp_replay_read r (Suc 7) = (cs, t)" by simp
  note e = read_whole_block [OF this]
  show ?case
  proof (cases "cs = [] \<or> replay_chunks cs x = None")
    case True
    then show ?thesis by (auto simp: replay_loop.simps [of r] ct e replay_chunks_append)
  next
    case False
    then obtain y where y: "replay_chunks cs x = Some y" "cs \<noteq> []" by blast
    with 1 [OF ct [symmetric] y(2) y(1)] show ?thesis
      by (simp add: replay_loop.simps [of r] ct e replay_chunks_append)
  qed
qed

section \<open>The books\<close>

text \<open>
  The tables of the replay are within their arrays, and every reply the server has produced is
  matched, differing, extra or still pending.
\<close>

definition balanced :: "gs_replay_state \<times> gsp_replay_report \<Rightarrow> bool" where
  "balanced = (\<lambda>(st, rep). length (rs_ids st) \<le> 64 \<and> length (rs_pending st) \<le> 32 \<and>
     rep_replies_produced rep = rep_replies_matched rep + rep_replies_differing rep + rep_replies_extra rep +
       of_nat (length (rs_pending st)))"

text \<open>What only chunks of the file move.\<close>

definition tally :: "gsp_replay_report \<Rightarrow> u64 list" where
  "tally rep = [rep_chunks rep, rep_client_chunks rep, rep_server_chunks rep, rep_meta_chunks rep, rep_lost_chunks rep,
     rep_replies_matched rep, rep_replies_differing rep, rep_replies_missing rep, rep_replies_unsolicited rep]"

lemma balanced_note_write: "balanced y \<Longrightarrow> balanced (note_write w y) \<and> tally (snd (note_write w y)) = tally (snd y)"
  by (cases y) (auto simp: note_write_def balanced_def tally_def Let_def)

lemma balanced_note_writes:
  "balanced y \<Longrightarrow> balanced (fold note_write ws y) \<and> tally (snd (fold note_write ws y)) = tally (snd y)"
  by (induction ws arbitrary: y) (auto simp: balanced_note_write)

lemma balanced_note_events:
  "balanced (st, fold note_event evs rep) = balanced (st, rep) \<and> tally (fold note_event evs rep) = tally rep"
proof (induction evs arbitrary: rep)
  case (Cons ev evs)
  have "balanced (st, note_event ev rep) = balanced (st, rep) \<and> tally (note_event ev rep) = tally rep"
    by (simp add: note_event_def balanced_def tally_def)
  with Cons show ?case by simp
qed simp

lemma balanced_drain_writes:
  assumes "drain_writes s y = (t, z)" "balanced y"
  shows "balanced z \<and> tally (snd z) = tally (snd y)"
  using assms
proof (induction s y rule: drain_writes.induct)
  case (1 s y)
  obtain ws u where p: "gsp_server_poll_writes s 8 = (ws, u)" by fastforce
  show ?case
  proof (cases "ws = []")
    case True
    then show ?thesis using 1(2,3) p by (simp add: drain_writes.simps [of s])
  next
    case False
    then show ?thesis
      using 1(1) [OF p [symmetric] False] 1(2,3) p balanced_note_writes [of y ws] by (simp add: drain_writes.simps [of s])
  qed
qed

lemma balanced_drain_events:
  assumes "drain_events s rep = (t, rep')"
  shows "balanced (st, rep') = balanced (st, rep) \<and> tally rep' = tally rep"
  using assms
proof (induction s rep rule: drain_events.induct)
  case (1 s rep)
  obtain evs u where p: "gsp_server_poll_events s 16 = (evs, u)" by fastforce
  show ?case
  proof (cases "evs = []")
    case True
    then show ?thesis using 1(2) p by (simp add: drain_events.simps [of s])
  next
    case False
    then show ?thesis
      using 1(1) [OF p [symmetric] False] 1(2) p balanced_note_events [of st evs rep] by (simp add: drain_events.simps [of s])
  qed
qed

text \<open>A step that keeps the books: balanced before, balanced after, and the tally as it was.\<close>

definition keeps_books ::
  "gsp_server \<times> gs_replay_state \<times> gsp_replay_report \<Rightarrow> gsp_server \<times> gs_replay_state \<times> gsp_replay_report \<Rightarrow> bool" where
  "keeps_books x y \<longleftrightarrow> (balanced (snd x) \<longrightarrow> balanced (snd y) \<and> tally (snd (snd y)) = tally (snd (snd x)))"

lemma keeps_trans: "keeps_books x y \<Longrightarrow> keeps_books y z \<Longrightarrow> keeps_books x z"
  by (auto simp: keeps_books_def)

lemma keeps_server [simp]: "keeps_books (s, y) (t, y)"
  by (simp add: keeps_books_def)

lemma keeps_drain: "keeps_books x (replay_drain x)"
proof -
  obtain s y where x: "x = (s, y)" by (rule prod.exhaust)
  obtain t st rep where w: "drain_writes s y = (t, st, rep)" by (metis prod_cases3)
  obtain u rep' where e: "drain_events t rep = (u, rep')" by fastforce
  show ?thesis
    using balanced_drain_writes [OF w] balanced_drain_events [OF e, of st]
    by (auto simp: keeps_books_def replay_drain_def x w e)
qed

lemma keeps_feed: "feed_again cid now fed x = Some y \<Longrightarrow> keeps_books x y"
proof (induction rule: feed_again_induct)
  case (again x s z fed t y)
  then show ?case using keeps_drain [of x] by (simp add: keeps_books_def)
qed (simp add: keeps_books_def)

section \<open>One chunk\<close>

definition filed :: "gsp_replay_report \<Rightarrow> u64" where
  "filed rep = rep_replies_matched rep + rep_replies_differing rep + rep_replies_missing rep + rep_replies_unsolicited rep"

text \<open>Every count of the report that the chunks \<open>cs\<close> move, with what they move it by.\<close>

definition counted :: "gsp_wire_chunk list \<Rightarrow> gsp_replay_report \<Rightarrow> gsp_replay_report \<Rightarrow> bool" where
  "counted cs rep rep' \<longleftrightarrow>
     rep_chunks rep' = rep_chunks rep + of_nat (length cs) \<and>
     rep_client_chunks rep' = rep_client_chunks rep + of_nat (length (filter (\<lambda>c. wc_direction c = 0) cs)) \<and>
     rep_server_chunks rep' = rep_server_chunks rep + of_nat (length (filter (\<lambda>c. wc_direction c = 1) cs)) \<and>
     rep_meta_chunks rep' = rep_meta_chunks rep + of_nat (length (filter (\<lambda>c. wc_direction c = 2) cs)) \<and>
     rep_lost_chunks rep' = rep_lost_chunks rep + of_nat (length (filter (\<lambda>c. wc_flags c AND 2 \<noteq> 0) cs)) \<and>
     filed rep' = filed rep + of_nat (length (filter (\<lambda>c. wc_direction c = 1) cs))"

lemma counted_append: "counted a rep rep' \<Longrightarrow> counted b rep' rep'' \<Longrightarrow> counted (a @ b) rep rep''"
  by (simp add: counted_def add.assoc)

lemma tally_sel:
  assumes "tally rep' = tally rep"
  shows "rep_chunks rep' = rep_chunks rep" "rep_client_chunks rep' = rep_client_chunks rep"
    "rep_server_chunks rep' = rep_server_chunks rep" "rep_meta_chunks rep' = rep_meta_chunks rep"
    "rep_lost_chunks rep' = rep_lost_chunks rep" "filed rep' = filed rep"
  using assms by (simp_all add: tally_def filed_def)

lemma find_index: "find P [0..<n] = Some i \<Longrightarrow> i < n"
  using find_SomeD [of P "[0..<n]" i] by simp

lemma consume_length: "i < length (rs_pending st) \<Longrightarrow> length (rs_pending (replay_consume st i)) + 1 = length (rs_pending st)"
  by (simp add: replay_consume_def)

lemma consume_balanced:
  assumes "balanced (st, rep)" "i < length (rs_pending st)"
  shows "balanced (replay_consume st i, rep\<lparr>rep_replies_matched := rep_replies_matched rep + 1\<rparr>)"
    "balanced (replay_consume st i, rep\<lparr>rep_replies_differing := rep_replies_differing rep + 1\<rparr>)"
proof -
  have "rs_ids (replay_consume st i) = rs_ids st" by (simp add: replay_consume_def)
  moreover have "of_nat (length (rs_pending st)) = (of_nat (length (rs_pending (replay_consume st i))) + 1 :: u64)"
    using consume_length [OF assms(2)] by (metis of_nat_1 of_nat_add)
  ultimately show "balanced (replay_consume st i, rep\<lparr>rep_replies_matched := rep_replies_matched rep + 1\<rparr>)"
    "balanced (replay_consume st i, rep\<lparr>rep_replies_differing := rep_replies_differing rep + 1\<rparr>)"
    using assms(1) consume_length [OF assms(2)] by (simp_all add: balanced_def add_ac)
qed

lemma match_books:
  assumes "balanced (st, rep)" "replay_match_reply c (st, rep) = (st', rep')"
  shows "balanced (st', rep') \<and> filed rep' = filed rep + 1 \<and> take 5 (tally rep') = take 5 (tally rep)"
  using assms consume_balanced [OF assms(1)]
  by (auto simp: replay_match_reply_def Let_def filed_def tally_def balanced_def dest!: find_index
      split: option.splits sum.splits if_splits)

lemma balanced_fields [simp]:
  "balanced (st, rep\<lparr>rep_client_chunks := n\<rparr>) = balanced (st, rep)" "balanced (st, rep\<lparr>rep_server_chunks := n\<rparr>) = balanced (st, rep)"
  "balanced (st, rep\<lparr>rep_meta_chunks := n\<rparr>) = balanced (st, rep)" "balanced (st, rep\<lparr>rep_chunks := n\<rparr>) = balanced (st, rep)"
  "balanced (st, rep\<lparr>rep_lost_chunks := n\<rparr>) = balanced (st, rep)" "balanced (st, rep\<lparr>rep_connections := k\<rparr>) = balanced (st, rep)"
  by (simp_all add: balanced_def)

lemma balanced_tables: "balanced (st, rep) \<Longrightarrow> balanced (replay_opened st cid, rep)" "balanced (st, rep) \<Longrightarrow> balanced (replay_closed st cid, rep)"
  by (auto simp: balanced_def replay_opened_def replay_closed_def length_remove1)

lemma drain_books:
  assumes "replay_drain (s, st, rep) = (t, st', rep')" "balanced (st, rep)"
  shows "balanced (st', rep') \<and> tally rep' = tally rep"
  using keeps_drain [of "(s, st, rep)"] assms by (simp add: keeps_books_def)

lemma open_books:
  assumes "balanced (st, rep)" "replay_open_lazily c (s, st, rep) = (t, st', rep')"
  shows "balanced (st', rep') \<and> tally rep' = tally rep"
proof -
  obtain ok s1 where o: "gsp_server_on_connection_opened s (wc_conn c) None (wc_host_time_us c) = (ok, s1)"
    by (rule prod.exhaust)
  have t: "tally (rep\<lparr>rep_connections := k\<rparr>) = tally rep" for k by (simp add: tally_def)
  show ?thesis
    using assms(2) o assms(1) drain_books [of s1 "replay_opened st (wc_conn c)" _ t st' rep'] drain_books [of s1 st rep t st' rep']
      balanced_tables(1) [OF assms(1)] t
    by (auto simp: replay_open_lazily_def split: if_splits)
qed

lemma client_books:
  assumes "balanced (st, rep)" "replay_client c (s, st, rep) = Some (s', st', rep')"
  shows "balanced (st', rep') \<and> tally rep' = tally (rep\<lparr>rep_client_chunks := rep_client_chunks rep + 1\<rparr>)"
proof -
  define rep1 where "rep1 = rep\<lparr>rep_client_chunks := rep_client_chunks rep + 1\<rparr>"
  obtain s2 st2 rep2 where x: "replay_open_lazily c (s, st, rep1) = (s2, st2, rep2)" by (metis prod_cases3)
  have 2: "balanced (st2, rep2) \<and> tally rep2 = tally rep1" using open_books [OF _ x] assms(1) by (simp add: rep1_def)
  obtain fed s3 where f: "gsp_server_on_bytes s2 (wc_conn c) (wc_data c) (wc_host_time_us c) = (fed, s3)" by (rule prod.exhaust)
  from assms(2) obtain z where z: "feed_again (wc_conn c) (wc_host_time_us c) fed (s3, st2, rep2) = Some z"
    "replay_drain z = (s', st', rep')"
    by (auto simp: replay_client_def rep1_def [symmetric] x f)
  have "keeps_books (s3, st2, rep2) (s', st', rep')" using keeps_trans [OF keeps_feed [OF z(1)] keeps_drain] z(2) by simp
  with 2 show ?thesis by (simp add: keeps_books_def rep1_def)
qed

lemma server_books:
  assumes "balanced (st, rep)" "replay_server c (s, st, rep) = (s', st', rep')"
  shows "balanced (st', rep') \<and> filed rep' = filed rep + 1 \<and>
    take 5 (tally rep') = take 5 (tally (rep\<lparr>rep_server_chunks := rep_server_chunks rep + 1\<rparr>))"
proof -
  define rep1 where "rep1 = rep\<lparr>rep_server_chunks := rep_server_chunks rep + 1\<rparr>"
  obtain t st1 rep2 where d: "replay_drain (s, st, rep1) = (t, st1, rep2)" by (metis prod_cases3)
  have b: "balanced (st1, rep2) \<and> tally rep2 = tally rep1" using drain_books [OF d] assms(1) by (simp add: rep1_def)
  then have "filed rep2 = filed rep" using tally_sel(6) [of rep2 rep1] by (simp add: rep1_def filed_def)
  with b match_books [of st1 rep2 c st' rep'] assms(2) d show ?thesis
    by (simp add: replay_server_def rep1_def [symmetric])
qed

lemma meta_books:
  assumes "balanced (st, rep)" "replay_meta c (s, st, rep) = (s', st', rep')"
  shows "balanced (st', rep') \<and> tally rep' = tally (rep\<lparr>rep_meta_chunks := rep_meta_chunks rep + 1\<rparr>)"
proof -
  define rep1 where "rep1 = rep\<lparr>rep_meta_chunks := rep_meta_chunks rep + 1\<rparr>"
  have b: "balanced (st, rep1)" "balanced (replay_closed st (wc_conn c), rep1)"
    using assms(1) balanced_tables(2) [of st rep1] by (simp_all add: rep1_def)
  show ?thesis
    using assms(2) b drain_books [OF _ b(2)] by (auto simp: replay_meta_def Let_def rep1_def [symmetric] split: if_splits)
qed

lemma chunk_books:
  assumes "balanced (st, rep)" "replay_chunk c (s, st, rep) = Some (s', st', rep')"
  shows "balanced (st', rep') \<and> counted [c] rep rep'"
proof -
  define rep0 where "rep0 = rep\<lparr>rep_chunks := rep_chunks rep + 1\<rparr>"
  define rep1 where "rep1 = (if wc_flags c AND 2 \<noteq> 0 then rep0\<lparr>rep_lost_chunks := rep_lost_chunks rep0 + 1\<rparr> else rep0)"
  have b: "balanced (st, rep1)" using assms(1) by (simp add: rep1_def rep0_def)
  have step: "(if wc_direction c = 0 then replay_client c (s, st, rep1)
      else if wc_direction c = 1 then Some (replay_server c (s, st, rep1))
      else if wc_direction c = 2 then Some (replay_meta c (s, st, rep1)) else Some (s, st, rep1)) = Some (s', st', rep')"
    using assms(2) unfolding replay_chunk_def Let_def prod.case direction_value.simps rep1_def rep0_def .
  have f: "filed rep1 = filed rep" by (simp add: rep1_def rep0_def filed_def)
  consider "wc_direction c = 0" | "wc_direction c = 1" | "wc_direction c = 2"
    | "wc_direction c \<noteq> 0" "wc_direction c \<noteq> 1" "wc_direction c \<noteq> 2" by blast
  then show ?thesis
  proof cases
    case 1
    with step client_books [OF b, of c s s' st' rep'] have t: "balanced (st', rep')"
      "tally rep' = tally (rep1\<lparr>rep_client_chunks := rep_client_chunks rep1 + 1\<rparr>)" by simp_all
    with 1 f show ?thesis using tally_sel [OF t(2)] by (simp add: counted_def rep1_def rep0_def filed_def)
  next
    case 2
    with step server_books [OF b, of c s s' st' rep'] f show ?thesis
      by (simp add: counted_def tally_def rep1_def rep0_def)
  next
    case 3
    with step meta_books [OF b, of c s s' st' rep'] have t: "balanced (st', rep')"
      "tally rep' = tally (rep1\<lparr>rep_meta_chunks := rep_meta_chunks rep1 + 1\<rparr>)" by simp_all
    with 3 f show ?thesis using tally_sel [OF t(2)] by (simp add: counted_def rep1_def rep0_def filed_def)
  next
    case 4
    with step b f show ?thesis by (auto simp: counted_def rep1_def rep0_def)
  qed
qed

lemma chunks_books:
  assumes "balanced (st, rep)" "replay_chunks cs (s, st, rep) = Some (s', st', rep')"
  shows "balanced (st', rep') \<and> counted cs rep rep'"
  using assms
proof (induction cs arbitrary: s st rep)
  case Nil
  then show ?case by (simp add: counted_def)
next
  case (Cons c cs)
  then obtain s1 st1 rep1 where c: "replay_chunk c (s, st, rep) = Some (s1, st1, rep1)"
    and rest: "replay_chunks cs (s1, st1, rep1) = Some (s', st', rep')"
    by (auto split: option.splits)
  from chunk_books [OF Cons(2) c] Cons(1) [OF _ rest] counted_append [of "[c]" rep rep1 cs rep'] show ?case by simp
qed

text \<open>
  C22. The books of a replay balance. When \<^verbatim>\<open>gsp_replay_into_server\<close> returns, its report counts
  every chunk of the file once, each under its direction, and every chunk that says chunks were
  lost before it; every recorded reply is classified exactly once as matched, differing, missing
  or unsolicited; every reply the server produced this time is claimed by one recorded reply
  (matched or differing) or counted as extra; and the status is the reader's refusal, if it
  refused, and \<^verbatim>\<open>GSP_OK\<close> otherwise. (The counters are 64 bits wide.)
\<close>

theorem replay_report:
  assumes "gsp_replay_into_server r s = Some (st, rep, r', s')" "read_whole r = (cs, t)"
  shows "rep_chunks rep = of_nat (length cs) \<and>
    rep_client_chunks rep = of_nat (length (filter (\<lambda>c. wc_direction c = 0) cs)) \<and>
    rep_server_chunks rep = of_nat (length (filter (\<lambda>c. wc_direction c = 1) cs)) \<and>
    rep_meta_chunks rep = of_nat (length (filter (\<lambda>c. wc_direction c = 2) cs)) \<and>
    rep_lost_chunks rep = of_nat (length (filter (\<lambda>c. wc_flags c AND 2 \<noteq> 0) cs)) \<and>
    rep_server_chunks rep = rep_replies_matched rep + rep_replies_differing rep + rep_replies_missing rep +
      rep_replies_unsolicited rep \<and>
    rep_replies_produced rep = rep_replies_matched rep + rep_replies_differing rep + rep_replies_extra rep \<and>
    r' = t \<and> st = (if failed (gsp_replay_status t) then gsp_replay_status t else GSP_OK)"
proof -
  let ?y = "(\<lparr>rs_ids = [], rs_pending = []\<rparr>, zero_report)"
  obtain s1 st1 rep1 where cs: "replay_chunks cs (s, ?y) = Some (s1, st1, rep1)"
    using assms by (auto simp: gsp_replay_into_server_def replay_loop_whole split: option.splits)
  obtain s2 st2 rep2 where d: "replay_drain (s1, st1, rep1) = (s2, st2, rep2)" by (metis prod_cases3)
  have e: "rep = rep2\<lparr>rep_replies_extra := rep_replies_extra rep2 + of_nat (length (rs_pending st2))\<rparr>" "r' = t"
    "st = (if failed (gsp_replay_status t) then gsp_replay_status t else GSP_OK)"
    using assms cs d by (auto simp: gsp_replay_into_server_def replay_loop_whole)
  have "balanced ?y" by (simp add: balanced_def zero_report_def)
  from chunks_books [OF this cs] have b1: "balanced (st1, rep1)" "counted cs zero_report rep1" by simp_all
  from drain_books [OF d b1(1)] have b2: "balanced (st2, rep2)" "tally rep2 = tally rep1" by simp_all
  have "rep_replies_produced rep = rep_replies_matched rep + rep_replies_differing rep + rep_replies_extra rep"
    using b2(1) by (simp add: e(1) balanced_def add.assoc)
  moreover have "filed rep = filed rep2" "tally rep = tally rep2" by (simp_all add: e(1) filed_def tally_def)
  ultimately show ?thesis
    using b1(2) tally_sel [OF b2(2)] e tally_sel [of rep rep2]
    by (simp add: counted_def zero_report_def filed_def)
qed

definition demo_session :: "gsp_wire_chunk list" where
  "demo_session =
     [\<lparr>wc_host_time_us = 9, wc_conn = 7, wc_direction = 0, wc_flags = 0, wc_sequence = 0, wc_data = ''{}''\<rparr>,
      \<lparr>wc_host_time_us = 9, wc_conn = 7, wc_direction = 1, wc_flags = 2, wc_sequence = 4, wc_data = ''{}''\<rparr>]"

definition demo_replay :: gsp_replay where
  "demo_replay = \<lparr>rp_file = records demo_session, rp_info = gsp_recording_info_default, rp_chunks = 0,
     rp_status = GSP_OK, rp_error = []\<rparr>"

lemma demo_replay_whole: "fst (read_whole demo_replay) = demo_session" "rp_status (snd (read_whole demo_replay)) = GSP_PENDING"
proof -
  have ok: "list_all chunk_ok demo_session" by (simp add: demo_session_def chunk_ok_def)
  have n: "length demo_session < length (rp_file demo_replay) + 1"
    by (simp add: demo_session_def demo_replay_def entry_bytes_length)
  from replay_read_cut [OF ok _ _ n, of demo_replay "length (records demo_session)"]
  show "fst (read_whole demo_replay) = demo_session" "rp_status (snd (read_whole demo_replay)) = GSP_PENDING"
    by (simp_all add: read_whole_def gsp_replay_read_def demo_replay_def whole_all)
qed

lemma demo_replay_returns: "gsp_replay_into_server demo_replay demo_server \<noteq> None"
  unfolding gsp_replay_into_server_def replay_loop_whole demo_replay_whole by code_simp

theorem replay_report_witness:
  "\<exists>rep t u. gsp_replay_into_server demo_replay demo_server = Some (GSP_OK, rep, t, u) \<and>
     rep_chunks rep = 2 \<and> rep_client_chunks rep = 1 \<and> rep_server_chunks rep = 1 \<and> rep_lost_chunks rep = 1 \<and>
     rep_replies_produced rep = rep_replies_matched rep + rep_replies_differing rep + rep_replies_extra rep"
proof -
  obtain st rep t u where r: "gsp_replay_into_server demo_replay demo_server = Some (st, rep, t, u)"
    using demo_replay_returns by (metis option.exhaust prod_cases4)
  from replay_report [OF r prod.collapse [symmetric]] demo_replay_whole r show ?thesis
    by (simp add: demo_session_def gsp_replay_status_def failed_def)
qed

end
