(* ===== verification/ServerChunk.thy ===== *)
theory ServerChunk
  imports ServerPoll
begin

text \<open>
  How a stream is cut into reads does not matter. Every operation the framing loop calls
  commutes with appending bytes to the pending buffer, so a pass over the buffer that is
  neither refused nor discarded can be resumed with the next bytes, with the same result as one
  pass over both.
\<close>

section \<open>Operations that do not look at the connections\<close>

definition with_conns :: "gs_conn list \<Rightarrow> gsp_server \<Rightarrow> gsp_server" where
  "with_conns cs s = s\<lparr>s_conns := cs\<rparr>"

lemma ring_push_event_with: "ring_push_event (with_conns cs s) ev = with_conns cs (ring_push_event s ev)"
  by (simp add: ring_push_event_def with_conns_def Let_def)

lemma emit_with: "emit (with_conns cs s) ev = with_conns cs (emit s ev)"
proof -
  define t where "t = ring_push_event (next_event_sequence s) (ev\<lparr>ev_sequence := s_event_sequence s\<rparr>)"
  have n: "next_event_sequence (with_conns cs u) = with_conns cs (next_event_sequence u)" for u
    by (simp add: next_event_sequence_def with_conns_def)
  have w: "(with_conns cs u)\<lparr>s_drop_warned := k\<rparr> = with_conns cs (u\<lparr>s_drop_warned := k\<rparr>)" for u k
    by (simp add: with_conns_def)
  have sel: "s_event_sequence (with_conns cs u) = s_event_sequence u" "s_drop_warned (with_conns cs u) = s_drop_warned u"
    "s_now_us (with_conns cs u) = s_now_us u" "s_dropped_events (with_conns cs u) = s_dropped_events u" for u
    by (simp_all add: with_conns_def)
  show ?thesis
    unfolding emit_def Let_def sel n ring_push_event_with t_def [symmetric] w
    by (simp add: sel n ring_push_event_with w)
qed

lemma emit_warning_with: "emit_warning (with_conns cs s) cid code v msg now = with_conns cs (emit_warning s cid code v msg now)"
  by (simp add: emit_warning_def emit_with)

lemma wire_ring_push_with: "wire_ring_push (with_conns cs s) chunk = with_conns cs (wire_ring_push s chunk)"
proof -
  have m: "wire_make_room (with_conns cs s) = with_conns cs (wire_make_room s)"
    by (simp add: wire_make_room_def with_conns_def Let_def)
  define t where "t = wire_make_room s"
  define u where "u = t\<lparr>s_wire := ring_put (s_wire t) (if s_wire_lost_pending t then mark_lost chunk else chunk),
                s_wire_lost_pending := False\<rparr>"
  have eu: "(with_conns cs t)\<lparr>s_wire := ring_put (s_wire (with_conns cs t))
      (if s_wire_lost_pending (with_conns cs t) then mark_lost chunk else chunk), s_wire_lost_pending := False\<rparr> =
      with_conns cs u"
    by (simp add: with_conns_def u_def)
  have w: "(with_conns cs u)\<lparr>s_wire_drop_warned := k\<rparr> = with_conns cs (u\<lparr>s_wire_drop_warned := k\<rparr>)" for k
    by (simp add: with_conns_def)
  have sel: "s_wire_drop_warned (with_conns cs u) = s_wire_drop_warned u" "s_now_us (with_conns cs u) = s_now_us u"
    "s_dropped_wire (with_conns cs u) = s_dropped_wire u"
    by (simp_all add: with_conns_def)
  show ?thesis
    unfolding wire_ring_push_def Let_def m t_def [symmetric] eu u_def [symmetric] sel w emit_warning_with by simp
qed

lemma wire_push_loop_with:
  "wire_push_loop (with_conns cs s) cid direction data now redact extra_flags r off =
   with_conns cs (wire_push_loop s cid direction data now redact extra_flags r off)"
proof (induction s cid direction data now redact extra_flags r off rule: wire_push_loop.induct)
  case (1 s cid direction data now redact extra_flags r off)
  obtain chunk r1 where ch: "wire_chunk s cid direction data now redact extra_flags r off = (chunk, r1)"
    by fastforce
  then have ch': "wire_chunk (with_conns cs s) cid direction data now redact extra_flags r off = (chunk, r1)"
    by (simp add: wire_chunk_def with_conns_def)
  have sq: "(with_conns cs s)\<lparr>s_wire_sequence := s_wire_sequence (with_conns cs s) + 1\<rparr> =
      with_conns cs (s\<lparr>s_wire_sequence := s_wire_sequence s + 1\<rparr>)"
    by (simp add: with_conns_def)
  show ?case
    using 1 [OF ch [symmetric] refl refl]
    unfolding wire_push_loop.simps [of s] wire_push_loop.simps [of "with_conns cs s"] ch ch' prod.case Let_def sq
      wire_ring_push_with
    by simp
qed

lemma wire_push_bytes_with:
  "wire_push_bytes (with_conns cs s) cid direction data now redact extra_flags =
   with_conns cs (wire_push_bytes s cid direction data now redact extra_flags)"
proof -
  have "wire_on (with_conns cs s) = wire_on s" by (simp add: wire_on_def with_conns_def)
  then show ?thesis by (simp add: wire_push_bytes_def wire_push_loop_with)
qed

lemma wire_client_with: "wire_client (with_conns cs s) cid data now = with_conns cs (wire_client s cid data now)"
proof -
  have "wire_on (with_conns cs s) = wire_on s" "s_policy (with_conns cs s) = s_policy s"
    by (simp_all add: wire_on_def with_conns_def)
  then show ?thesis by (simp add: wire_client_def wire_push_bytes_with)
qed

lemma wire_meta_with: "wire_meta (with_conns cs s) ev = with_conns cs (wire_meta s ev)"
proof -
  have "wire_on (with_conns cs s) = wire_on s" "s_policy (with_conns cs s) = s_policy s"
    by (simp_all add: wire_on_def with_conns_def)
  then show ?thesis by (simp add: wire_meta_def wire_push_bytes_with Let_def split: prod.split)
qed

lemma queue_write_with:
  "queue_write (with_conns cs s) cid kind code message player =
   apsnd (with_conns cs) (queue_write s cid kind code message player)"
  by (simp add: queue_write_def write_ring_full_def with_conns_def Let_def split: prod.split)

section \<open>Appending to the pending bytes\<close>

lemma append_rx_with: "append_rx s i bs = with_conns ((s_conns s)[i := (conn s i)\<lparr>c_rx := c_rx (conn s i) @ bs\<rparr>]) s"
  by (simp add: append_rx_def upd_conn_def with_conns_def)

lemma append_rx_after:
  assumes "\<And>cs. op (with_conns cs s) = with_conns cs (op s)" "s_conns (op s) = s_conns s"
  shows "op (append_rx s i bs) = append_rx (op s) i bs"
  using assms by (simp add: append_rx_with conn_def)

lemma append_rx_sel [simp]:
  "c_info (conn (append_rx s i bs) k) = c_info (conn s k)" "s_policy (append_rx s i bs) = s_policy s"
  "s_message_sequence (append_rx s i bs) = s_message_sequence s" "s_writes (append_rx s i bs) = s_writes s"
  "c_idle_reported (conn (append_rx s i bs) k) = c_idle_reported (conn s k)"
  "s_event_sequence (append_rx s i bs) = s_event_sequence s"
  "s_max_message_bytes (append_rx s i bs) = s_max_message_bytes s"
  "length (s_conns (append_rx s i bs)) = length (s_conns s)"
  by (simp_all add: append_rx_def conn_upd_conn)

lemma append_rx_conn [simp]:
  "i < length (s_conns s) \<Longrightarrow> conn (append_rx s i bs) i = (conn s i)\<lparr>c_rx := c_rx (conn s i) @ bs\<rparr>"
  by (simp add: append_rx_def)

lemma append_rx_upd:
  assumes "\<And>c. f (c\<lparr>c_rx := c_rx c @ bs\<rparr>) = (f c)\<lparr>c_rx := c_rx (f c) @ bs\<rparr>"
  shows "upd_conn i f (append_rx s i bs) = append_rx (upd_conn i f s) i bs"
proof (cases "i < length (s_conns s)")
  case True
  then show ?thesis by (simp add: append_rx_def upd_conn_def conn_def assms)
qed (simp add: append_rx_def upd_conn_def list_update_beyond)

lemma append_rx_info:
  "upd_info i f (append_rx s i bs) = append_rx (upd_info i f s) i bs"
  unfolding upd_info_def by (rule append_rx_upd) simp

lemma append_rx_logs:
  "emit (append_rx s i bs) ev = append_rx (emit s ev) i bs"
  "wire_client (append_rx s i bs) cid data now = append_rx (wire_client s cid data now) i bs"
  "wire_meta (append_rx s i bs) ev = append_rx (wire_meta s ev) i bs"
  "emit_warning (append_rx s i bs) cid code v msg now = append_rx (emit_warning s cid code v msg now) i bs"
  by (rule append_rx_after; simp add: emit_with wire_client_with wire_meta_with emit_warning_with)+

lemma append_rx_queue:
  "snd (queue_write (append_rx s i bs) cid kind code message player) =
   append_rx (snd (queue_write s cid kind code message player)) i bs"
  by (rule append_rx_after; simp add: queue_write_with)

lemma append_rx_sequence:
  "(append_rx s i bs)\<lparr>s_message_sequence := n\<rparr> = append_rx (s\<lparr>s_message_sequence := n\<rparr>) i bs"
  by (simp add: append_rx_def upd_conn_def conn_def)

lemmas append_rx_ops = append_rx_info append_rx_logs append_rx_queue append_rx_sequence

section \<open>Delivery commutes with appending\<close>

lemma append_rx_note_active: "note_active (append_rx s i bs) k now = append_rx (note_active s k now) i bs" if "k = i"
proof -
  have "upd_conn i (\<lambda>c. c\<lparr>c_idle_reported := False\<rparr>) (append_rx s i bs) =
      append_rx (upd_conn i (\<lambda>c. c\<lparr>c_idle_reported := False\<rparr>) s) i bs"
    by (rule append_rx_upd) simp
  then show ?thesis by (simp add: note_active_def emit_simple_def append_rx_ops that)
qed

lemma append_rx_emit_connection:
  "emit_connection (append_rx s i bs) type k cause now = append_rx (emit_connection s type k cause now) i bs"
  by (simp add: emit_connection_def Let_def append_rx_ops)

lemma append_rx_note_identity: "note_identity (append_rx s i bs) i m now = append_rx (note_identity s i m now) i bs"
  by (simp add: note_identity_def append_rx_ops append_rx_emit_connection)

lemma append_rx_note_client_state:
  "note_client_state (append_rx s i bs) i m now = append_rx (note_client_state s i m now) i bs"
  by (simp add: note_client_state_def Let_def append_rx_ops)

lemma append_rx_reply_to: "reply_to (append_rx s i bs) i m = append_rx (reply_to s i m) i bs"
  by (simp add: reply_to_def append_rx_ops)

lemma append_rx_stamp: "stamp_message (append_rx s i bs) i m now = stamp_message s i m now"
  by (simp add: stamp_message_def)

lemma deliver_accepts: "fst (deliver_message s i json now) \<longleftrightarrow> (\<exists>m. gsp_message_decode json (length json) = Inr m)"
  by (simp add: deliver_message_def Let_def split: sum.split)

lemma append_rx_deliver:
  assumes "fst (deliver_message s i json now)"
  shows "snd (deliver_message (append_rx s i bs) i json now) = append_rx (snd (deliver_message s i json now)) i bs"
proof -
  obtain m where m: "gsp_message_decode json (length json) = Inr m"
    using assms deliver_accepts by blast
  show ?thesis
    by (simp add: deliver_message_def m Let_def append_rx_ops append_rx_stamp append_rx_reply_to append_rx_note_active
        append_rx_note_identity append_rx_note_client_state)
qed

section \<open>Framing commutes with appending\<close>

lemma append_rx_compact:
  assumes "c_scan (conn s i) \<le> length (c_rx (conn s i))"
  shows "upd_conn i compact (append_rx s i bs) = append_rx (upd_conn i compact s) i bs"
proof (cases "i < length (s_conns s)")
  case True
  have "compact (c\<lparr>c_rx := c_rx c @ bs\<rparr>) = (compact c)\<lparr>c_rx := c_rx (compact c) @ bs\<rparr>"
    if "c_scan c \<le> length (c_rx c)" for c
    using that by (cases c) (simp add: compact_def)
  then show ?thesis using assms True by (simp add: append_rx_def upd_conn_def conn_def)
qed (simp add: append_rx_def upd_conn_def list_update_beyond)

definition scanned :: "gsp_server \<Rightarrow> nat \<Rightarrow> bool" where
  "scanned s i \<longleftrightarrow> i < length (s_conns s) \<and> c_scan (conn s i) \<le> length (c_rx (conn s i))"

lemma scanned_same: "rx_sides t = rx_sides s \<Longrightarrow> scanned t i = scanned s i"
  using rx_sides_D [of t s] by (auto simp: scanned_def rx_side_def)

lemma scanned_compact: "scanned s i \<Longrightarrow> scanned (upd_conn i compact s) i"
  by (simp add: scanned_def compact_def)

lemma take_step_append:
  assumes "i < length (s_conns s)" "c_scan (conn s i) < length (c_rx (conn s i))"
  shows "case take_step s i now of
      Inr t \<Rightarrow> scanned t i \<and> take_step (append_rx s i bs) i now = Inr (append_rx t i bs)
    | Inl (st, d, t) \<Rightarrow> \<exists>u. take_step (append_rx s i bs) i now = Inl (st, d, u)"
proof -
  obtain f step where feed:
    "gs_framer_feed (c_framer (conn s i)) (c_rx (conn s i) ! c_scan (conn s i)) = (f, step)" by fastforce
  define s1 where "s1 = upd_conn i (\<lambda>c. c\<lparr>c_framer := f, c_scan := c_scan c + 1\<rparr>) s"
  define obj where "obj = take (c_scan (conn s1 i)) (c_rx (conn s1 i))"
  have s1: "scanned s1 i" using assms by (simp add: s1_def scanned_def)
  let ?s = "append_rx s i bs"
  have feed': "gs_framer_feed (c_framer (conn ?s i)) (c_rx (conn ?s i) ! c_scan (conn ?s i)) = (f, step)"
    using feed assms by (simp add: nth_append)
  have s1': "append_rx s1 i bs = upd_conn i (\<lambda>c. c\<lparr>c_framer := f, c_scan := c_scan c + 1\<rparr>) ?s"
    unfolding s1_def by (rule append_rx_upd [symmetric]) simp
  have obj': "obj = take (c_scan (conn (append_rx s1 i bs) i)) (c_rx (conn (append_rx s1 i bs) i))"
    using s1 by (simp add: obj_def scanned_def)
  have acc: "fst (deliver_message (append_rx s1 i bs) i obj now) = fst (deliver_message s1 i obj now)"
    by (simp add: deliver_accepts)
  have sc: "scanned (snd (deliver_message s1 i obj now)) i" using s1 scanned_same [OF rx_sides_deliver_message] by blast
  then have cmp: "upd_conn i compact (snd (deliver_message (append_rx s1 i bs) i obj now)) =
      append_rx (upd_conn i compact (snd (deliver_message s1 i obj now))) i bs"
    if "fst (deliver_message s1 i obj now)"
    using that by (simp add: append_rx_deliver append_rx_compact scanned_def)
  have mx: "s_max_message_bytes s < c_scan (conn (append_rx s1 i bs) i) \<longleftrightarrow> s_max_message_bytes s < c_scan (conn s1 i)"
    using s1 by (simp add: scanned_def)
  show ?thesis
    unfolding take_step_feed [OF feed s1_def obj_def] take_step_feed [OF feed' s1' obj']
    using s1 scanned_compact [OF sc] mx by (simp add: acc cmp)
qed

lemma frame_step_append:
  assumes "i < length (s_conns s)" "c_scan (conn s i) < length (c_rx (conn s i))"
  shows "case frame_step s i now of
      Inr t \<Rightarrow> scanned t i \<and> frame_step (append_rx s i bs) i now = Inr (append_rx t i bs)
    | Inl (st, d, t) \<Rightarrow> \<exists>u. frame_step (append_rx s i bs) i now = Inl (st, d, u)"
proof -
  let ?ws = "\<lambda>b. b = SPACE \<or> b = TAB \<or> b = LF \<or> b = CR"
  define b where "b = c_rx (conn s i) ! c_scan (conn s i)"
  define adv where "adv = upd_conn i (\<lambda>c. c\<lparr>c_scan := c_scan c + 1\<rparr>) s"
  have adv: "upd_conn i (\<lambda>c. c\<lparr>c_scan := c_scan c + 1\<rparr>) (append_rx s i bs) = append_rx adv i bs"
    unfolding adv_def by (rule append_rx_upd) simp
  have b': "c_rx (conn (append_rx s i bs) i) ! c_scan (conn (append_rx s i bs) i) = b"
    using assms by (simp add: b_def nth_append)
  have fs: "frame_step s i now =
      (if gs_framer_in_message (c_framer (conn s i)) then take_step s i now else if ?ws b then Inr adv
       else if write_ring_full s then Inl (GSP_ERR_QUEUE_FULL, False, upd_conn i compact s)
       else take_step (upd_conn i compact s) i now)"
    by (simp add: frame_step_def Let_def b_def adv_def)
  have fa: "frame_step (append_rx s i bs) i now =
      (if gs_framer_in_message (c_framer (conn s i)) then take_step (append_rx s i bs) i now
       else if ?ws b then Inr (append_rx adv i bs)
       else if write_ring_full s then Inl (GSP_ERR_QUEUE_FULL, False, append_rx (upd_conn i compact s) i bs)
       else take_step (append_rx (upd_conn i compact s) i bs) i now)"
    unfolding frame_step_def Let_def b' adv using assms by (simp add: append_rx_compact write_ring_full_def)
  have "c_scan (conn (upd_conn i compact s) i) < length (c_rx (conn (upd_conn i compact s) i))" "scanned adv i"
    using assms by (simp_all add: compact_def adv_def scanned_def)
  then show ?thesis
    unfolding fs fa using take_step_append [of i s bs now] take_step_append [of i "upd_conn i compact s" bs now] assms
    by simp
qed

text \<open>Outside an object the bytes already passed over carry nothing.\<close>

lemma compact_twice: "upd_conn i compact (upd_conn i compact s) = upd_conn i compact s"
  by (cases "i < length (s_conns s)") (simp_all add: upd_conn_def conn_def compact_def list_update_beyond)

lemma frame_pending_compact:
  assumes "scanned s i" "\<not> gs_framer_in_message (c_framer (conn s i))"
  shows "frame_pending (upd_conn i compact s) i now = frame_pending s i now"
  using assms
proof (induction "unseen s i" arbitrary: s rule: less_induct)
  case less
  let ?c = "upd_conn i compact s"
  have i: "i < length (s_conns s)" and c: "conn ?c i = compact (conn s i)"
    using less(2) by (simp_all add: scanned_def)
  show ?case
  proof (cases "c_scan (conn s i) < length (c_rx (conn s i))")
    case False
    then show ?thesis
      using less(2,3) i c by (simp add: frame_pending.simps [of s] frame_pending.simps [of ?c] compact_twice
          scanned_def) (simp add: compact_def)
  next
    case True
    define b where "b = c_rx (conn s i) ! c_scan (conn s i)"
    define adv where "adv u = upd_conn i (\<lambda>c. c\<lparr>c_scan := c_scan c + 1\<rparr>) u" for u
    have b': "c_rx (conn ?c i) ! c_scan (conn ?c i) = b" using True by (simp add: c b_def compact_def)
    have ring: "write_ring_full ?c = write_ring_full s" by (simp add: write_ring_full_def)
    have same: "upd_conn i compact (adv ?c) = upd_conn i compact (adv s)"
      using i by (simp add: adv_def upd_conn_def conn_def compact_def)
    have "frame_pending (adv ?c) i now = frame_pending (upd_conn i compact (adv s)) i now"
      using less(1) [of "adv ?c"] less(2,3) i True c same
      by (simp add: adv_def unseen_def scanned_def) (simp add: compact_def)
    also have "\<dots> = frame_pending (adv s) i now"
      using less(1) [of "adv s"] less(2,3) i True by (simp add: adv_def unseen_def scanned_def)
    finally have ws: "frame_pending (adv ?c) i now = frame_pending (adv s) i now" .
    have nm: "\<not> gs_framer_in_message (c_framer (conn ?c i))" using less(3) by (simp add: c) (simp add: compact_def)
    have fs: "frame_step s i now =
        (if b = SPACE \<or> b = TAB \<or> b = LF \<or> b = CR then Inr (adv s)
         else if write_ring_full s then Inl (GSP_ERR_QUEUE_FULL, False, ?c) else take_step ?c i now)"
      using less(3) by (simp add: frame_step_def Let_def b_def adv_def)
    have fc: "frame_step ?c i now =
        (if b = SPACE \<or> b = TAB \<or> b = LF \<or> b = CR then Inr (adv ?c)
         else if write_ring_full s then Inl (GSP_ERR_QUEUE_FULL, False, ?c) else take_step ?c i now)"
      using nm unfolding frame_step_def Let_def b' by (simp add: adv_def ring compact_twice)
    have g: "c_scan (conn ?c i) < length (c_rx (conn ?c i))" using True by (simp add: c) (simp add: compact_def)
    show ?thesis
      using i True g ws by (simp add: frame_pending.simps [of s] frame_pending.simps [of ?c] fs fc)
  qed
qed

section \<open>Resuming a pass\<close>

lemma frame_pending_append:
  assumes "scanned s i" "frame_pending s i now = (st, d, t)"
  shows "if st = GSP_OK \<and> \<not> d
    then frame_pending (append_rx s i bs) i now = frame_pending (append_rx t i bs) i now
    else \<exists>u. frame_pending (append_rx s i bs) i now = (st, d, u)"
  using assms
proof (induction s i now rule: frame_pending.induct)
  case (1 s i now)
  from 1(3) show ?case
  proof (cases rule: frame_pending_cases)
    case (turn u)
    with frame_step_append [OF turn(1,2), where now = now and bs = bs]
    have "scanned u i" "frame_step (append_rx s i bs) i now = Inr (append_rx u i bs)" by simp_all
    then have "frame_pending (append_rx s i bs) i now = frame_pending (append_rx u i bs) i now"
      using turn by (simp add: frame_pending.simps [of "append_rx s i bs"])
    then show ?thesis using 1(1) [OF _ turn(3) \<open>scanned u i\<close> turn(4)] turn by (simp split: if_splits)
  next
    case return
    then have nok: "\<not> (st = GSP_OK \<and> \<not> d)"
      using frame_step_status [OF return(3)] by auto
    from frame_step_append [OF return(1,2), where now = now and bs = bs] return(3)
    obtain u where "frame_step (append_rx s i bs) i now = Inl (st, d, u)" by auto
    then have "frame_pending (append_rx s i bs) i now = (st, d, u)"
      using return by (simp add: frame_pending.simps [of "append_rx s i bs"])
    then show ?thesis using nok by auto
  next
    case rest
    then show ?thesis
      using 1(2) frame_pending_compact [of "append_rx s i bs" i now]
      by (auto simp: append_rx_compact scanned_def)
  qed
qed

text \<open>
  Who owns which slot and when its next write may leave, whether the server is closed, and its
  clock: no read changes them.
\<close>

definition owner :: "gs_conn \<Rightarrow> bool \<times> gsp_conn_id \<times> gsp_time_us" where
  "owner c = (c_used c, ci_conn (c_info c), c_next_write_us c)"

definition owners :: "gsp_server \<Rightarrow> (bool \<times> gsp_conn_id \<times> gsp_time_us) list \<times> bool \<times> gsp_time_us" where
  "owners s = (map owner (s_conns s), s_closed s, s_now_us s)"

lemma owners_upd:
  assumes "\<And>c. c_used (f c) = c_used c \<and> ci_conn (c_info (f c)) = ci_conn (c_info c) \<and>
    c_next_write_us (f c) = c_next_write_us c"
  shows "owners (upd_conn i f s) = owners s"
proof (cases "i < length (s_conns s)")
  case True
  then show ?thesis by (simp add: owners_def owner_def upd_conn_def map_update assms conn_def list_update_same_conv)
qed (simp add: owners_def upd_conn_def list_update_beyond)

interpretation owned: server_steps "\<lambda>s t. owners t = owners s"
proof unfold_locales
  fix s cid kind code message player
  show "owners (snd (queue_write s cid kind code message player)) = owners s"
    by (simp add: owners_def queue_write_def Let_def split: prod.split)
next
  fix f :: "gs_conn \<Rightarrow> gs_conn" and i s
  assume "\<And>c. rx_side (f c) = rx_side c \<and> c_next_write_us (f c) = c_next_write_us c"
  then show "owners (upd_conn i f s) = owners s" by (intro owners_upd) (simp add: rx_side_def)
next
  fix f :: "gs_conn \<Rightarrow> gs_conn" and i s
  assume "\<And>c. c_used (f c) = c_used c \<and> ci_conn (c_info (f c)) = ci_conn (c_info c) \<and>
    c_next_write_us (f c) = c_next_write_us c"
  then show "owners (upd_conn i f s) = owners s" by (rule owners_upd)
qed (simp_all add: owners_def)

lemma owners_slot:
  assumes "owners t = owners s"
  shows "length (s_conns t) = length (s_conns s)" "k < length (s_conns s) \<Longrightarrow> owner (conn t k) = owner (conn s k)"
proof -
  have m: "map owner (s_conns t) = map owner (s_conns s)" using assms by (simp add: owners_def)
  from arg_cong [OF this, of length] show len: "length (s_conns t) = length (s_conns s)" by simp
  show "owner (conn t k) = owner (conn s k)" if "k < length (s_conns s)"
    using arg_cong [OF m, of "\<lambda>xs. xs ! k"] that len by (simp add: conn_def)
qed

lemma owners_find:
  assumes "owners t = owners s"
  shows "find_conn t cid = find_conn s cid" "s_closed t = s_closed s" "s_now_us t = s_now_us s"
proof -
  show "find_conn t cid = find_conn s cid"
    unfolding find_conn_def slots_def owners_slot(1) [OF assms]
    by (intro find_cong) (use owners_slot(2) [OF assms] in \<open>auto simp: owner_def\<close>)
qed (use assms in \<open>simp_all add: owners_def\<close>)

section \<open>One read or many\<close>

lemma append_rx_again: "append_rx (append_rx s i a) i b = append_rx s i (a @ b)"
  by (cases "i < length (s_conns s)") (simp_all add: append_rx_def upd_conn_def conn_def list_update_beyond)

lemma frame_pending_resume:
  assumes "scanned s i" "frame_pending (append_rx s i (a @ b)) i now = (GSP_OK, False, t)"
  obtains u where "frame_pending (append_rx s i a) i now = (GSP_OK, False, u)"
    "frame_pending (append_rx u i b) i now = (GSP_OK, False, t)"
proof -
  obtain st d u where u: "frame_pending (append_rx s i a) i now = (st, d, u)" by (metis prod_cases3)
  have "scanned (append_rx s i a) i" using assms(1) by (simp add: scanned_def)
  from frame_pending_append [OF this u, of b] assms(2) u that show ?thesis
    by (auto simp: append_rx_again split: if_splits)
qed

lemma on_bytes_loop_whole:
  assumes "conn_quiet s i" "live s i" "s_rx_capacity s = s_max_message_bytes s + 1"
    "length (c_rx (conn s i)) \<le> s_max_message_bytes s" "pos \<le> length data"
    "frame_pending (append_rx s i (drop pos data)) i now = (GSP_OK, False, t)"
  shows "on_bytes_loop s i data pos now = (GSP_OK, length data, t) \<and> conn_quiet t i \<and>
    length (c_rx (conn t i)) \<le> s_max_message_bytes t"
  using assms
proof (induction s i data pos now rule: on_bytes_loop.induct)
  case (1 s i data pos now)
  define taken where "taken = room_taken s i data pos"
  define s1 where "s1 = append_rx s i (take taken (drop pos data))"
  have parts: "drop pos data = take taken (drop pos data) @ drop (pos + taken) data"
    by (metis append_take_drop_id drop_drop add.commute)
  have sc: "scanned s i" using 1(3,4) by (auto simp: scanned_def live_def conn_quiet_def rx_quiet_def rx_loop_ok_def)
  obtain u where u: "frame_pending s1 i now = (GSP_OK, False, u)"
    "frame_pending (append_rx u i (drop (pos + taken) data)) i now = (GSP_OK, False, t)"
    using frame_pending_resume [OF sc] 1(8) parts unfolding s1_def by metis
  have tk: "taken \<le> length data - pos" "length (c_rx (conn s i)) + taken \<le> s_max_message_bytes s + 1"
    "pos < length data \<longrightarrow> 0 < taken"
    using 1(5,6) by (auto simp: taken_def room_taken_def)
  have s1: "conn_loop_ok s1 i" "live s1 i" "static s1 = static s"
    using append_rx_loop_ok [OF 1(3,4)] 1(4) tk by (simp_all add: s1_def)
  have uu: "live u i" "static u = static s" "conn_quiet u i" "length (c_rx (conn u i)) \<le> s_max_message_bytes u"
    using fixed.then_frame_pending [of s1 s1 i now] s1 u frame_pending_rx [OF s1(1,2) u(1)] by simp_all
  then have "s_rx_capacity u = Suc (s_max_message_bytes u)" using 1(5) by (simp add: static_def)
  note IH = 1(2) [OF taken_def, unfolded s1_def [symmetric], OF u(1) [symmetric] refl, simplified,
      OF _ uu(3,1) this uu(4) _ u(2)]
  have loop: "on_bytes_loop s i data pos now =
      (if length data \<le> pos + taken \<or> taken = 0 then (GSP_OK, pos + taken, u)
       else on_bytes_loop u i data (pos + taken) now)"
    by (simp add: on_bytes_loop.simps [of s] taken_def [symmetric] s1_def [symmetric] u Let_def)
  show ?case
  proof (cases "length data \<le> pos + taken \<or> taken = 0")
    case True
    then have e: "pos + taken = length data" using tk 1(7) by auto
    then have "s1 = append_rx s i (drop pos data)" by (simp add: s1_def)
    then show ?thesis using u(1) 1(8) True e loop uu by simp
  next
    case False
    then show ?thesis using loop IH tk by simp
  qed
qed

text \<open>A slot that can take another read: open, between two calls, with room in its buffer.\<close>

definition reading :: "gsp_server \<Rightarrow> gsp_conn_id \<Rightarrow> nat \<Rightarrow> bool" where
  "reading s cid i \<longleftrightarrow> \<not> s_closed s \<and> find_conn s cid = Some i \<and> conn_quiet s i \<and>
     s_rx_capacity s = s_max_message_bytes s + 1 \<and> length (c_rx (conn s i)) \<le> s_max_message_bytes s"

lemma reading_clock: "reading (s\<lparr>s_now_us := now\<rparr>) cid i = reading s cid i"
  by (simp add: reading_def find_conn_def slots_def conn_quiet_def conn_def)

lemma reading_live: "reading s cid i \<Longrightarrow> live s i"
  using find_conn_live [of s cid i] by (simp add: reading_def)

lemma on_bytes_whole:
  assumes "reading s cid i" "frame_pending (append_rx (s\<lparr>s_now_us := now\<rparr>) i data) i now = (GSP_OK, False, t)"
  shows "gsp_server_on_bytes s cid data now = (GSP_OK, t)" "reading t cid i" "s_now_us t = now"
proof -
  let ?s = "s\<lparr>s_now_us := now\<rparr>"
  have r: "reading ?s cid i" using assms(1) by (simp add: reading_clock)
  note live = reading_live [OF r]
  with r assms(2) have loop: "on_bytes_loop ?s i data 0 now = (GSP_OK, length data, t) \<and> conn_quiet t i \<and>
      length (c_rx (conn t i)) \<le> s_max_message_bytes t"
    by (intro on_bytes_loop_whole) (simp_all add: reading_def)
  then show "gsp_server_on_bytes s cid data now = (GSP_OK, t)"
    using assms(1) by (simp add: gsp_server_on_bytes_def reading_def)
  have "owners (append_rx ?s i data) = owners ?s" unfolding append_rx_def by (rule owners_upd) simp
  then have ow: "owners t = owners ?s" and st: "static t = static ?s"
    using owned.then_frame_pending [of "append_rx ?s i data" ?s i now]
      fixed.then_frame_pending [of "append_rx ?s i data" ?s i now] live assms(2) by simp_all
  show "s_now_us t = now" using owners_find(3) [OF ow] by simp
  show "reading t cid i"
    using r loop owners_find(1,2) [OF ow] st by (simp add: reading_def static_def)
qed

primrec reads :: "gsp_conn_id \<Rightarrow> gsp_time_us \<Rightarrow> bytes list \<Rightarrow> gsp_server \<Rightarrow> gsp_status \<times> gsp_server" where
  "reads cid now [] s = (GSP_OK, s)"
| "reads cid now (d # ds) s =
     (case gsp_server_on_bytes s cid d now of (st, s) \<Rightarrow> if st = GSP_OK then reads cid now ds s else (st, s))"

lemma reads_whole:
  assumes "reading s cid i" "ds \<noteq> []"
    "frame_pending (append_rx (s\<lparr>s_now_us := now\<rparr>) i (concat ds)) i now = (GSP_OK, False, t)"
  shows "reads cid now ds s = (GSP_OK, t)"
  using assms
proof (induction ds arbitrary: s)
  case (Cons d ds)
  let ?s = "s\<lparr>s_now_us := now\<rparr>"
  have "scanned ?s i"
    using Cons(2) reading_live [OF Cons(2)]
    by (auto simp: scanned_def live_def reading_def conn_quiet_def rx_quiet_def rx_loop_ok_def conn_def)
  then obtain u where u: "frame_pending (append_rx ?s i d) i now = (GSP_OK, False, u)"
    "frame_pending (append_rx u i (concat ds)) i now = (GSP_OK, False, t)"
    using frame_pending_resume [of ?s i d "concat ds"] Cons(4) by auto
  note one = on_bytes_whole [OF Cons(2) u(1)]
  from one(3) have clock: "u\<lparr>s_now_us := now\<rparr> = u" by simp
  show ?case
  proof (cases "ds = []")
    case True
    then show ?thesis using one(1) u Cons(4) by simp
  next
    case False
    then show ?thesis using Cons(1) [OF one(2)] one(1) u(2) clock by simp
  qed
qed simp

text \<open>
  C3. How a byte stream is cut into reads does not matter: when one pass of the framer over
  everything a connection sent is neither refused for want of a write slot nor ended by a
  protocol error, \<^verbatim>\<open>gsp_server_on_bytes\<close> given the whole stream at once, or the same
  bytes in any pieces one call after the other (pieces that split an object, a string or an
  escape, empty pieces, pieces larger than the receive buffer), returns \<^verbatim>\<open>GSP_OK\<close>
  each time and leaves the server in the same state, down to every event, reply and wire record.
\<close>

theorem on_bytes_chunking:
  assumes "reachable s evs cs" "\<not> s_closed s" "find_conn s cid = Some i"
    "length (c_rx (conn s i)) \<le> s_max_message_bytes s" "ds \<noteq> []"
    "frame_pending (append_rx (s\<lparr>s_now_us := now\<rparr>) i (concat ds)) i now = (GSP_OK, False, t)"
  shows "gsp_server_on_bytes s cid (concat ds) now = (GSP_OK, t) \<and> reads cid now ds s = (GSP_OK, t)"
proof -
  have "live s i" "rx_inv s"
    using find_conn_live [OF assms(3)] reachable_account [OF assms(1)] by (simp_all add: server_inv_def)
  then have "reading s cid i" using assms(2,3,4) by (simp add: reading_def rx_inv_def live_def)
  then show ?thesis using on_bytes_whole(1) [OF _ assms(6)] reads_whole [OF _ assms(5,6)] by simp
qed

theorem on_bytes_chunking_witness:
  "gsp_server_on_bytes demo_open 7 ''{ }'' 6 = reads 7 6 [''{'', '''', '' }''] demo_open \<and>
   fst (reads 7 6 [''{'', '''', '' }''] demo_open) = GSP_OK"
proof -
  define r where "r = frame_pending (append_rx (demo_open\<lparr>s_now_us := 6\<rparr>) 0 ''{ }'') 0 6"
  have "fst r = GSP_OK" "fst (snd r) = False" unfolding r_def by code_simp+
  then have r: "r = (GSP_OK, False, snd (snd r))" by (metis prod.collapse)
  have "\<not> s_closed demo_open" "find_conn demo_open 7 = Some 0"
    "length (c_rx (conn demo_open 0)) \<le> s_max_message_bytes demo_open" by code_simp+
  from on_bytes_chunking [OF demo_open_reachable this, of "[''{'', '''', '' }'']" 6 "snd (snd r)"] r
  show ?thesis by (simp add: r_def)
qed

end
