(* ===== verification/ReplayEnds.thy ===== *)
theory ReplayEnds
  imports ReplayReport ServerChunk
begin

text \<open>
  Whether a replay ends. The loop that feeds a full server again ends when every write the server
  holds may leave, because each turn then takes at least one object out of the buffer; it never
  ends when the writes in a full ring are held back, because nothing in the loop moves the clock.
\<close>

section \<open>A full ring: progress\<close>

lemma take_step_full: "take_step s i now = Inl (st, d, t) \<Longrightarrow> i < length (s_conns s) \<Longrightarrow> st = GSP_OK"
  using take_step_Inl by blast

lemma frame_step_full:
  assumes "frame_step s i now = Inl (GSP_ERR_QUEUE_FULL, d, t)" "i < length (s_conns s)"
  shows "write_ring_full s \<and> t = upd_conn i compact s"
  using assms take_step_full [of s i now] take_step_full [of "upd_conn i compact s" i now]
  by (auto simp: frame_step_def Let_def split: if_splits)

lemma frame_pending_full:
  assumes "frame_pending s i now = (GSP_ERR_QUEUE_FULL, d, t)"
  shows "length (c_rx (conn t i)) \<le> unseen s i"
  using assms
proof (induction s i now rule: frame_pending.induct)
  case (1 s i now)
  from 1(2) show ?case
  proof (cases rule: frame_pending_cases)
    case (turn u)
    with 1(1) [OF _ turn(3,4)] frame_step_unseen [OF turn(3,1,2)] show ?thesis by simp
  next
    case return
    with frame_step_full [OF return(3,1)] show ?thesis by (simp add: compact_def unseen_def)
  qed simp
qed

lemma frame_pending_progress:
  assumes "frame_pending s i now = (GSP_ERR_QUEUE_FULL, d, t)" "\<not> write_ring_full s"
  shows "length (c_rx (conn t i)) < length (c_rx (conn s i))"
  using assms(1)
proof (cases rule: frame_pending_cases)
  case (turn u)
  have "length (c_rx (conn t i)) \<le> unseen u i" by (rule frame_pending_full [OF turn(4)])
  also have "\<dots> < unseen s i" by (rule frame_step_unseen [OF turn(3,1,2)])
  also have "\<dots> \<le> length (c_rx (conn s i))" by (simp add: unseen_def)
  finally show ?thesis .
next
  case return
  with frame_step_full [OF return(3,1)] assms(2) show ?thesis by simp
qed simp

lemma append_rx_Nil: "append_rx s i [] = s"
  by (cases "i < length (s_conns s)") (simp_all add: append_rx_def upd_conn_def conn_def list_update_beyond)

text \<open>A call with no bytes: only what is pending is looked at.\<close>

lemma on_bytes_loop_Nil:
  assumes "on_bytes_loop s i [] 0 now = (GSP_ERR_QUEUE_FULL, pos, t)"
  shows "\<exists>d. frame_pending s i now = (GSP_ERR_QUEUE_FULL, d, t)"
proof -
  obtain st d u where fp: "frame_pending s i now = (st, d, u)" by (metis prod_cases3)
  have loop: "on_bytes_loop s i [] 0 now = (if d then on_bytes_loop u i [] 0 now else (st, 0, u))"
    by (simp add: on_bytes_loop.simps [of s i "[]" 0] room_taken_def append_rx_Nil fp)
  show ?thesis
  proof (cases d)
    case True
    with fp have u: "c_rx (conn u i) = []" using frame_pending_discarded [of s i now st u] by simp
    obtain st2 d2 u2 where fu: "frame_pending u i now = (st2, d2, u2)" by (metis prod_cases3)
    from fu have "st2 = GSP_OK" "\<not> d2" using u by (auto simp: frame_pending.simps [of u] split: if_splits)
    then have "on_bytes_loop u i [] 0 now = (GSP_OK, 0, u2)"
      by (simp add: on_bytes_loop.simps [of u i "[]" 0] room_taken_def append_rx_Nil fu)
    with assms loop True show ?thesis by simp
  qed (use assms loop fp in auto)
qed

lemma on_bytes_again_progress:
  assumes "gsp_server_on_bytes s cid [] now = (GSP_ERR_QUEUE_FULL, t)" "\<not> write_ring_full s" "find_conn s cid = Some i"
  shows "length (c_rx (conn t i)) < length (c_rx (conn s i))"
proof -
  let ?s = "s\<lparr>s_now_us := now\<rparr>"
  obtain st pos u where l: "on_bytes_loop ?s i [] 0 now = (st, pos, u)" by (metis prod_cases3)
  from assms(1,3) l have q: "st = GSP_ERR_QUEUE_FULL" and t: "t = retain_or_drop u i cid [] now"
    by (auto simp: gsp_server_on_bytes_def split: if_splits)
  from on_bytes_loop_Nil l q obtain d where "frame_pending ?s i now = (GSP_ERR_QUEUE_FULL, d, u)" by blast
  from frame_pending_progress [OF this] assms(2) have "length (c_rx (conn u i)) < length (c_rx (conn ?s i))"
    by (simp add: write_ring_full_def)
  moreover have "conn t = conn u" by (simp add: t retain_or_drop_def append_rx_Nil Let_def fun_eq_iff conn_def)
  ultimately show ?thesis by (simp add: conn_def)
qed

section \<open>No write held back\<close>

text \<open>
  A server with no spacing, in which every open connection may be written to at the server's time.
  \<open>ready now s\<close> adds that the server's clock has not passed \<open>now\<close>.
\<close>

definition punctual :: "gsp_server \<Rightarrow> bool" where
  "punctual s \<longleftrightarrow> write_spacing_us (s_policy s) \<le> 0 \<and> (\<forall>k. live s k \<longrightarrow> c_next_write_us (conn s k) \<le> s_now_us s)"

definition ready :: "gsp_time_us \<Rightarrow> gsp_server \<Rightarrow> bool" where
  "ready now s \<longleftrightarrow> server_inv s \<and> punctual s \<and> s_now_us s \<le> now"

lemma punctual_held: "punctual s \<Longrightarrow> \<not> held_back s cid"
  by (cases "find_conn s cid") (auto simp: held_back_def punctual_def not_less dest: find_conn_live)

lemma owners_punctual:
  assumes "owners t = owners s" "s_policy t = s_policy s"
  shows "punctual t = punctual s"
proof -
  have "live t k = live s k \<and> (live s k \<longrightarrow> c_next_write_us (conn t k) = c_next_write_us (conn s k))" for k
    using owners_slot [OF assms(1)] by (auto simp: live_def owner_def)
  then show ?thesis using owners_find(3) [OF assms(1)] assms(2) by (auto simp: punctual_def)
qed

lemma owners_release:
  assumes "write_spacing_us (s_policy s) \<le> 0"
  shows "owners (release_write s i) = owners s \<and> s_policy (release_write s i) = s_policy s"
  using assms by (simp add: release_write_def Let_def owners_def space_writes_def split: option.split)

lemma owners_poll_writes:
  "write_spacing_us (s_policy s) \<le> 0 \<Longrightarrow> owners (snd (poll_writes_loop s i left)) = owners s"
proof (induction s i left rule: poll_writes_loop.induct)
  case (1 s i left)
  show ?case
  proof (cases "i < rg_count (s_writes s) \<and> 0 < left")
    case True
    with 1(1) [OF True refl] 1(2) [OF True refl] 1(3) owners_release [OF 1(3), of i] show ?thesis
      by (simp add: poll_writes_loop.simps [of s i left] Let_def case_prod_beta)
  next
    case False
    then show ?thesis by (auto simp: poll_writes_loop.simps [of s i left])
  qed
qed

lemma ready_poll_writes:
  assumes "ready now s" "gsp_server_poll_writes s n = (ws, t)"
  shows "ready now t" "owners t = owners s" "rx_sides t = rx_sides s"
proof -
  have t: "t = snd (poll_writes_loop s 0 n)" "t = call_state (Poll_writes n) s"
    using assms(2) by (simp_all add: gsp_server_poll_writes_def)
  show o: "owners t = owners s" using assms(1) owners_poll_writes [of s 0 n] t by (simp add: ready_def punctual_def)
  have "static t = static s" using fixed.call_ok [of "Poll_writes n" s] t(2) by simp
  then have "punctual t" using assms(1) owners_punctual [OF o] by (simp add: ready_def static_def)
  moreover have "server_inv t" using call_inv [of s "Poll_writes n"] assms(1) t(2) by (simp add: ready_def)
  ultimately show "ready now t" using assms(1) owners_find(3) [OF o] by (simp add: ready_def)
  show "rx_sides t = rx_sides s" using rxs.poll_writes_ok [of s 0 n] t(1) by simp
qed

lemma ready_poll_events:
  assumes "ready now s" "gsp_server_poll_events s n = (evs, t)"
  shows "ready now t" "owners t = owners s" "rx_sides t = rx_sides s" "s_writes t = s_writes s"
proof -
  note other = poll_events_other [OF assms(2)]
  show o: "owners t = owners s"
    using assms(2) by (auto simp: gsp_server_poll_events_def owners_def split: if_splits prod.splits)
  have inv: "server_inv s" "log_inv s" using assms(1) by (simp_all add: ready_def server_inv_def)
  have "server_inv t" by (rule inv_same_sides [OF inv(1) log_inv_poll_events(1) [OF inv(2) assms(2)] other])
  moreover have "punctual t" using assms(1) owners_punctual [OF o] other(3) by (simp add: ready_def static_def)
  ultimately show "ready now t" using assms(1) owners_find(3) [OF o] by (simp add: ready_def)
  show "rx_sides t = rx_sides s" "s_writes t = s_writes s" using other by (simp_all add: rx_sides_def)
qed

section \<open>Draining\<close>

lemma ready_drain_writes:
  assumes "ready now s" "drain_writes s y = (t, z)"
  shows "ready now t \<and> owners t = owners s \<and> rx_sides t = rx_sides s \<and> rg_count (s_writes t) = 0"
  using assms
proof (induction s y rule: drain_writes.induct)
  case (1 s y)
  obtain ws u where p: "gsp_server_poll_writes s 8 = (ws, u)" by fastforce
  note u = ready_poll_writes [OF 1(2) p]
  show ?case
  proof (cases "ws = []")
    case False
    with 1(1) [OF p [symmetric] False u(1)] 1(3) p u show ?thesis by (simp add: drain_writes.simps [of s])
  next
    case True
    then have t: "t = u" using 1(3) p by (simp add: drain_writes.simps [of s])
    have "ring_ok (s_writes s)" using 1(2) by (simp add: ready_def server_inv_def out_inv_def)
    from poll_writes_loop_order [OF this, of 0 8 ws u 0] p True
    have "\<forall>w \<in> set (ring_items (s_writes u)). held_back u (w_conn w)" by (simp add: gsp_server_poll_writes_def)
    then have "ring_items (s_writes u) = []"
      using punctual_held [of u] u(1) by (cases "ring_items (s_writes u)") (simp_all add: ready_def)
    then show ?thesis using u t ring_items_length [of "s_writes u"] by simp
  qed
qed

lemma ready_drain_events:
  assumes "ready now s" "drain_events s rep = (t, rep')"
  shows "ready now t \<and> owners t = owners s \<and> rx_sides t = rx_sides s \<and> s_writes t = s_writes s"
  using assms
proof (induction s rep rule: drain_events.induct)
  case (1 s rep)
  obtain evs u where p: "gsp_server_poll_events s 16 = (evs, u)" by fastforce
  note u = ready_poll_events [OF 1(2) p]
  show ?case
  proof (cases "evs = []")
    case False
    with 1(1) [OF p [symmetric] False u(1)] 1(3) p u show ?thesis by (simp add: drain_events.simps [of s])
  next
    case True
    then show ?thesis using 1(3) p u by (simp add: drain_events.simps [of s])
  qed
qed

lemma ready_drain:
  assumes "ready now s" "replay_drain (s, y) = (t, z)"
  shows "ready now t" "owners t = owners s" "rx_sides t = rx_sides s" "\<not> write_ring_full t"
proof -
  obtain u st rep where w: "drain_writes s y = (u, st, rep)" by (metis prod_cases3)
  obtain v rep' where e: "drain_events u rep = (v, rep')" by fastforce
  have t: "t = v" using assms(2) by (simp add: replay_drain_def w e)
  note W = ready_drain_writes [OF assms(1) w]
  with ready_drain_events [OF _ e, of now] have E: "ready now v" "owners v = owners u" "rx_sides v = rx_sides u" "s_writes v = s_writes u"
    by simp_all
  show "ready now t" "owners t = owners s" "rx_sides t = rx_sides s" using t W E by simp_all
  have "ring_ok (s_writes t)" using E(1) t by (simp add: ready_def server_inv_def out_inv_def)
  then show "\<not> write_ring_full t" using t W E(4) by (simp add: write_ring_full_def ring_ok_def)
qed

section \<open>Calls at a later time\<close>

lemma owners_clock: "owners (s\<lparr>s_now_us := now\<rparr>) = (fst (owners s), fst (snd (owners s)), now)"
  by (simp add: owners_def)

lemma owners_on_bytes:
  "owners (snd (gsp_server_on_bytes s cid data now)) =
   (if s_closed s \<or> find_conn s cid = None then owners s else owners (s\<lparr>s_now_us := now\<rparr>))"
proof (cases "s_closed s \<or> find_conn s cid = None")
  case False
  then obtain i where i: "find_conn s cid = Some i" by auto
  let ?s = "s\<lparr>s_now_us := now\<rparr>"
  have l: "live ?s i" using find_conn_live [OF i] by simp
  from owned.then_on_bytes_loop [of ?s ?s i data 0 now] l False i show ?thesis
    by (simp add: gsp_server_on_bytes_def case_prod_beta owned.then_retain_or_drop)
qed (auto simp: gsp_server_on_bytes_def)

lemma punctual_later: "punctual s \<Longrightarrow> s_now_us s \<le> now \<Longrightarrow> punctual (s\<lparr>s_now_us := now\<rparr>)"
  by (fastforce simp: punctual_def conn_def live_def)

lemma ready_on_bytes:
  assumes "ready now s" "gsp_server_on_bytes s cid data now = (st, t)"
  shows "ready now t" "find_conn t d = find_conn s d"
proof -
  have t: "t = call_state (On_bytes cid data now) s" "t = snd (gsp_server_on_bytes s cid data now)" using assms(2) by simp_all
  have "static t = static s" using fixed.call_ok [of "On_bytes cid data now" s] t(1) by simp
  then have pol: "s_policy t = s_policy s" by (simp add: static_def)
  have inv: "server_inv t" using call_inv [of s "On_bytes cid data now"] assms(1) t(1) by (simp add: ready_def)
  have fc: "find_conn (s\<lparr>s_now_us := now\<rparr>) d = find_conn s d" by (simp add: find_conn_def slots_def)
  consider "owners t = owners s" | "owners t = owners (s\<lparr>s_now_us := now\<rparr>)"
    using owners_on_bytes [of s cid data now] t(2) by metis
  then show "ready now t" "find_conn t d = find_conn s d"
  proof (atomize (full), cases)
    case 1
    then show "ready now t \<and> find_conn t d = find_conn s d"
      using inv owners_punctual [OF 1 pol] owners_find [OF 1] assms(1) by (simp add: ready_def)
  next
    case 2
    then show "ready now t \<and> find_conn t d = find_conn s d"
      using inv owners_punctual [OF 2] pol owners_find [OF 2] assms(1) punctual_later [of s now] fc
      by (simp add: ready_def)
  qed
qed

section \<open>The loop ends\<close>

lemma feed_ends:
  assumes "ready now s" "fed = GSP_ERR_QUEUE_FULL \<longrightarrow> find_conn s cid = Some i"
  shows "\<exists>t z. feed_again cid now fed (s, y) = Some (t, z) \<and> ready now t"
  using assms
proof (induction "length (c_rx (conn s i))" arbitrary: s y fed rule: less_induct)
  case less
  show ?case
  proof (cases "fed = GSP_ERR_QUEUE_FULL")
    case False
    then show ?thesis using less(2) by (simp add: feed_again.simps [of cid now fed])
  next
    case True
    with less(3) have i: "find_conn s cid = Some i" by simp
    obtain u z where d: "replay_drain (s, y) = (u, z)" by (rule prod.exhaust)
    obtain fed' t where b: "gsp_server_on_bytes u cid [] now = (fed', t)" by fastforce
    note u = ready_drain [OF less(2) d]
    note t = ready_on_bytes [OF u(1) b]
    have iu: "find_conn u cid = Some i" using owners_find(1) [OF u(2)] i by simp
    have "live s i" using find_conn_live [OF i] by simp
    then have "c_rx (conn u i) = c_rx (conn s i)"
      using rx_sides_D(2) [OF u(3), of i] by (simp add: live_def rx_side_def)
    then have less: "fed' = GSP_ERR_QUEUE_FULL \<Longrightarrow> length (c_rx (conn t i)) < length (c_rx (conn s i))"
      using on_bytes_again_progress [OF _ u(4) iu] b by simp
    have "\<exists>v x. feed_again cid now fed' (t, z) = Some (v, x) \<and> ready now v"
    proof (cases "fed' = GSP_ERR_QUEUE_FULL")
      case True
      show ?thesis using less.hyps [OF less [OF True] t(1)] t(2) iu by simp
    qed (use t(1) in \<open>simp add: feed_again.simps [of cid now fed']\<close>)
    moreover have "feed_again cid now fed (s, y) = feed_again cid now fed' (t, z)"
      by (subst feed_again.simps) (simp add: True d b)
    ultimately show ?thesis by simp
  qed
qed

lemma ready_opened:
  assumes "ready now s" "gsp_server_on_connection_opened s cid peer now = (st, t)"
  shows "ready now t"
proof -
  have t: "t = call_state (On_opened cid peer now) s" using assms(2) by simp
  have "static t = static s" using fixed.call_ok [of "On_opened cid peer now" s] t by simp
  then have pol: "s_policy t = s_policy s" by (simp add: static_def)
  have inv: "server_inv t" using call_inv [of s "On_opened cid peer now"] assms(1) t by (simp add: ready_def)
  consider "t = s" | i where "i < length (s_conns s)"
      "t = greet (upd_conn i (\<lambda>c. open_slot cid peer now) (s\<lparr>s_now_us := now\<rparr>)) i now"
  proof (cases "find (\<lambda>i. \<not> c_used (conn s i)) (slots s)")
    case None
    then show ?thesis using that(1) assms(2) by (simp add: gsp_server_on_connection_opened_def split: if_splits)
  next
    case (Some i)
    then have "i < length (s_conns s)" using find_SomeD [OF Some] by (simp add: slots_def)
    then show ?thesis
      using that(1) that(2) [of i] assms(2) Some by (simp add: gsp_server_on_connection_opened_def split: if_splits)
  qed
  then show ?thesis
  proof cases
    case 2
    define u where "u = upd_conn i (\<lambda>c. open_slot cid peer now) (s\<lparr>s_now_us := now\<rparr>)"
    have "live u i" using 2(1) by (simp add: u_def live_def open_slot_def)
    then have o: "owners t = owners u" using owned.then_greet [of u u i now] 2(2) by (simp add: u_def)
    have "punctual (s\<lparr>s_now_us := now\<rparr>)" using assms(1) punctual_later [of s now] by (simp add: ready_def)
    then have "punctual u"
      using 2(1) by (auto simp: u_def punctual_def live_def conn_upd_conn open_slot_def)
    then have "punctual t" using owners_punctual [OF o] pol by (simp add: u_def)
    then show ?thesis using inv owners_find(3) [OF o] by (simp add: ready_def u_def)
  qed (use assms(1) in simp)
qed

lemma ready_closed:
  assumes "ready now s"
  shows "ready now (snd (gsp_server_on_connection_closed s cid cause now))" (is "ready now ?t")
proof -
  have inv: "server_inv ?t" using call_inv [of s "On_closed cid cause now"] assms by (simp add: ready_def)
  have "static ?t = static s" using fixed.call_ok [of "On_closed cid cause now" s] by simp
  then have pol: "s_policy ?t = s_policy s" by (simp add: static_def)
  consider "?t = s" | i where "?t = end_conn (s\<lparr>s_now_us := now\<rparr>) i cause now"
    by (cases "s_closed s"; cases "find_conn s cid") (simp_all add: gsp_server_on_connection_closed_def)
  then show ?thesis
  proof cases
    case 2
    have n: "s_now_us ?t = now" by (simp add: 2 end_conn_def drop_writes_for_def)
    have "live s k \<and> c_next_write_us (conn ?t k) = c_next_write_us (conn s k)" if "live ?t k" for k
    proof -
      define u where "u = drop_writes_for (emit_connection (s\<lparr>s_now_us := now\<rparr>) GSP_EV_CONNECTION_CLOSED i cause now)
        (conn_id (s\<lparr>s_now_us := now\<rparr>) i)"
      have "s_conns u = s_conns s" by (simp add: u_def drop_writes_for_def)
      then have u: "conn u k = conn s k" "length (s_conns u) = length (s_conns s)" for k by (simp_all add: conn_def)
      have "?t = upd_conn i (\<lambda>c. c\<lparr>c_used := False\<rparr>) u" by (simp add: 2 end_conn_def u_def)
      with that show ?thesis by (auto simp: live_def conn_upd_conn u split: if_splits)
    qed
    then have "punctual ?t" using assms pol n by (fastforce simp: ready_def punctual_def)
    then show ?thesis using inv n by (simp add: ready_def)
  qed (use assms in simp)
qed

lemma ready_later: "ready now s \<Longrightarrow> now \<le> now' \<Longrightarrow> ready now' s"
  by (simp add: ready_def)

lemma chunk_ends:
  assumes "ready (wc_host_time_us c) s"
  shows "\<exists>t z. replay_chunk c (s, y) = Some (t, z) \<and> ready (wc_host_time_us c) t"
proof -
  let ?now = "wc_host_time_us c"
  obtain st rep where y: "y = (st, rep)" by (rule prod.exhaust)
  have drained: "ready ?now (fst (replay_drain (u, z)))" if "ready ?now u" for u z
    using ready_drain(1) [OF that] by (cases "replay_drain (u, z)") auto
  have client: "\<exists>t z. replay_client c (s, st', rep') = Some (t, z) \<and> ready ?now t" for st' rep'
  proof -
    obtain u z where o: "replay_open_lazily c (s, st', rep'\<lparr>rep_client_chunks := rep_client_chunks rep' + 1\<rparr>) = (u, z)"
      by (rule prod.exhaust)
    obtain ok v where op: "gsp_server_on_connection_opened s (wc_conn c) None ?now = (ok, v)" by (rule prod.exhaust)
    have "ready ?now v" by (rule ready_opened [OF assms op])
    then have "ready ?now (fst (replay_open_lazily c (s, st', rep'\<lparr>rep_client_chunks := rep_client_chunks rep' + 1\<rparr>)))"
      using assms by (auto simp: replay_open_lazily_def op intro: drained)
    then have u: "ready ?now u" by (simp add: o)
    obtain fed w where b: "gsp_server_on_bytes u (wc_conn c) (wc_data c) ?now = (fed, w)" by (rule prod.exhaust)
    have w: "ready ?now w" "find_conn w (wc_conn c) = find_conn u (wc_conn c)" by (rule ready_on_bytes [OF u b])+
    have "fed = GSP_ERR_QUEUE_FULL \<longrightarrow> find_conn w (wc_conn c) = Some (the (find_conn u (wc_conn c)))"
      using b w(2) by (auto simp: gsp_server_on_bytes_def split: if_splits option.splits)
    from feed_ends [OF w(1) this, of z] obtain t z' where f: "feed_again (wc_conn c) ?now fed (w, z) = Some (t, z')"
      "ready ?now t" by blast
    show ?thesis using drained [OF f(2), of z'] by (cases "replay_drain (t, z')") (simp add: replay_client_def o b f(1))
  qed
  have server: "ready ?now (fst (replay_server c (s, st', rep')))" for st' rep'
    using drained [OF assms] by (simp add: replay_server_def case_prod_beta)
  have meta: "ready ?now (fst (replay_meta c (s, st', rep')))" for st' rep'
    using assms drained [OF ready_closed [OF assms]] by (simp add: replay_meta_def Let_def)
  show ?thesis
    using client server meta assms unfolding y replay_chunk_def Let_def prod.case
    by (auto simp del: direction_value.simps) (metis fst_conv surj_pair)+
qed

lemma chunks_end:
  assumes "ready now s" "sorted (now # map wc_host_time_us cs)"
  shows "\<exists>t z. replay_chunks cs (s, y) = Some (t, z)"
  using assms
proof (induction cs arbitrary: now s y)
  case (Cons c cs)
  then have "ready (wc_host_time_us c) s" "sorted (wc_host_time_us c # map wc_host_time_us cs)"
    using ready_later [of now s "wc_host_time_us c"] by simp_all
  with chunk_ends [of c s y] obtain t z where c: "replay_chunk c (s, y) = Some (t, z)" "ready (wc_host_time_us c) t" by blast
  with Cons(1) [OF c(2), of z] \<open>sorted (wc_host_time_us c # map wc_host_time_us cs)\<close> show ?case by simp
qed simp

lemma created_ready:
  assumes "gsp_server_create config True = Inr s" "write_spacing_us (s_policy s) \<le> 0"
  shows "ready 0 s"
proof -
  have "\<not> live s k" "s_now_us s = 0" for k
    using assms(1) by (auto simp: gsp_server_create_def Let_def live_def conn_def zero_conn_def split: if_splits)
  then show ?thesis using create_inv(1) [OF assms(1)] assms(2) by (simp add: ready_def punctual_def)
qed

lemma into_server_returns:
  assumes "ready 0 s" "sorted (0 # map wc_host_time_us (fst (read_whole r)))"
  obtains rep t where "gsp_replay_into_server r s =
    Some (if failed (gsp_replay_status (snd (read_whole r))) then gsp_replay_status (snd (read_whole r)) else GSP_OK,
      rep, snd (read_whole r), t)"
proof -
  from chunks_end [OF assms] obtain t z
    where c: "replay_chunks (fst (read_whole r)) (s, \<lparr>rs_ids = [], rs_pending = []\<rparr>, zero_report) = Some (t, z)" by blast
  obtain u st rep where "replay_drain (t, z) = (u, st, rep)" by (metis prod_cases3)
  with c that show ?thesis by (simp add: gsp_replay_into_server_def replay_loop_whole)
qed

text \<open>
  C23. A replay ends. Driving a file into a newly created server whose policy has no write spacing
  always returns, however many messages share a chunk and however small the server's rings are,
  when the times of the file's chunks do not go backwards: each turn of the loop that waits for
  a full write ring takes at least one object out of the pending bytes.
\<close>

theorem replay_ends:
  assumes "gsp_server_create config True = Inr s" "write_spacing_us (s_policy s) \<le> 0"
    "sorted (0 # map wc_host_time_us (fst (read_whole r)))"
  shows "\<exists>st rep r' s'. gsp_replay_into_server r s = Some (st, rep, r', s')"
  using into_server_returns [OF created_ready [OF assms(1,2)] assms(3)] by metis

theorem replay_ends_witness:
  "\<exists>st rep r' s'. gsp_replay_into_server demo_replay demo_server = Some (st, rep, r', s')"
proof (rule replay_ends [OF demo_created])
  show "write_spacing_us (s_policy demo_server) \<le> 0" by code_simp
  show "sorted (0 # map wc_host_time_us (fst (read_whole demo_replay)))"
    by (simp add: demo_replay_whole demo_session_def)
qed

section \<open>When it does not end\<close>

text \<open>
  The ring is full, everything in it is held back at the server's time, and the next thing
  pending on the connection is the start of an object.
\<close>

definition stuck :: "gsp_conn_id \<Rightarrow> gsp_server \<Rightarrow> bool" where
  "stuck cid s \<longleftrightarrow> \<not> s_closed s \<and> write_ring_full s \<and>
     list_all (\<lambda>k. held_back s (w_conn (ring_nth (s_writes s) k))) [0..<rg_count (s_writes s)] \<and>
     (case find_conn s cid of
        None \<Rightarrow> False
      | Some i \<Rightarrow> c_scan (conn s i) = 0 \<and> c_rx (conn s i) \<noteq> [] \<and> \<not> gs_is_ws (hd (c_rx (conn s i))) \<and>
          \<not> gs_framer_in_message (c_framer (conn s i)))"

lemma stuck_cong:
  assumes "s_closed t = s_closed s" "s_writes t = s_writes s" "s_conns t = s_conns s" "s_now_us t = s_now_us s"
  shows "stuck cid t = stuck cid s"
proof -
  have c: "conn t = conn s" using assms(3) by (simp add: conn_def fun_eq_iff)
  have f: "find_conn t d = find_conn s d" for d by (rule find_conn_cong) (simp_all add: assms c)
  show ?thesis unfolding stuck_def f c write_ring_full_def held_back_def assms ..
qed

lemma poll_writes_held:
  assumes "\<forall>k < rg_count (s_writes s). held_back s (w_conn (ring_nth (s_writes s) k))"
  shows "poll_writes_loop s i left = ([], s)"
  using assms
proof (induction s i left rule: poll_writes_loop.induct)
  case (1 s i left)
  then show ?case
    by (cases "i < rg_count (s_writes s) \<and> 0 < left") (auto simp: poll_writes_loop.simps [of s i left] Let_def)
qed

lemma stuck_drain_events:
  "stuck cid s \<Longrightarrow> drain_events s rep = (t, rep') \<Longrightarrow> stuck cid t \<and> s_now_us t = s_now_us s"
proof (induction s rep rule: drain_events.induct)
  case (1 s rep)
  obtain evs u where p: "gsp_server_poll_events s 16 = (evs, u)" by fastforce
  then have u: "s_closed u = s_closed s" "s_writes u = s_writes s" "s_conns u = s_conns s" "s_now_us u = s_now_us s"
    by (auto simp: gsp_server_poll_events_def split: prod.splits)
  then have "stuck cid u" using stuck_cong [of u s] 1(2) by simp
  with u(4) 1(1) [OF p [symmetric]] 1(3) p show ?case by (auto simp: drain_events.simps [of s] split: if_splits)
qed

lemma stuck_drain:
  assumes "stuck cid s" "replay_drain (s, y) = (t, z)"
  shows "stuck cid t \<and> s_now_us t = s_now_us s"
proof -
  have "gsp_server_poll_writes s 8 = ([], s)"
    using assms(1) by (simp add: gsp_server_poll_writes_def stuck_def poll_writes_held list_all_iff)
  then have w: "drain_writes s y = (s, y)" by (simp add: drain_writes.simps [of s])
  show ?thesis
    using assms stuck_drain_events [OF assms(1)] by (auto simp: replay_drain_def w split: prod.splits)
qed

lemma stuck_feed:
  assumes "stuck cid s"
  shows "fst (gsp_server_on_bytes s cid [] (s_now_us s)) = GSP_ERR_QUEUE_FULL \<and>
    stuck cid (snd (gsp_server_on_bytes s cid [] (s_now_us s))) \<and>
    s_now_us (snd (gsp_server_on_bytes s cid [] (s_now_us s))) = s_now_us s"
proof -
  let ?now = "s_now_us s"
  obtain i b bs where i: "find_conn s cid = Some i" and c: "c_scan (conn s i) = 0" "c_rx (conn s i) = b # bs"
      "\<not> gs_is_ws b" "\<not> gs_framer_in_message (c_framer (conn s i))" and full: "write_ring_full s" "\<not> s_closed s"
    using assms by (cases "find_conn s cid"; cases "c_rx (conn s (the (find_conn s cid)))") (auto simp: stuck_def)
  have lt: "i < length (s_conns s)" using find_conn_live [OF i] by (simp add: live_def)
  have "compact (conn s i) = conn s i" using c by (simp add: compact_def)
  then have same: "upd_conn i compact s = s" by (simp add: upd_conn_def conn_def)
  have fp: "frame_pending s i ?now = (GSP_ERR_QUEUE_FULL, False, s)"
    using c full lt by (simp add: frame_pending.simps [of s] frame_step_def Let_def gs_is_ws_def same)
  then have "on_bytes_loop s i [] 0 ?now = (GSP_ERR_QUEUE_FULL, 0, s)"
    by (simp add: on_bytes_loop.simps [of s i "[]" 0] room_taken_def append_rx_Nil)
  then have on: "gsp_server_on_bytes s cid [] ?now = (GSP_ERR_QUEUE_FULL, retain_or_drop s i cid [] ?now)"
    using full i by (simp add: gsp_server_on_bytes_def)
  have "stuck cid (retain_or_drop s i cid [] ?now)"
    using stuck_cong [of "retain_or_drop s i cid [] ?now" s cid] assms by (simp add: retain_or_drop_def append_rx_Nil Let_def)
  then show ?thesis by (simp add: on retain_or_drop_def append_rx_Nil Let_def)
qed

lemma stuck_never:
  assumes "feed_again cid now fed x = Some r"
  shows "fed = GSP_ERR_QUEUE_FULL \<longrightarrow> stuck cid (fst x) \<and> s_now_us (fst x) = now \<longrightarrow> False"
  using assms
proof (induction rule: feed_again_induct)
  case (again x s z fed t y)
  show ?case
  proof (intro impI)
    assume a: "stuck cid (fst x) \<and> s_now_us (fst x) = now"
    obtain s0 y0 where x: "x = (s0, y0)" by (rule prod.exhaust)
    have "stuck cid s" "s_now_us s = now" using stuck_drain [of cid s0 y0 s z] a again(1) by (simp_all add: x)
    with stuck_feed [of cid s] again(2,3) show False by simp
  qed
qed simp

text \<open>
  C27. The replay's loop never returns when the write ring is full of writes that are held back: it
  drains the server and feeds it nothing, at the same recorded time, for ever. (A policy with
  write spacing and more messages in one recorded chunk than the ring has slots are enough.)
\<close>

theorem feed_again_hangs:
  assumes "stuck cid s" "s_now_us s = now"
  shows "feed_again cid now GSP_ERR_QUEUE_FULL (s, y) = None"
  using assms stuck_never [of cid now GSP_ERR_QUEUE_FULL "(s, y)"] by (cases "feed_again cid now GSP_ERR_QUEUE_FULL (s, y)") auto

definition stuck_since :: "gsp_server \<Rightarrow> gsp_conn_id \<Rightarrow> gsp_time_us option" where
  "stuck_since s cid = (if stuck cid s then Some (s_now_us s) else None)"

theorem feed_again_hangs_witness:
  "feed_again 7 9 GSP_ERR_QUEUE_FULL
     (call_state (On_bytes 7 ''{}{}'' 9) (call_state (Poll_writes 8) demo_spaced),
      \<lparr>rs_ids = [7], rs_pending = []\<rparr>, zero_report) = None"
proof -
  have "stuck_since (call_state (On_bytes 7 ''{}{}'' 9) (call_state (Poll_writes 8) demo_spaced)) 7 = Some 9" by code_simp
  then show ?thesis using feed_again_hangs by (simp only: stuck_since_def split: if_splits) blast+
qed

end
