(* ===== verification/NetSys.thy ===== *)
theory NetSys
  imports Prelude
begin

text \<open>
  The platform under the socket transport: the shims of \<^verbatim>\<open>net/gs_net_sys.h\<close> in their
  POSIX form, over an operating system that is a script of answers. Each system call takes the
  next answer of its list, so that a statement about every script is a statement about every
  behaviour of the kernel, the network and the clock. What the kernel did with a call is kept:
  the descriptors it has open, the bytes it took for each of them, the timeouts it was given.

  The documented limits of the calls are part of them: \<open>send\<close> takes no more than it was
  offered, \<open>recv\<close> returns no more than it was asked for, \<open>select\<close> reports only descriptors
  it was asked about, and \<open>accept\<close> returns a descriptor that is not open yet.
  A list that has run out is a call that would block (a \<open>select\<close> that timed out, a clock that
  failed).
\<close>

section \<open>Answers\<close>

type_synonym gs_sock = int

abbreviation (input) GS_SOCK_INVALID :: gs_sock where "GS_SOCK_INVALID \<equiv> -1"
abbreviation (input) EINTR :: int where "EINTR \<equiv> 4"
abbreviation (input) EAGAIN :: int where "EAGAIN \<equiv> 11"
abbreviation (input) EWOULDBLOCK :: int where "EWOULDBLOCK \<equiv> 11"
abbreviation (input) FD_SETSIZE :: int where "FD_SETSIZE \<equiv> 1024"

text \<open>A value of \<^verbatim>\<open>errno\<close> with what \<^verbatim>\<open>strerror\<close> says of it (\<open>None\<close> is its NULL).\<close>

record gs_errno =
  e_code :: int
  e_text :: "bytes option"

text \<open>
  An accepted socket: its descriptor, what \<^verbatim>\<open>getnameinfo\<close> says of the peer (\<open>None\<close> when
  it fails), and how making it non-blocking and setting \<^verbatim>\<open>TCP_NODELAY\<close> fail, if they do.
\<close>

record gs_incoming =
  a_sock :: gs_sock
  a_name :: "(bytes \<times> bytes) option"
  a_nonblocking :: "gs_errno option"
  a_nodelay :: "gs_errno option"

datatype select_answer = Select_ready "gs_sock list" "gs_sock list" | Select_failed gs_errno

record gs_os =
  os_clock :: "(int \<times> int) option list"
  os_selects :: "select_answer list"
  os_accepts :: "(gs_errno + gs_incoming) list"
  os_recvs :: "(gs_errno + bytes) list"
  os_sends :: "(gs_errno + nat) list"
  os_open :: "gs_sock list"
  os_out :: "gs_sock \<Rightarrow> bytes"
  os_waits :: "(int \<times> int) option list"
  os_binds :: "(bytes \<times> u16 \<times> bool \<times> int) list"

section \<open>The shims\<close>

definition gs_sys_would_block :: "gs_errno \<Rightarrow> bool" where
  "gs_sys_would_block err \<longleftrightarrow> e_code err = EAGAIN \<or> e_code err = EWOULDBLOCK \<or> e_code err = EINTR"

text \<open>\<^verbatim>\<open>snprintf\<close> into \<open>out_size\<close> bytes, of the text its format gives.\<close>

definition snprintf :: "nat \<Rightarrow> bytes \<Rightarrow> bytes" where
  "snprintf out_size s = take (out_size - 1) s"

definition gs_sys_error_text :: "gs_errno \<Rightarrow> nat \<Rightarrow> bytes" where
  "gs_sys_error_text err out_size =
     snprintf out_size (cstr (case e_text err of Some t \<Rightarrow> t | None \<Rightarrow> ''unknown error''))"

definition gs_sys_sock_close :: "gs_sock \<Rightarrow> gs_os \<Rightarrow> gs_os" where
  "gs_sys_sock_close s os =
     (if s = GS_SOCK_INVALID then os else os\<lparr>os_open := remove1 s (os_open os)\<rparr>)"

definition gs_sys_timeval_set :: "int \<Rightarrow> int \<times> int" where
  "gs_sys_timeval_set us = (us div 1000000, us mod 1000000)"

definition gs_sys_now_us :: "gs_os \<Rightarrow> gsp_time_us \<times> gs_os" where
  "gs_sys_now_us os =
     (case os_clock os of
        [] \<Rightarrow> (0, os)
      | None # ts \<Rightarrow> (0, os\<lparr>os_clock := ts\<rparr>)
      | Some (tv_sec, tv_nsec) # ts \<Rightarrow> (tv_sec * 1000000 + tv_nsec div 1000, os\<lparr>os_clock := ts\<rparr>))"

section \<open>The socket calls\<close>

definition would_block :: gs_errno where
  "would_block = \<lparr>e_code = EAGAIN, e_text = None\<rparr>"

definition sys_send :: "gs_sock \<Rightarrow> bytes \<Rightarrow> gs_os \<Rightarrow> (gs_errno + nat) \<times> gs_os" where
  "sys_send s bs os =
     (case os_sends os of
        [] \<Rightarrow> (Inl would_block, os)
      | Inl e # rest \<Rightarrow> (Inl e, os\<lparr>os_sends := rest\<rparr>)
      | Inr k # rest \<Rightarrow>
          (let sent = min k (length bs) in
           (Inr sent, os\<lparr>os_sends := rest, os_out := (os_out os)(s := os_out os s @ take sent bs)\<rparr>)))"

definition sys_recv :: "gs_sock \<Rightarrow> nat \<Rightarrow> gs_os \<Rightarrow> (gs_errno + bytes) \<times> gs_os" where
  "sys_recv s want os =
     (case os_recvs os of
        [] \<Rightarrow> (Inl would_block, os)
      | Inl e # rest \<Rightarrow> (Inl e, os\<lparr>os_recvs := rest\<rparr>)
      | Inr bs # rest \<Rightarrow> (Inr (take want bs), os\<lparr>os_recvs := rest\<rparr>))"

text \<open>An answer no kernel gives (a descriptor that is negative or open) counts as none.\<close>

definition sys_accept :: "gs_os \<Rightarrow> (gs_errno + gs_incoming) \<times> gs_os" where
  "sys_accept os =
     (case os_accepts os of
        [] \<Rightarrow> (Inl would_block, os)
      | Inl e # rest \<Rightarrow> (Inl e, os\<lparr>os_accepts := rest\<rparr>)
      | Inr a # rest \<Rightarrow>
          if a_sock a < 0 \<or> a_sock a \<in> set (os_open os) then (Inl would_block, os\<lparr>os_accepts := rest\<rparr>)
          else (Inr a, os\<lparr>os_accepts := rest, os_open := a_sock a # os_open os,
                          os_out := (os_out os)(a_sock a := [])\<rparr>))"

definition sys_select :: "gs_sock list \<Rightarrow> gs_sock list \<Rightarrow> (int \<times> int) option \<Rightarrow> gs_os \<Rightarrow> select_answer \<times> gs_os" where
  "sys_select readers writers tv os =
     (let os = os\<lparr>os_waits := os_waits os @ [tv]\<rparr> in
      case os_selects os of
        [] \<Rightarrow> (Select_ready [] [], os)
      | Select_failed e # rest \<Rightarrow> (Select_failed e, os\<lparr>os_selects := rest\<rparr>)
      | Select_ready rs ws # rest \<Rightarrow>
          (Select_ready (filter (\<lambda>s. s \<in> set rs) readers) (filter (\<lambda>s. s \<in> set ws) writers),
           os\<lparr>os_selects := rest\<rparr>))"

section \<open>What the calls leave alone\<close>

lemma close_sel [simp]:
  "os_out (gs_sys_sock_close s os) = os_out os" "os_accepts (gs_sys_sock_close s os) = os_accepts os"
  "os_waits (gs_sys_sock_close s os) = os_waits os"
  by (simp_all add: gs_sys_sock_close_def)

lemma close_open: "t \<noteq> s \<Longrightarrow> t \<in> set (os_open (gs_sys_sock_close s os)) \<longleftrightarrow> t \<in> set (os_open os)"
  by (simp add: gs_sys_sock_close_def)

lemma close_subset: "set (os_open (gs_sys_sock_close s os)) \<subseteq> set (os_open os)"
  using set_remove1_subset [of s "os_open os"] by (simp add: gs_sys_sock_close_def)

lemma now_sel [simp]:
  "os_out (snd (gs_sys_now_us os)) = os_out os" "os_open (snd (gs_sys_now_us os)) = os_open os"
  "os_accepts (snd (gs_sys_now_us os)) = os_accepts os" "os_waits (snd (gs_sys_now_us os)) = os_waits os"
  "os_selects (snd (gs_sys_now_us os)) = os_selects os"
  by (simp_all add: gs_sys_now_us_def split: list.split option.split)

lemma send_sel [simp]:
  "os_open (snd (sys_send s bs os)) = os_open os" "os_accepts (snd (sys_send s bs os)) = os_accepts os"
  "os_waits (snd (sys_send s bs os)) = os_waits os"
  by (simp_all add: sys_send_def Let_def split: list.split sum.split)

text \<open>What \<open>send\<close> says it took is what the stream of the socket grew by.\<close>

lemma sys_send_out:
  assumes "sys_send s bs os = (r, os')"
  shows "os_out os' = (case r of Inl e \<Rightarrow> os_out os | Inr k \<Rightarrow> (os_out os)(s := os_out os s @ take k bs))"
    "r = Inr k \<Longrightarrow> k \<le> length bs"
  using assms by (auto simp: sys_send_def Let_def split: list.splits sum.splits)

lemma recv_sel [simp]:
  "os_open (snd (sys_recv s want os)) = os_open os" "os_out (snd (sys_recv s want os)) = os_out os"
  "os_accepts (snd (sys_recv s want os)) = os_accepts os" "os_waits (snd (sys_recv s want os)) = os_waits os"
  by (simp_all add: sys_recv_def split: list.split sum.split)

lemma sys_accept_Inr:
  assumes "sys_accept os = (Inr a, os')"
  shows "0 \<le> a_sock a" "a_sock a \<notin> set (os_open os)" "os_open os' = a_sock a # os_open os"
    "os_out os' = (os_out os)(a_sock a := [])" "length (os_accepts os') < length (os_accepts os)"
    "os_waits os' = os_waits os"
  using assms by (auto simp: sys_accept_def split: list.splits sum.splits if_splits)

lemma sys_accept_Inl:
  assumes "sys_accept os = (Inl e, os')"
  shows "os_open os' = os_open os" "os_out os' = os_out os" "os_waits os' = os_waits os"
  using assms by (auto simp: sys_accept_def split: list.splits sum.splits if_splits)

lemma select_sel [simp]:
  "os_open (snd (sys_select readers writers tv os)) = os_open os"
  "os_out (snd (sys_select readers writers tv os)) = os_out os"
  "os_waits (snd (sys_select readers writers tv os)) = os_waits os @ [tv]"
  by (simp_all add: sys_select_def Let_def split: list.split select_answer.split)

end
