(* ===== verification/Net.thy ===== *)
theory Net
  imports NetSys Replay
begin

text \<open>
  The reference socket transport, \<^verbatim>\<open>net/gs_net.c\<close> with its interface
  \<^verbatim>\<open>gspro/net.h\<close>: a table of sockets, a queue of unsent writes for each, and one pass of a
  \<open>select\<close> loop that accepts, reads into the server, ticks it and drains its write ring.

  The record \<open>gsp_net\<close> holds the fields of \<^verbatim>\<open>struct gsp_net\<close>, the server it points to
  and the operating system it runs on (\<open>NetSys\<close>); the read buffer holds nothing between
  calls and the allocator is whether its one call succeeds. A connection is named by its index
  in the table, as the C code names it by its address.
\<close>

section \<open>Data\<close>

abbreviation (input) GS_NET_BACKLOG_DEFAULT :: int where "GS_NET_BACKLOG_DEFAULT \<equiv> 8"
abbreviation (input) GS_NET_MAX_CONNS_DEFAULT :: u16 where "GS_NET_MAX_CONNS_DEFAULT \<equiv> 8"
abbreviation (input) GS_NET_READ_DEFAULT :: u32 where "GS_NET_READ_DEFAULT \<equiv> 16 * 1024"
abbreviation (input) GS_NET_WRITE_QUEUE_DEFAULT :: u16 where "GS_NET_WRITE_QUEUE_DEFAULT \<equiv> 4"
abbreviation (input) GS_NET_PEER_TEXT_MAX :: nat where "GS_NET_PEER_TEXT_MAX \<equiv> 96"
abbreviation (input) GS_NET_QUEUE_FULL_RETRIES :: nat where "GS_NET_QUEUE_FULL_RETRIES \<equiv> 4"
abbreviation (input) GSP_NET_ERROR_MAX :: nat where "GSP_NET_ERROR_MAX \<equiv> 192"
abbreviation (input) GSP_DEFAULT_PORT :: u16 where "GSP_DEFAULT_PORT \<equiv> 921"
abbreviation (input) GSP_CLOSE_LOCAL_REQUEST :: gsp_close_cause where "GSP_CLOSE_LOCAL_REQUEST \<equiv> 2"
abbreviation (input) GSP_CLOSE_TRANSPORT_ERROR :: gsp_close_cause where "GSP_CLOSE_TRANSPORT_ERROR \<equiv> 3"

text \<open>
  \<open>nc_queue\<close> is the array with \<^verbatim>\<open>q_head\<close> and \<^verbatim>\<open>q_count\<close>. Its length is
  \<^verbatim>\<open>write_queue\<close>, at most \<open>65535\<close>, so the 16-bit index and count never wrap; an offset is
  below the length of one write.
\<close>

record gs_net_conn =
  nc_sock :: gs_sock
  nc_conn :: gsp_conn_id
  nc_in_use :: bool
  nc_want_write :: bool
  nc_resume :: bool
  nc_offset :: nat
  nc_queue :: "gsp_write_request ring"

record gsp_net_stats =
  ns_accepted :: u64
  ns_refused :: u64
  ns_reads :: u64
  ns_read_bytes :: u64
  ns_writes :: u64
  ns_sends :: u64
  ns_partial_writes :: u64
  ns_write_bytes :: u64
  ns_polls :: u64
  ns_max_write_bytes :: u32

record gsp_net_config =
  nf_host :: "bytes option"
  nf_port :: u16
  nf_ephemeral_port :: bool
  nf_reuse_address :: bool
  nf_allow_nagle :: bool
  nf_backlog :: u16
  nf_max_connections :: u16
  nf_read_buffer :: u32
  nf_write_queue :: u16

record gsp_net =
  n_server :: gsp_server
  n_os :: gs_os
  n_listener :: gs_sock
  n_port :: u16
  n_write_queue :: nat
  n_conn_count :: u16
  n_read_size :: nat
  n_allow_nagle :: bool
  n_next_conn :: gsp_conn_id
  n_stats :: gsp_net_stats
  n_error :: bytes
  n_conns :: "gs_net_conn list"

section \<open>Small helpers\<close>

definition net_conn :: "gsp_net \<Rightarrow> nat \<Rightarrow> gs_net_conn" where
  "net_conn n i = n_conns n ! i"

definition upd_net_conn :: "nat \<Rightarrow> (gs_net_conn \<Rightarrow> gs_net_conn) \<Rightarrow> gsp_net \<Rightarrow> gsp_net" where
  "upd_net_conn i f n = n\<lparr>n_conns := (n_conns n)[i := f (net_conn n i)]\<rparr>"

definition upd_stats :: "(gsp_net_stats \<Rightarrow> gsp_net_stats) \<Rightarrow> gsp_net \<Rightarrow> gsp_net" where
  "upd_stats f n = n\<lparr>n_stats := f (n_stats n)\<rparr>"

text \<open>\<^verbatim>\<open>gsp_net_now_us\<close>.\<close>

definition gsp_net_now_us :: "gsp_net \<Rightarrow> gsp_time_us \<times> gsp_net" where
  "gsp_net_now_us n = (case gs_sys_now_us (n_os n) of (now, os) \<Rightarrow> (now, n\<lparr>n_os := os\<rparr>))"

definition gs_net_note :: "nat \<Rightarrow> bytes \<Rightarrow> gs_errno \<Rightarrow> bytes" where
  "gs_net_note out_size what err =
     snprintf out_size (what @ '': '' @ gs_sys_error_text err GSP_NET_ERROR_MAX)"

definition gs_net_record :: "gsp_net \<Rightarrow> bytes \<Rightarrow> gs_errno \<Rightarrow> gsp_net" where
  "gs_net_record n what err = n\<lparr>n_error := gs_net_note GSP_NET_ERROR_MAX what err\<rparr>"

definition gs_net_find :: "gsp_net \<Rightarrow> gsp_conn_id \<Rightarrow> nat option" where
  "gs_net_find n cid =
     find (\<lambda>i. nc_in_use (net_conn n i) \<and> nc_conn (net_conn n i) = cid) [0..<length (n_conns n)]"

definition gsp_net_config_default :: gsp_net_config where
  "gsp_net_config_default =
     \<lparr>nf_host = None, nf_port = 0, nf_ephemeral_port = False, nf_reuse_address = False,
      nf_allow_nagle = False, nf_backlog = 0, nf_max_connections = 0, nf_read_buffer = 0,
      nf_write_queue = 0\<rparr>"

section \<open>Connection teardown\<close>

definition free_slot :: "gs_net_conn \<Rightarrow> gs_net_conn" where
  "free_slot c =
     c\<lparr>nc_sock := GS_SOCK_INVALID, nc_in_use := False, nc_want_write := False, nc_resume := False,
       nc_offset := 0, nc_queue := (nc_queue c)\<lparr>rg_head := 0, rg_count := 0\<rparr>\<rparr>"

definition gs_net_drop :: "gsp_net \<Rightarrow> nat \<Rightarrow> gsp_close_cause \<Rightarrow> gsp_net" where
  "gs_net_drop n i cause =
     (if \<not> nc_in_use (net_conn n i) then n
      else
        (case gsp_net_now_us n of (now, n) \<Rightarrow>
           (let n = n\<lparr>n_server := snd (gsp_server_on_connection_closed (n_server n) (nc_conn (net_conn n i)) cause now)\<rparr>;
                n = n\<lparr>n_os := gs_sys_sock_close (nc_sock (net_conn n i)) (n_os n)\<rparr>;
                n = upd_net_conn i free_slot n
            in if 0 < n_conn_count n then n\<lparr>n_conn_count := n_conn_count n - 1\<rparr> else n)))"

section \<open>Writing\<close>

text \<open>A request that went out whole leaves the queue and is counted.\<close>

definition flush_done :: "gsp_net \<Rightarrow> nat \<Rightarrow> gsp_write_request \<Rightarrow> gsp_net" where
  "flush_done n i w =
     upd_net_conn i (\<lambda>c. c\<lparr>nc_offset := 0, nc_queue := ring_drop (nc_queue c)\<rparr>)
       (upd_stats (\<lambda>st. st\<lparr>
          ns_partial_writes := ns_partial_writes st + (if nc_offset (net_conn n i) \<noteq> 0 then 1 else 0),
          ns_writes := ns_writes st + 1,
          ns_max_write_bytes := (if ns_max_write_bytes st < ucast (w_length w) then ucast (w_length w)
                                 else ns_max_write_bytes st)\<rparr>) n)"

definition flush_send :: "gsp_net \<Rightarrow> nat \<Rightarrow> nat \<Rightarrow> (gs_errno + nat) \<times> gsp_net" where
  "flush_send n i left =
     (let c = net_conn n i; w = ring_nth (nc_queue c) 0 in
      case sys_send (nc_sock c) (take left (drop (nc_offset c) (w_data w))) (n_os n) of
        (r, os) \<Rightarrow> (r, n\<lparr>n_os := os\<rparr>))"

text \<open>One turn of the loop of \<^verbatim>\<open>gs_net_flush\<close>: \<open>Inl\<close> returns, \<open>Inr\<close> goes on with the next request.\<close>

definition flush_step :: "gsp_net \<Rightarrow> nat \<Rightarrow> gsp_net + gsp_net" where
  "flush_step n i =
     (let w = ring_nth (nc_queue (net_conn n i)) 0;
          left = unat (w_length w) - nc_offset (net_conn n i)
      in case flush_send n i left of
           (Inl err, n) \<Rightarrow>
             if gs_sys_would_block err then Inl (upd_net_conn i (\<lambda>c. c\<lparr>nc_want_write := True\<rparr>) n)
             else Inl (gs_net_drop (gs_net_record n ''send'' err) i GSP_CLOSE_TRANSPORT_ERROR)
         | (Inr sent, n) \<Rightarrow>
             (let n = upd_stats (\<lambda>st. st\<lparr>ns_sends := ns_sends st + 1,
                        ns_write_bytes := ns_write_bytes st + of_nat sent\<rparr>) n
              in if sent < left
                 then Inl (upd_net_conn i (\<lambda>c. c\<lparr>nc_offset := nc_offset c + sent, nc_want_write := True\<rparr>) n)
                 else Inr (flush_done n i w)))"

function gs_net_flush :: "gsp_net \<Rightarrow> nat \<Rightarrow> gsp_net" where
  "gs_net_flush n i =
     (if i < length (n_conns n) \<and> 0 < rg_count (nc_queue (net_conn n i)) then
        (case flush_step n i of Inl m \<Rightarrow> m | Inr m \<Rightarrow> gs_net_flush m i)
      else upd_net_conn i (\<lambda>c. c\<lparr>nc_want_write := False\<rparr>) n)"
  by pat_completeness auto
termination
  by (relation "measure (\<lambda>(n, i). rg_count (nc_queue (net_conn n i)))")
    (auto simp: flush_step_def flush_send_def Let_def flush_done_def upd_net_conn_def upd_stats_def net_conn_def
      ring_drop_def split: prod.splits sum.splits if_splits)

declare gs_net_flush.simps [simp del]

text \<open>Whether every open connection has a free place in its queue.\<close>

definition net_room :: "gsp_net \<Rightarrow> bool" where
  "net_room n \<longleftrightarrow> \<not> list_ex (\<lambda>c. nc_in_use c \<and> n_write_queue n \<le> rg_count (nc_queue c)) (n_conns n)"

definition net_enqueue :: "gsp_net \<Rightarrow> nat \<Rightarrow> gsp_write_request \<Rightarrow> gsp_net" where
  "net_enqueue n i w = upd_net_conn i (\<lambda>c. c\<lparr>nc_queue := ring_put (nc_queue c) w\<rparr>) n"

section \<open>Draining the server's ring\<close>

text \<open>A connection that ends takes its writes with it: the ring never grows.\<close>

lemma compact_loop_keep: "snd (ring_compact_loop P r i keep todo) \<le> keep + todo"
proof (induction P r i keep todo rule: ring_compact_loop.induct)
  case (2 P r i keep todo)
  then show ?case by (cases "P (ring_nth r i)") (auto simp: Let_def)
qed simp

lemma compact_count: "rg_count (ring_compact P r) \<le> rg_count r"
  using compact_loop_keep [of P r 0 0 "rg_count r"] by (simp add: ring_compact_def case_prod_beta)

lemma end_conn_count: "rg_count (s_writes (end_conn s i cause now)) \<le> rg_count (s_writes s)"
  using compact_count [of _ "s_writes s"] by (simp add: end_conn_def drop_writes_for_def)

lemma connection_closed_count:
  "rg_count (s_writes (snd (gsp_server_on_connection_closed s cid cause now))) \<le> rg_count (s_writes s)"
  using end_conn_count [of "s\<lparr>s_now_us := now\<rparr>"]
  by (auto simp: gsp_server_on_connection_closed_def split: option.split)

lemma upd_net_conn_sel [simp]:
  "n_server (upd_net_conn i f n) = n_server n" "n_os (upd_net_conn i f n) = n_os n"
  "n_write_queue (upd_net_conn i f n) = n_write_queue n" "n_conn_count (upd_net_conn i f n) = n_conn_count n"
  "length (n_conns (upd_net_conn i f n)) = length (n_conns n)" "n_listener (upd_net_conn i f n) = n_listener n"
  "n_next_conn (upd_net_conn i f n) = n_next_conn n" "n_read_size (upd_net_conn i f n) = n_read_size n"
  by (simp_all add: upd_net_conn_def)

lemma upd_stats_sel [simp]:
  "n_server (upd_stats g n) = n_server n" "n_os (upd_stats g n) = n_os n" "n_conns (upd_stats g n) = n_conns n"
  "n_write_queue (upd_stats g n) = n_write_queue n" "n_conn_count (upd_stats g n) = n_conn_count n"
  "n_listener (upd_stats g n) = n_listener n" "n_next_conn (upd_stats g n) = n_next_conn n"
  "n_read_size (upd_stats g n) = n_read_size n" "net_conn (upd_stats g n) i = net_conn n i"
  by (simp_all add: upd_stats_def net_conn_def)

lemma record_sel [simp]:
  "n_server (gs_net_record n what err) = n_server n" "n_os (gs_net_record n what err) = n_os n"
  "n_conns (gs_net_record n what err) = n_conns n" "net_conn (gs_net_record n what err) i = net_conn n i"
  "n_write_queue (gs_net_record n what err) = n_write_queue n" "n_conn_count (gs_net_record n what err) = n_conn_count n"
  "n_listener (gs_net_record n what err) = n_listener n" "n_next_conn (gs_net_record n what err) = n_next_conn n"
  "n_read_size (gs_net_record n what err) = n_read_size n"
  by (simp_all add: gs_net_record_def net_conn_def)

lemma net_conn_upd:
  "net_conn (upd_net_conn k f n) i = (if i = k \<and> k < length (n_conns n) then f (net_conn n k) else net_conn n i)"
  by (cases "k < length (n_conns n)") (auto simp: net_conn_def upd_net_conn_def nth_list_update list_update_beyond)

lemma now_us_sel:
  assumes "gsp_net_now_us n = (now, m)"
  shows "m = n\<lparr>n_os := snd (gs_sys_now_us (n_os n))\<rparr>"
  using assms by (auto simp: gsp_net_now_us_def split: prod.splits)

lemma drop_count:
  "rg_count (s_writes (n_server (gs_net_drop n i cause))) \<le> rg_count (s_writes (n_server n))"
  using connection_closed_count [of "n_server n"]
  by (auto simp: gs_net_drop_def Let_def dest: now_us_sel split: prod.split)

lemma flush_send_sel:
  assumes "flush_send n i left = (r, m)"
  shows "m = n\<lparr>n_os := n_os m\<rparr>"
    "sys_send (nc_sock (net_conn n i))
       (take left (drop (nc_offset (net_conn n i)) (w_data (ring_nth (nc_queue (net_conn n i)) 0)))) (n_os n) = (r, n_os m)"
  using assms by (auto simp: flush_send_def Let_def split: prod.splits)

lemma flush_step_count:
  assumes "flush_step n i = r" "r = Inl m \<or> r = Inr m"
  shows "rg_count (s_writes (n_server m)) \<le> rg_count (s_writes (n_server n))"
  using assms drop_count [of "gs_net_record u what err" i cause for u what err cause]
  by (auto simp: flush_step_def flush_send_def Let_def flush_done_def split: prod.splits sum.splits if_splits
      intro!: order_trans [OF drop_count])

lemma flush_count: "rg_count (s_writes (n_server (gs_net_flush n i))) \<le> rg_count (s_writes (n_server n))"
proof (induction n i rule: gs_net_flush.induct)
  case (1 n i)
  show ?case
    using 1 flush_step_count [OF refl, of n i] by (cases "flush_step n i") (force simp: gs_net_flush.simps [of n i])+
qed

function gs_net_pump :: "gsp_net \<Rightarrow> gsp_net" where
  "gs_net_pump n =
     (if \<not> net_room n then n
      else
        (case gsp_server_poll_writes (n_server n) 1 of
           ([], s) \<Rightarrow> n\<lparr>n_server := s\<rparr>
         | (w # _, s) \<Rightarrow>
             (let n = n\<lparr>n_server := s\<rparr> in
              case gs_net_find n (w_conn w) of
                None \<Rightarrow> gs_net_pump n
              | Some i \<Rightarrow> gs_net_pump (gs_net_flush (net_enqueue n i w) i))))"
  by pat_completeness auto
termination
proof (relation "measure (\<lambda>n. rg_count (s_writes (n_server n)))", goal_cases)
  case (2 n ws s w rest m)
  then show ?case using poll_writes_count [of "n_server n" 0 1 ws s] by (simp add: gsp_server_poll_writes_def)
next
  case (3 n ws s w rest m i)
  then have "rg_count (s_writes (n_server m)) < rg_count (s_writes (n_server n))"
    using poll_writes_count [of "n_server n" 0 1 ws s] by (simp add: gsp_server_poll_writes_def)
  moreover have "rg_count (s_writes (n_server (gs_net_flush (net_enqueue m i w) i))) \<le> rg_count (s_writes (n_server m))"
    using flush_count [of "net_enqueue m i w" i] by (simp add: net_enqueue_def)
  ultimately show ?case by simp
qed simp

declare gs_net_pump.simps [simp del]

section \<open>Reading\<close>

definition net_on_bytes :: "gsp_net \<Rightarrow> nat \<Rightarrow> bytes \<Rightarrow> gsp_status \<times> gsp_net" where
  "net_on_bytes n i data =
     (case gsp_net_now_us n of (now, n) \<Rightarrow>
        (case gsp_server_on_bytes (n_server n) (nc_conn (net_conn n i)) data now of
           (st, s) \<Rightarrow> (st, n\<lparr>n_server := s\<rparr>)))"

text \<open>
  The retries of \<^verbatim>\<open>gs_net_feed\<close>, \<open>left\<close> of them to go: the last status, or \<open>None\<close> when the
  connection went away while its writes were drained.
\<close>

primrec feed_retries :: "nat \<Rightarrow> gsp_status \<Rightarrow> gsp_net \<Rightarrow> nat \<Rightarrow> gsp_status option \<times> gsp_net" where
  "feed_retries 0 st n i = (Some st, n)"
| "feed_retries (Suc left) st n i =
     (if st \<noteq> GSP_ERR_QUEUE_FULL then (Some st, n)
      else
        (let n = gs_net_pump n in
         if \<not> nc_in_use (net_conn n i) then (None, n)
         else (case net_on_bytes n i [] of (st, n) \<Rightarrow> feed_retries left st n i)))"

definition gs_net_feed :: "gsp_net \<Rightarrow> nat \<Rightarrow> bytes \<Rightarrow> gsp_net" where
  "gs_net_feed n i data =
     (case net_on_bytes n i data of (st, n) \<Rightarrow>
        (case feed_retries GS_NET_QUEUE_FULL_RETRIES st n i of
           (None, n) \<Rightarrow> n
         | (Some st, n) \<Rightarrow> upd_net_conn i (\<lambda>c. c\<lparr>nc_resume := (st = GSP_ERR_QUEUE_FULL)\<rparr>) n))"

definition gs_net_read :: "gsp_net \<Rightarrow> nat \<Rightarrow> gsp_net" where
  "gs_net_read n i =
     (case sys_recv (nc_sock (net_conn n i)) (n_read_size n) (n_os n) of (got, os) \<Rightarrow>
        (let n = n\<lparr>n_os := os\<rparr> in
         case got of
           Inl err \<Rightarrow>
             if gs_sys_would_block err then n
             else gs_net_drop (gs_net_record n ''recv'' err) i GSP_CLOSE_TRANSPORT_ERROR
         | Inr bs \<Rightarrow>
             if bs = [] then gs_net_drop n i GSP_CLOSE_REMOTE_CLOSED
             else
               gs_net_feed (upd_stats (\<lambda>st. st\<lparr>ns_reads := ns_reads st + 1,
                 ns_read_bytes := ns_read_bytes st + of_nat (length bs)\<rparr>) n) i bs))"

section \<open>Accepting\<close>

definition gs_net_peer_text :: "(bytes \<times> bytes) option \<Rightarrow> bytes" where
  "gs_net_peer_text name =
     (case name of None \<Rightarrow> [] | Some (host, serv) \<Rightarrow> snprintf GS_NET_PEER_TEXT_MAX (host @ '':'' @ serv))"

text \<open>\<^verbatim>\<open>do id = next_conn++; while (id == GSP_CONN_NONE || id == GSP_CONN_ALL)\<close>: the id and the next one.\<close>

function fresh_id :: "gsp_conn_id \<Rightarrow> gsp_conn_id \<times> gsp_conn_id" where
  "fresh_id next_conn =
     (if next_conn = GSP_CONN_NONE \<or> next_conn = GSP_CONN_ALL then fresh_id (next_conn + 1)
      else (next_conn, next_conn + 1))"
  by pat_completeness auto
termination
  by (relation "measure (\<lambda>c. if c = GSP_CONN_ALL then 2 else if c = GSP_CONN_NONE then 1 else 0)") auto

declare fresh_id.simps [simp del]

definition refuse :: "gsp_net \<Rightarrow> gs_sock \<Rightarrow> gsp_net" where
  "refuse n s = upd_stats (\<lambda>st. st\<lparr>ns_refused := ns_refused st + 1\<rparr>) (n\<lparr>n_os := gs_sys_sock_close s (n_os n)\<rparr>)"

definition note_failure :: "bytes \<Rightarrow> gs_errno option \<Rightarrow> gsp_net \<Rightarrow> gsp_net" where
  "note_failure what failure n = (case failure of None \<Rightarrow> n | Some err \<Rightarrow> gs_net_record n what err)"

definition fill_slot :: "gs_sock \<Rightarrow> gsp_conn_id \<Rightarrow> gs_net_conn \<Rightarrow> gs_net_conn" where
  "fill_slot s cid c =
     c\<lparr>nc_sock := s, nc_conn := cid, nc_in_use := True, nc_want_write := False, nc_offset := 0,
       nc_queue := (nc_queue c)\<lparr>rg_head := 0, rg_count := 0\<rparr>\<rparr>"

text \<open>One turn of the loop of \<^verbatim>\<open>gs_net_accept\<close>, with the socket \<^verbatim>\<open>accept\<close> returned.\<close>

definition accept_one :: "gsp_net \<Rightarrow> gs_incoming \<Rightarrow> gsp_net" where
  "accept_one n a =
     (if FD_SETSIZE \<le> a_sock a then
        (refuse n (a_sock a))\<lparr>n_error := snprintf GSP_NET_ERROR_MAX
           (''accept: descriptor '' @ fmt_int (a_sock a) @ '' is beyond FD_SETSIZE ('' @ fmt_int FD_SETSIZE @
            ''); this select() transport cannot watch it'')\<rparr>
      else
        (case find (\<lambda>i. \<not> nc_in_use (net_conn n i)) [0..<length (n_conns n)] of
           None \<Rightarrow>
             (refuse n (a_sock a))\<lparr>n_error := snprintf GSP_NET_ERROR_MAX
                (''accept: this transport already holds '' @ fmt_int (int (length (n_conns n))) @ '' socket(s)'')\<rparr>
         | Some i \<Rightarrow>
             (case fresh_id (n_next_conn n) of (cid, next_conn) \<Rightarrow>
                (let n = n\<lparr>n_next_conn := next_conn\<rparr>; peer = gs_net_peer_text (a_name a) in
                 case gsp_net_now_us n of (now, n) \<Rightarrow>
                   (case gsp_server_on_connection_opened (n_server n) cid
                           (if peer \<noteq> [] then Some peer else None) now of (st, s) \<Rightarrow>
                      (let n = n\<lparr>n_server := s\<rparr> in
                       if failed st then refuse n (a_sock a)
                       else
                         (let n = note_failure ''set nonblocking'' (a_nonblocking a) n;
                              n = (if n_allow_nagle n then n else note_failure ''TCP_NODELAY'' (a_nodelay a) n);
                              n = upd_net_conn i (fill_slot (a_sock a) cid) n
                          in upd_stats (\<lambda>st. st\<lparr>ns_accepted := ns_accepted st + 1\<rparr>)
                               (n\<lparr>n_conn_count := n_conn_count n + 1\<rparr>))))))))"

lemma note_failure_sel [simp]:
  "n_server (note_failure what failure n) = n_server n" "n_os (note_failure what failure n) = n_os n"
  "n_conns (note_failure what failure n) = n_conns n" "net_conn (note_failure what failure n) i = net_conn n i"
  "n_write_queue (note_failure what failure n) = n_write_queue n"
  "n_conn_count (note_failure what failure n) = n_conn_count n"
  "n_listener (note_failure what failure n) = n_listener n" "n_next_conn (note_failure what failure n) = n_next_conn n"
  "n_read_size (note_failure what failure n) = n_read_size n"
  by (simp_all add: note_failure_def split: option.split)

lemma accept_one_accepts: "os_accepts (n_os (accept_one n a)) = os_accepts (n_os n)"
  by (simp add: accept_one_def Let_def refuse_def split: option.split prod.split)
    (auto dest!: now_us_sel)

text \<open>The listener does not block: the loop ends with the connections that are waiting.\<close>

function gs_net_accept :: "gsp_net \<Rightarrow> gsp_net" where
  "gs_net_accept n =
     (case sys_accept (n_os n) of
        (Inl err, os) \<Rightarrow>
          (let n = n\<lparr>n_os := os\<rparr> in if gs_sys_would_block err then n else gs_net_record n ''accept'' err)
      | (Inr a, os) \<Rightarrow> gs_net_accept (accept_one (n\<lparr>n_os := os\<rparr>) a))"
  by pat_completeness auto
termination
  by (relation "measure (\<lambda>n. length (os_accepts (n_os n)))")
    (auto simp: accept_one_accepts dest: sys_accept_Inr(5) [OF sym])

declare gs_net_accept.simps [simp del]

section \<open>Open\<close>

text \<open>
  What the platform answers about one address of the list \<^verbatim>\<open>getaddrinfo\<close> returned: the
  descriptor of \<^verbatim>\<open>socket\<close> (with its error when it is \<^verbatim>\<open>-1\<close>), how \<^verbatim>\<open>bind\<close> and
  \<^verbatim>\<open>listen\<close> fail, if they do, and the port \<^verbatim>\<open>getsockname\<close> reports (\<open>None\<close> when it
  fails or the family is neither IPv4 nor IPv6). \<^verbatim>\<open>setsockopt\<close>'s result is not looked at.
\<close>

record gs_address =
  ad_socket :: gs_sock
  ad_errno :: gs_errno
  ad_bind :: "gs_errno option"
  ad_listen :: "gs_errno option"
  ad_name :: "u16 option"

record gs_resolved =
  rs_rc :: int
  rs_text :: bytes
  rs_list :: "gs_address list"

abbreviation (input) sys_socket :: "gs_sock \<Rightarrow> gs_os \<Rightarrow> gs_os" where
  "sys_socket s os \<equiv> os\<lparr>os_open := s # os_open os\<rparr>"

text \<open>The loop over the addresses: the socket, the bound port, the last error noted.\<close>

primrec bind_loop ::
  "gs_address list \<Rightarrow> bytes \<Rightarrow> u16 \<Rightarrow> bool \<Rightarrow> int \<Rightarrow> bytes \<Rightarrow> gs_os \<Rightarrow> gs_sock \<times> u16 \<times> bytes \<times> gs_os" where
  "bind_loop [] host port reuse backlog error os = (GS_SOCK_INVALID, 0, error, os)"
| "bind_loop (ai # rest) host port reuse backlog error os =
     (let s = ad_socket ai;
          what = snprintf 96 (''bind '' @ host @ '':'' @ fmt_int (uint port)) in
      if s = GS_SOCK_INVALID then
        bind_loop rest host port reuse backlog (gs_net_note GSP_NET_ERROR_MAX ''socket'' (ad_errno ai)) os
      else
        (let os = (sys_socket s os)\<lparr>os_binds := os_binds os @ [(host, port, reuse, backlog)]\<rparr> in
         case ad_bind ai of
           Some err \<Rightarrow>
             bind_loop rest host port reuse backlog (gs_net_note GSP_NET_ERROR_MAX what err) (gs_sys_sock_close s os)
         | None \<Rightarrow>
             (case ad_listen ai of
                Some err \<Rightarrow>
                  (let what = snprintf 96 (''listen '' @ host @ '':'' @ fmt_int (uint port)) in
                   bind_loop rest host port reuse backlog (gs_net_note GSP_NET_ERROR_MAX what err) (gs_sys_sock_close s os))
              | None \<Rightarrow> (s, (case ad_name ai of Some p \<Rightarrow> p | None \<Rightarrow> port), error, os))))"

definition gs_net_bind ::
  "bytes \<Rightarrow> u16 \<Rightarrow> bool \<Rightarrow> int \<Rightarrow> gs_resolved \<Rightarrow> gs_os \<Rightarrow> gs_sock \<times> u16 \<times> bytes \<times> gs_os" where
  "gs_net_bind host port reuse backlog rs os =
     (if rs_rc rs \<noteq> 0 \<or> rs_list rs = []
      then (GS_SOCK_INVALID, 0, snprintf GSP_NET_ERROR_MAX (''resolve '' @ host @ '': '' @ rs_text rs), os)
      else bind_loop (rs_list rs) host port reuse backlog [] os)"

definition zero_net_stats :: gsp_net_stats where
  "zero_net_stats = \<lparr>ns_accepted = 0, ns_refused = 0, ns_reads = 0, ns_read_bytes = 0, ns_writes = 0,
     ns_sends = 0, ns_partial_writes = 0, ns_write_bytes = 0, ns_polls = 0, ns_max_write_bytes = 0\<rparr>"

definition empty_slot :: "nat \<Rightarrow> gs_net_conn" where
  "empty_slot write_queue = \<lparr>nc_sock = GS_SOCK_INVALID, nc_conn = 0, nc_in_use = False,
     nc_want_write = False, nc_resume = False, nc_offset = 0, nc_queue = new_ring write_queue zero_write\<rparr>"

text \<open>
  \<^verbatim>\<open>gsp_net_open\<close>. A \<open>None\<close> server or configuration is the NULL pointer; \<open>rs\<close> is what
  the resolver and the sockets answer, \<open>refused\<close> how many bytes the allocator refused (if it
  did), \<open>nonblocking\<close> how making the listener non-blocking fails (if it does), \<open>error_size\<close>
  the size of the caller's buffer (\<open>None\<close>: NULL). It gives the status, the transport, the text
  left in the buffer and the system.
\<close>

definition gsp_net_open ::
  "gsp_server option \<Rightarrow> gsp_net_config option \<Rightarrow> gs_resolved \<Rightarrow> nat option \<Rightarrow> gs_errno option \<Rightarrow> nat option \<Rightarrow>
   gs_os \<Rightarrow> gsp_status \<times> gsp_net option \<times> bytes option \<times> gs_os" where
  "gsp_net_open server config rs refused nonblocking error_size os =
     (let say = (\<lambda>text. map_option (\<lambda>k. snprintf k text) error_size) in
      case server of
        None \<Rightarrow> (GSP_ERR_INVALID_ARG, None, say [], os)
      | Some s \<Rightarrow>
          (let cfg = (case config of Some c \<Rightarrow> c | None \<Rightarrow> gsp_net_config_default);
               max_conns = (if nf_max_connections cfg \<noteq> 0 then nf_max_connections cfg else GS_NET_MAX_CONNS_DEFAULT);
               write_queue = (if nf_write_queue cfg \<noteq> 0 then nf_write_queue cfg else GS_NET_WRITE_QUEUE_DEFAULT);
               read_size = (if nf_read_buffer cfg \<noteq> 0 then nf_read_buffer cfg else GS_NET_READ_DEFAULT);
               port = (if nf_ephemeral_port cfg then 0 else if nf_port cfg \<noteq> 0 then nf_port cfg else GSP_DEFAULT_PORT)
           in if FD_SETSIZE < uint max_conns + 1
              then (GSP_ERR_INVALID_ARG, None,
                    say (''max_connections '' @ fmt_int (uint max_conns) @ '' does not fit select()'' @ [CHR 0x27] @
                         ''s FD_SETSIZE ('' @ fmt_int FD_SETSIZE @ '')''), os)
              else
                (case refused of
                   Some asked \<Rightarrow>
                     (GSP_ERR_NO_MEMORY, None, say (''out of memory ('' @ fmt_int (int asked) @ '' bytes)''), os)
                 | None \<Rightarrow>
                     (let host = (case nf_host cfg of None \<Rightarrow> ''0.0.0.0'' | Some h \<Rightarrow> if h = [] then ''0.0.0.0'' else h);
                          backlog = (if nf_backlog cfg \<noteq> 0 then uint (nf_backlog cfg) else GS_NET_BACKLOG_DEFAULT)
                      in case gs_net_bind host port (nf_reuse_address cfg) backlog rs os of
                           (listener, bound, local_error, os) \<Rightarrow>
                             if listener = GS_SOCK_INVALID
                             then (GSP_ERR_INVALID_STATE, None, say local_error, os)
                             else
                               (case nonblocking of
                                  Some err \<Rightarrow>
                                    (GSP_ERR_INVALID_STATE, None,
                                     say (gs_net_note GSP_NET_ERROR_MAX ''set nonblocking'' err),
                                     gs_sys_sock_close listener os)
                                | None \<Rightarrow>
                                    (GSP_OK,
                                     Some \<lparr>n_server = s, n_os = os, n_listener = listener, n_port = bound,
                                       n_write_queue = unat write_queue, n_conn_count = 0,
                                       n_read_size = unat read_size, n_allow_nagle = nf_allow_nagle cfg,
                                       n_next_conn = 1, n_stats = zero_net_stats, n_error = [],
                                       n_conns = replicate (unat max_conns) (empty_slot (unat write_queue))\<rparr>,
                                     say [], os))))))"

text \<open>\<^verbatim>\<open>gsp_net_close\<close>: what is left is the caller's server and the system.\<close>

definition drop_all :: "gsp_net \<Rightarrow> gsp_net" where
  "drop_all n = fold (\<lambda>i n. gs_net_drop n i GSP_CLOSE_LOCAL_REQUEST) [0..<length (n_conns n)] n"

definition gsp_net_close :: "gsp_net \<Rightarrow> gsp_server \<times> gs_os" where
  "gsp_net_close n =
     (let n = drop_all n in (n_server n, gs_sys_sock_close (n_listener n) (n_os n)))"

section \<open>The pass\<close>

text \<open>How long \<^verbatim>\<open>select\<close> may wait, in microseconds; negative waits without a limit.\<close>

definition net_wait_us :: "int \<Rightarrow> gsp_time_us \<Rightarrow> gsp_time_us \<Rightarrow> int" where
  "net_wait_us timeout_ms due now =
     (let wait_us = (if timeout_ms < 0 then -1 else timeout_ms * 1000) in
      if due \<noteq> GSP_TIME_NEVER then
        (let until = (if now < due then due - now else 0) in
         if wait_us < 0 \<or> until < wait_us then until else wait_us)
      else wait_us)"

text \<open>The descriptors asked about, the wait, and the descriptors that are ready (none on an error).\<close>

definition net_select :: "gsp_net \<Rightarrow> int \<Rightarrow> gs_sock list \<times> gs_sock list \<times> gsp_net" where
  "net_select n timeout_ms =
     (let used = filter nc_in_use (n_conns n);
          readers = n_listener n # map nc_sock used;
          writers = map nc_sock (filter nc_want_write used)
      in case gsp_net_now_us n of (now, n) \<Rightarrow>
        (let wait_us = net_wait_us timeout_ms (gsp_server_next_due_us (n_server n)) now;
             tv = (if wait_us < 0 then None else Some (gs_sys_timeval_set wait_us))
         in case sys_select readers writers tv (n_os n) of
              (Select_ready rs ws, os) \<Rightarrow> (rs, ws, n\<lparr>n_os := os\<rparr>)
            | (Select_failed err, os) \<Rightarrow>
                (let n = n\<lparr>n_os := os\<rparr> in
                 ([], [], if gs_sys_would_block err then n else gs_net_record n ''select'' err))))"

text \<open>The turn of one connection: its queue first, then one read.\<close>

definition net_serve :: "gs_sock list \<Rightarrow> gs_sock list \<Rightarrow> nat \<Rightarrow> gsp_net \<Rightarrow> gsp_net" where
  "net_serve rs ws i n =
     (let s = nc_sock (net_conn n i) in
      if \<not> nc_in_use (net_conn n i) then n
      else
        (let n = (if s \<in> set ws then gs_net_flush n i else n) in
         if nc_in_use (net_conn n i) \<and> s \<in> set rs then gs_net_read n i else n))"

definition net_tick :: "gsp_net \<Rightarrow> gsp_net" where
  "net_tick n =
     (case gsp_net_now_us n of (now, n) \<Rightarrow>
        (let due = gsp_server_next_due_us (n_server n) in
         if due \<noteq> GSP_TIME_NEVER \<and> due \<le> now then n\<lparr>n_server := gsp_server_tick (n_server n) now\<rparr> else n))"

definition net_resume :: "nat \<Rightarrow> gsp_net \<Rightarrow> gsp_net" where
  "net_resume i n =
     (if nc_in_use (net_conn n i) \<and> nc_resume (net_conn n i) then gs_net_feed n i [] else n)"

text \<open>The three loops of the pass: \<open>ready > 0\<close> is that a descriptor is in one of the two sets.\<close>

definition net_accept_ready :: "gs_sock list \<Rightarrow> gs_sock list \<Rightarrow> gsp_net \<Rightarrow> gsp_net" where
  "net_accept_ready rs ws n =
     (if 0 < length rs + length ws \<and> n_listener n \<in> set rs then gs_net_accept n else n)"

definition net_serve_all :: "gs_sock list \<Rightarrow> gs_sock list \<Rightarrow> gsp_net \<Rightarrow> gsp_net" where
  "net_serve_all rs ws n =
     (if 0 < length rs + length ws then fold (net_serve rs ws) [0..<length (n_conns n)] n else n)"

definition net_resume_all :: "gsp_net \<Rightarrow> gsp_net" where
  "net_resume_all n = fold net_resume [0..<length (n_conns n)] n"

definition gsp_net_poll :: "gsp_net \<Rightarrow> int \<Rightarrow> gsp_status \<times> gsp_net" where
  "gsp_net_poll n timeout_ms =
     (case net_select (upd_stats (\<lambda>st. st\<lparr>ns_polls := ns_polls st + 1\<rparr>) n) timeout_ms of (rs, ws, n) \<Rightarrow>
        (GSP_OK, net_resume_all (gs_net_pump (net_tick (net_serve_all rs ws (net_accept_ready rs ws n))))))"

definition gsp_net_close_connection :: "gsp_net \<Rightarrow> gsp_conn_id \<Rightarrow> gsp_status \<times> gsp_net" where
  "gsp_net_close_connection n cid =
     (case gs_net_find n cid of
        None \<Rightarrow> (GSP_ERR_UNKNOWN_CONNECTION, n)
      | Some i \<Rightarrow> (GSP_OK, gs_net_drop n i GSP_CLOSE_LOCAL_REQUEST))"

section \<open>Introspection\<close>

definition gsp_net_port :: "gsp_net \<Rightarrow> u16" where
  "gsp_net_port n = n_port n"

definition gsp_net_error :: "gsp_net \<Rightarrow> bytes" where
  "gsp_net_error n = n_error n"

definition gsp_net_connection_count :: "gsp_net \<Rightarrow> nat" where
  "gsp_net_connection_count n = unat (n_conn_count n)"

definition gsp_net_get_stats :: "gsp_net \<Rightarrow> gsp_net_stats" where
  "gsp_net_get_stats n = n_stats n"

end
