(* ===== verification/ServerLinks.thy ===== *)
theory ServerLinks
  imports ServerPoll
begin

text \<open>
  What a transport relies on: which calls of the server leave its connections alone, and that
  what is queued for a connection is only ever added to at the end until it is polled.
\<close>

section \<open>Who is connected\<close>

definition seats :: "gsp_server \<Rightarrow> (bool \<times> gsp_conn_id) list \<times> bool" where
  "seats s = (map (\<lambda>c. (c_used c, ci_conn (c_info c))) (s_conns s), s_closed s)"

lemma seats_upd:
  assumes "\<And>c. c_used (f c) = c_used c \<and> ci_conn (c_info (f c)) = ci_conn (c_info c)"
  shows "seats (upd_conn i f s) = seats s"
proof (cases "i < length (s_conns s)")
  case True
  then show ?thesis by (simp add: seats_def upd_conn_def map_update assms conn_def list_update_same_conv)
qed (simp add: seats_def upd_conn_def list_update_beyond)

lemma seats_rx_side: "(\<And>c. rx_side (f c) = rx_side c) \<Longrightarrow> seats (upd_conn i f s) = seats s"
  by (rule seats_upd) (simp add: rx_side_def)

lemma seats_core: "s_conns t = s_conns s \<Longrightarrow> s_closed t = s_closed s \<Longrightarrow> seats t = seats s"
  by (simp add: seats_def)

lemma seats_queue_write: "seats (snd (queue_write s cid kind code message player)) = seats s"
  by (simp add: seats_def queue_write_def Let_def split: prod.split)

interpretation seated: server_feed "\<lambda>s t. seats t = seats s"
  by unfold_locales (auto intro: seats_core seats_upd seats_rx_side seats_queue_write)

interpretation seated_out: server_out "\<lambda>s t. seats t = seats s"
  by unfold_locales (auto intro: seats_core seats_upd)

lemma seats_open:
  assumes "seats t = seats s"
  shows "is_open t cid = is_open s cid" "s_closed t = s_closed s"
proof -
  have l: "length (s_conns t) = length (s_conns s)"
    using arg_cong [OF assms, of "length \<circ> fst"] by (simp add: seats_def)
  then have "c_used (conn t i) = c_used (conn s i) \<and> conn_id t i = conn_id s i" if "i < length (s_conns s)" for i
    using arg_cong [OF assms, of "\<lambda>p. fst p ! i"] that by (simp add: seats_def conn_def)
  with l have "live t i = live s i \<and> (live s i \<longrightarrow> conn_id t i = conn_id s i)" for i by (auto simp: live_def)
  then show "is_open t cid = is_open s cid" unfolding is_open_iff by metis
  show "s_closed t = s_closed s" using arg_cong [OF assms, of snd] by (simp add: seats_def)
qed

section \<open>What is queued for a connection\<close>

text \<open>The writes of one connection in the ring, in order.\<close>

definition queued_for :: "gsp_server \<Rightarrow> gsp_conn_id \<Rightarrow> gsp_write_request list" where
  "queued_for s cid = filter (\<lambda>w. w_conn w = cid) (ring_items (s_writes s))"

definition grows :: "gsp_server \<Rightarrow> gsp_server \<Rightarrow> bool" where
  "grows s t \<longleftrightarrow>
     (out_inv s \<longrightarrow> out_inv t \<and>
        (\<forall>cid. is_open s cid \<longrightarrow> is_open t cid \<and> (\<exists>ws. queued_for t cid = queued_for s cid @ ws)))"

lemma grows_same:
  assumes "s_conns t = s_conns s" "s_writes t = s_writes s"
  shows "grows s t"
  using out_step_same [OF assms] is_open_conns [OF assms(1)] assms(2)
  by (simp add: grows_def out_step_def queued_for_def)

lemma grows_trans: "grows s t \<Longrightarrow> grows t u \<Longrightarrow> grows s u"
  unfolding grows_def by (metis append_assoc)

lemma grows_upd_conn:
  "(\<And>c. c_used (f c) = c_used c \<and> ci_conn (c_info (f c)) = ci_conn (c_info c)) \<Longrightarrow> grows s (upd_conn i f s)"
  using out_step_upd_conn [of f s i] conn_id_upd_conn(3) [of f]
  by (simp add: grows_def out_step_def queued_for_def)

lemma grows_queue:
  assumes "live s i" "code_of_kind kind = code"
  shows "grows s (snd (queue_write s (conn_id s i) kind code message player))"
proof -
  have "\<exists>ws. queued_for (snd (queue_write s cid kind code message player)) d = queued_for s d @ ws"
    if "out_inv s" for cid d
    using that ring_put_items [of "s_writes s"]
    by (auto simp: queue_write_eq [OF that assms(2)] queued_for_def out_inv_def write_ring_full_def)
  then show ?thesis
    using out_step_queue [OF assms, of message player] is_open_conns [OF queue_write_conns]
    by (simp add: grows_def out_step_def)
qed

lemma grows_open:
  assumes "find_conn s cid = None" "cid \<noteq> 0" "cid \<noteq> 0xffffffff" "i < length (s_conns s)" "\<not> c_used (conn s i)"
  shows "grows s (upd_conn i (\<lambda>c. open_slot cid peer now) s)"
proof -
  define t where "t = upd_conn i (\<lambda>c. open_slot cid peer now) s"
  have "live t k \<and> conn_id t k = conn_id s k" if "live s k" for k
    using that assms(5) by (auto simp: t_def live_def conn_upd_conn)
  then have "is_open t d" if "is_open s d" for d using that unfolding is_open_iff by metis
  then show ?thesis
    using out_step_open [OF assms, of peer now]
    by (simp add: grows_def out_step_def t_def [symmetric]) (simp add: t_def queued_for_def)
qed

interpretation appends: server_opens grows
proof unfold_locales
  show "grows s (upd_conn i f s)" if "\<And>c. rx_side (f c) = rx_side c \<and> c_next_write_us (f c) = c_next_write_us c" for f s i
    by (rule grows_upd_conn) (use that in \<open>simp add: rx_side_def\<close>)
qed (auto intro: grows_same grows_queue grows_open grows_trans grows_upd_conn)

section \<open>The calls of a transport\<close>

lemma opened_link:
  assumes inv: "server_inv s" and op: "gsp_server_on_connection_opened s cid peer now = (st, t)"
  shows "server_inv t \<and> s_closed t = s_closed s \<and>
    (if failed st then t = s
     else \<not> s_closed s \<and> \<not> is_open s cid \<and> (\<forall>d. is_open t d \<longleftrightarrow> d = cid \<or> is_open s d)) \<and>
    (\<forall>d. is_open s d \<longrightarrow> (\<exists>ws. queued_for t d = queued_for s d @ ws))"
proof -
  have t: "server_inv t" using call_inv [OF inv, of "On_opened cid peer now"] op by simp
  have gr: "grows s t" using appends.opened_ok [of s cid peer now] op by simp
  then have q: "\<forall>d. is_open s d \<longrightarrow> (\<exists>ws. queued_for t d = queued_for s d @ ws)"
    using inv by (simp add: grows_def server_inv_def)
  show ?thesis
  proof (cases "failed st")
    case True
    with op have "t = s"
      by (auto simp: gsp_server_on_connection_opened_def failed_def split: if_splits option.splits)
    then show ?thesis using inv True q by simp
  next
    case False
    note opd = op [unfolded gsp_server_on_connection_opened_def]
    have g: "\<not> s_closed s" "cid \<noteq> GSP_CONN_NONE" "cid \<noteq> GSP_CONN_ALL" "find_conn s cid = None"
      using opd False by (cases "s_closed s"; force simp: failed_def split: if_split_asm)+
    then obtain i where i: "find (\<lambda>i. \<not> c_used (conn s i)) (slots s) = Some i"
      using opd False by (cases "find (\<lambda>i. \<not> c_used (conn s i)) (slots s)") (simp_all add: failed_def)
    with g opd have i4: "t = greet (upd_conn i (\<lambda>c. open_slot cid peer now) (s\<lparr>s_now_us := now\<rparr>)) i now" by simp
    define u where "u = upd_conn i (\<lambda>c. open_slot cid peer now) (s\<lparr>s_now_us := now\<rparr>)"
    have il: "i < length (s_conns s)" "\<not> c_used (conn s i)"
      using find_SomeD [OF i] by (simp_all add: slots_def)
    have cn: "conn (s\<lparr>s_now_us := now\<rparr>) = conn s" by (simp add: conn_def fun_eq_iff)
    have u: "live u k \<longleftrightarrow> k = i \<or> live s k" "conn_id u k = (if k = i then cid else conn_id s k)" for k
      using il by (auto simp: u_def live_def conn_upd_conn open_slot_def cn)
    have "seats t = seats u"
      unfolding i4 u_def [symmetric] by (rule seated.then_greet) (simp_all add: u)
    from seats_open [OF this] have st: "is_open t d = is_open u d" "s_closed t = s_closed u" for d by simp_all
    have "is_open u d \<longleftrightarrow> d = cid \<or> is_open s d" for d
      unfolding is_open_iff u using il by (auto simp: live_def)
    then show ?thesis using t q g False st by (simp add: is_open_def u_def)
  qed
qed

lemma bytes_link:
  assumes inv: "server_inv s" and "gsp_server_on_bytes s cid data now = (st, t)"
  shows "server_inv t \<and> seats t = seats s \<and>
    (\<forall>d. is_open s d \<longrightarrow> (\<exists>ws. queued_for t d = queued_for s d @ ws))"
  using call_inv [OF inv, of "On_bytes cid data now"] appends.bytes_ok [of s cid data now]
    seated.bytes_ok [of s cid data now] inv assms(2)
  by (simp add: grows_def server_inv_def)

lemma tick_link:
  assumes inv: "server_inv s"
  shows "server_inv (gsp_server_tick s now) \<and> seats (gsp_server_tick s now) = seats s \<and>
    (\<forall>d. is_open s d \<longrightarrow> (\<exists>ws. queued_for (gsp_server_tick s now) d = queued_for s d @ ws))"
  using call_inv [OF inv, of "Tick now"] appends.tick_ok [of s now] seated.tick_ok [of s now] inv
  by (simp add: grows_def server_inv_def)

lemma closed_link:
  assumes inv: "server_inv s" and t: "t = snd (gsp_server_on_connection_closed s cid cause now)"
  shows "server_inv t \<and> s_closed t = s_closed s \<and>
    (if s_closed s then t = s else \<forall>d. is_open t d \<longleftrightarrow> d \<noteq> cid \<and> is_open s d) \<and>
    (\<forall>d. d \<noteq> cid \<longrightarrow> queued_for t d = queued_for s d)"
proof -
  have o: "out_inv s" using inv by (simp add: server_inv_def)
  have si: "server_inv t" using call_inv [OF inv, of "On_closed cid cause now"] t by simp
  show ?thesis
  proof (cases "s_closed s \<or> find_conn s cid = None")
    case True
    then have "t = s" by (auto simp: t gsp_server_on_connection_closed_def)
    then show ?thesis using True inv by (auto simp: is_open_def)
  next
    case False
    then obtain i where i: "\<not> s_closed s" "find_conn s cid = Some i" by auto
    note f = connection_closed_found [OF o i t]
    have "s_closed t = s_closed s"
      using i by (simp add: t gsp_server_on_connection_closed_def end_conn_def drop_writes_for_def)
    moreover have "queued_for t d = queued_for s d" if "d \<noteq> cid" for d
      using f that by (auto simp: queued_for_def intro: filter_cong)
    ultimately show ?thesis using f si i by auto
  qed
qed

lemma poll_link:
  assumes inv: "server_inv s" and p: "gsp_server_poll_writes s 1 = (ws, t)"
  shows "server_inv t \<and> seats t = seats s \<and>
    (\<forall>cid. queued_for s cid = filter (\<lambda>w. w_conn w = cid) ws @ queued_for t cid) \<and>
    (\<forall>w \<in> set ws. write_ok w \<and> length (w_data w) = 256 \<and> is_open s (w_conn w)) \<and>
    (ws = [] \<or> (\<exists>w. ws = [w])) \<and>
    (ws = [] \<longrightarrow> (\<forall>w \<in> set (ring_items (s_writes t)). held_back t (w_conn w)))"
proof -
  have o: "out_inv s" "ring_ok (s_writes s)" using inv by (simp_all add: server_inv_def out_inv_def)
  have "server_inv t" using call_inv [OF inv, of "Poll_writes 1"] p by simp
  moreover have "seats t = seats s"
    using seated_out.poll_writes_ok [of s 0 1] p by (simp add: gsp_server_poll_writes_def)
  moreover note ord = poll_writes_loop_order [OF o(2), of 0 1 ws t, simplified, OF p [unfolded gsp_server_poll_writes_def One_nat_def]]
  have q: "queued_for s cid = filter (\<lambda>w. w_conn w = cid) ws @ queued_for t cid" for cid
    using ord by (simp add: queued_for_def)
  moreover have "write_ok w \<and> length (w_data w) = 256 \<and> is_open s (w_conn w)" if "w \<in> set ws" for w
  proof -
    have "w \<in> set (queued_for s (w_conn w))" using q [of "w_conn w"] that by simp
    then have "w \<in> set (ring_items (s_writes s))" by (simp add: queued_for_def)
    moreover from this have "w \<in> set (rg_slots (s_writes s))"
      using ring_nth_in_slots [OF o(2)] by (auto simp: ring_items_def)
    ultimately show ?thesis using o(1) by (simp add: out_inv_def)
  qed
  moreover have "ws = [] \<or> (\<exists>w. ws = [w])" using ord by (cases ws) (auto simp: le_Suc_eq)
  ultimately show ?thesis using ord by auto
qed

lemma close_link:
  assumes inv: "server_inv s" and op: "s_closed s \<Longrightarrow> \<forall>d. \<not> is_open s d"
  shows "server_inv (gsp_server_close s) \<and> s_closed (gsp_server_close s) \<and> (\<forall>d. \<not> is_open (gsp_server_close s) d)"
proof -
  have "live (gsp_server_close s) k = False" if "\<not> s_closed s" for k
    using for_conns_end [of GSP_CLOSE_SERVER_CLOSED s k] that by (simp add: gsp_server_close_def live_def conn_def)
  then have "\<forall>d. \<not> is_open (gsp_server_close s) d"
    using op by (cases "s_closed s") (auto simp: is_open_iff gsp_server_close_def)
  then show ?thesis using call_inv [OF inv, of Close] by (simp add: gsp_server_close_def)
qed

end
