(* ===== verification/NetRun.thy ===== *)
theory NetRun
  imports Net ServerLinks
begin

text \<open>
  The transport keeps its books: the invariant of \<open>gsp_net\<close>, that its table and the server's
  agree on who is connected, and that the bytes each client gets are its replies, whole, once
  and in the order the server queued them.
\<close>

section \<open>The invariant\<close>

definition used :: "gsp_net \<Rightarrow> nat \<Rightarrow> bool" where
  "used n i \<longleftrightarrow> i < length (n_conns n) \<and> nc_in_use (net_conn n i)"

abbreviation sock_of :: "gsp_net \<Rightarrow> nat \<Rightarrow> gs_sock" where
  "sock_of n i \<equiv> nc_sock (net_conn n i)"

abbreviation id_of :: "gsp_net \<Rightarrow> nat \<Rightarrow> gsp_conn_id" where
  "id_of n i \<equiv> nc_conn (net_conn n i)"

abbreviation backlog_of :: "gs_net_conn \<Rightarrow> gsp_write_request list" where
  "backlog_of c \<equiv> ring_items (nc_queue c)"

definition slot_ok :: "nat \<Rightarrow> gs_net_conn \<Rightarrow> bool" where
  "slot_ok cap c \<longleftrightarrow>
     ring_ok (nc_queue c) \<and> ring_cap (nc_queue c) = cap \<and>
     (\<forall>w \<in> set (backlog_of c). write_ok w \<and> length (w_data w) = 256 \<and> w_conn w = nc_conn c) \<and>
     (if backlog_of c = [] then nc_offset c = 0 else nc_offset c < unat (w_length (hd (backlog_of c)))) \<and>
     (\<not> nc_in_use c \<longrightarrow> backlog_of c = [] \<and> \<not> nc_want_write c \<and> \<not> nc_resume c)"

text \<open>Every connection in the server is in the table, and the other way round until the server is closed.\<close>

definition linked :: "gsp_net \<Rightarrow> bool" where
  "linked n \<longleftrightarrow>
     (if s_closed (n_server n) then \<forall>cid. \<not> is_open (n_server n) cid
      else \<forall>cid. is_open (n_server n) cid \<longleftrightarrow> (\<exists>i. used n i \<and> id_of n i = cid))"

definition table_ok :: "gsp_net \<Rightarrow> bool" where
  "table_ok n \<longleftrightarrow>
     n_conn_count n = of_nat (length (filter nc_in_use (n_conns n))) \<and>
     length (n_conns n) < 1024 \<and> n_listener n \<in> set (os_open (n_os n)) \<and> n_listener n \<noteq> GS_SOCK_INVALID \<and>
     (\<forall>i k. used n i \<longrightarrow> used n k \<longrightarrow> (id_of n i = id_of n k \<or> sock_of n i = sock_of n k) \<longrightarrow> i = k) \<and>
     (\<forall>i. used n i \<longrightarrow> sock_of n i \<in> set (os_open (n_os n)) \<and> 0 \<le> sock_of n i \<and> sock_of n i < 1024 \<and>
        sock_of n i \<noteq> n_listener n)"

definition net_base :: "gsp_net \<Rightarrow> bool" where
  "net_base n \<longleftrightarrow> server_inv (n_server n) \<and> table_ok n \<and> linked n \<and>
     (\<forall>i < length (n_conns n). slot_ok (n_write_queue n) (net_conn n i))"

text \<open>The connections with something to send that \<^verbatim>\<open>select\<close> would not be asked about.\<close>

definition unwatched :: "gsp_net \<Rightarrow> nat set" where
  "unwatched n = {i. used n i \<and> backlog_of (net_conn n i) \<noteq> [] \<and> \<not> nc_want_write (net_conn n i)}"

definition net_inv :: "gsp_net \<Rightarrow> bool" where
  "net_inv n \<longleftrightarrow> net_base n \<and> unwatched n = {}"

section \<open>Streams\<close>

abbreviation texts :: "gsp_write_request list \<Rightarrow> bytes" where
  "texts ws \<equiv> concat (map reply_of ws)"

text \<open>
  What waits for a connection: its queue, then what the server still holds for it. \<open>delivered n i ws\<close>:
  the kernel took the replies \<open>ws\<close> whole, and of the one at the head of the queue what its offset says.
\<close>

definition waiting :: "gsp_net \<Rightarrow> nat \<Rightarrow> gsp_write_request list" where
  "waiting n i = backlog_of (net_conn n i) @ queued_for (n_server n) (id_of n i)"

definition delivered :: "gsp_net \<Rightarrow> nat \<Rightarrow> gsp_write_request list \<Rightarrow> bool" where
  "delivered n i ws \<longleftrightarrow> os_out (n_os n) (sock_of n i) =
     texts ws @ take (nc_offset (net_conn n i)) (texts (backlog_of (net_conn n i)))"

text \<open>Replies pass from waiting to sent, in their order, or stay where they are.\<close>

definition passed :: "gsp_net \<Rightarrow> gsp_net \<Rightarrow> nat \<Rightarrow> bool" where
  "passed n m i \<longleftrightarrow> (\<forall>ws. delivered n i ws \<longrightarrow> (\<exists>us. delivered m i (ws @ us) \<and> us @ waiting m i = waiting n i))"

definition replies_to :: "gsp_conn_id \<Rightarrow> gsp_write_request list \<Rightarrow> bool" where
  "replies_to cid ws \<longleftrightarrow> (\<forall>w \<in> set ws. write_ok w \<and> w_conn w = cid)"

lemma replies_to_simps [simp]: "replies_to cid []" "replies_to cid (ws @ vs) \<longleftrightarrow> replies_to cid ws \<and> replies_to cid vs"
  by (auto simp: replies_to_def)

text \<open>
  The connection in place \<open>i\<close> is the same, and of all that was ever meant for it, sent or
  waiting, nothing was lost, repeated or reordered: at most replies were added at the end.
\<close>

definition extends :: "gsp_net \<Rightarrow> gsp_net \<Rightarrow> nat \<Rightarrow> bool" where
  "extends n m i \<longleftrightarrow> sock_of m i = sock_of n i \<and> id_of m i = id_of n i \<and>
     (\<exists>new. replies_to (id_of n i) new \<and>
        (\<forall>ws. delivered n i ws \<longrightarrow> (\<exists>us. delivered m i (ws @ us) \<and> us @ waiting m i = waiting n i @ new)))"

lemma extendsI: "sock_of m i = sock_of n i \<Longrightarrow> id_of m i = id_of n i \<Longrightarrow> passed n m i \<Longrightarrow> extends n m i"
  unfolding extends_def passed_def by (intro conjI exI [of _ "[]"]) simp_all

lemma passed_same: "delivered m i = delivered n i \<Longrightarrow> waiting m i = waiting n i \<Longrightarrow> passed n m i"
  by (simp add: passed_def)

lemma extends_grown:
  assumes "sock_of m i = sock_of n i" "id_of m i = id_of n i" "delivered m i = delivered n i"
    "waiting m i = waiting n i @ new" "replies_to (id_of n i) new"
  shows "extends n m i"
  unfolding extends_def using assms by (intro conjI exI [of _ new]) auto

lemma extends_trans:
  assumes "extends n m i" "extends m k i"
  shows "extends n k i"
proof -
  obtain new new' where r: "replies_to (id_of n i) new" "replies_to (id_of n i) new'" "id_of m i = id_of n i"
    and nm: "\<And>ws. delivered n i ws \<Longrightarrow> \<exists>us. delivered m i (ws @ us) \<and> us @ waiting m i = waiting n i @ new"
    and mk: "\<And>ws. delivered m i ws \<Longrightarrow> \<exists>us. delivered k i (ws @ us) \<and> us @ waiting k i = waiting m i @ new'"
    using assms unfolding extends_def by metis
  have "\<exists>us. delivered k i (ws @ us) \<and> us @ waiting k i = waiting n i @ new @ new'" if d: "delivered n i ws" for ws
  proof -
    obtain us where us: "delivered m i (ws @ us)" "us @ waiting m i = waiting n i @ new" using nm [OF d] by blast
    obtain vs where "delivered k i ((ws @ us) @ vs)" "vs @ waiting k i = waiting m i @ new'" using mk [OF us(1)] by blast
    moreover from this us(2) have "(us @ vs) @ waiting k i = (waiting n i @ new) @ new'" by (metis append_assoc)
    ultimately show ?thesis by (intro exI [of _ "us @ vs"]) simp
  qed
  then show ?thesis
    using assms r unfolding extends_def by (intro conjI exI [of _ "new @ new'"]) simp_all
qed

text \<open>Nobody joins, and what is meant for those who stay only grows.\<close>

definition flow :: "gsp_net \<Rightarrow> gsp_net \<Rightarrow> bool" where
  "flow n m \<longleftrightarrow> length (n_conns m) = length (n_conns n) \<and> n_listener m = n_listener n \<and>
     (\<forall>i. used m i \<longrightarrow> used n i \<and> extends n m i)"

lemma flow_refl [simp]: "flow n n"
  by (simp add: flow_def extendsI passed_same)

lemma flow_trans [trans]: "flow n m \<Longrightarrow> flow m k \<Longrightarrow> flow n k"
  unfolding flow_def using extends_trans by metis

text \<open>A step keeps the invariant, lets the replies flow and leaves no new connection unwatched.\<close>

definition keeps_net :: "gsp_net \<Rightarrow> gsp_net \<Rightarrow> bool" where
  "keeps_net n m \<longleftrightarrow> (net_base n \<longrightarrow> net_base m \<and> flow n m \<and> unwatched m \<subseteq> unwatched n)"

lemma keeps_net_refl [simp]: "keeps_net n n"
  by (simp add: keeps_net_def)

lemma keeps_net_trans: "keeps_net n m \<Longrightarrow> keeps_net m k \<Longrightarrow> keeps_net n k"
  unfolding keeps_net_def by (meson flow_trans subset_trans)

lemma keeps_net_fold:
  assumes "\<And>i n. i < length (n_conns n) \<Longrightarrow> keeps_net n (f i n)" "\<forall>i \<in> set xs. i < length (n_conns n)"
  shows "keeps_net n (fold f xs n)"
proof -
  have "net_base (fold f xs n) \<and> flow n (fold f xs n) \<and> unwatched (fold f xs n) \<subseteq> unwatched n" if "net_base n"
    using that assms(2)
  proof (induction xs arbitrary: n)
    case (Cons i xs)
    then have k: "net_base (f i n)" "flow n (f i n)" "unwatched (f i n) \<subseteq> unwatched n"
      using assms(1) [of i n] by (simp_all add: keeps_net_def)
    with Cons.IH [of "f i n"] Cons.prems(2) show ?case
      using flow_trans [of n "f i n"] by (auto simp: flow_def [of n "f i n"])
  qed simp
  then show ?thesis by (simp add: keeps_net_def)
qed

section \<open>Steps that leave the table alone\<close>

lemma net_conn_fields [simp]:
  "net_conn (n\<lparr>n_server := s\<rparr>) i = net_conn n i" "net_conn (n\<lparr>n_os := os\<rparr>) i = net_conn n i"
  "net_conn (n\<lparr>n_conn_count := k\<rparr>) i = net_conn n i" "net_conn (n\<lparr>n_error := e\<rparr>) i = net_conn n i"
  "net_conn (n\<lparr>n_next_conn := c\<rparr>) i = net_conn n i"
  by (simp_all add: net_conn_def)

lemma used_cong: "n_conns m = n_conns n \<Longrightarrow> used m i = used n i"
  by (simp add: used_def net_conn_def)

lemma conns_cong: "n_conns m = n_conns n \<Longrightarrow> net_conn m i = net_conn n i"
  by (simp add: net_conn_def)

lemma replies_queued: "server_inv s \<Longrightarrow> replies_to cid (queued_for s cid)"
  by (auto simp: replies_to_def queued_for_def server_inv_def out_inv_def)

lemma queued_closed: "server_inv s \<Longrightarrow> \<not> is_open s cid \<Longrightarrow> queued_for s cid = []"
  by (auto simp: server_inv_def out_inv_def queued_for_def filter_empty_conv)

text \<open>The server moves on, its connections as they were, its queues growing at most.\<close>

lemma net_keeps_server:
  assumes "server_inv (n_server n) \<Longrightarrow> server_inv t \<and> seats t = seats (n_server n) \<and>
      (\<forall>d. is_open (n_server n) d \<longrightarrow> (\<exists>ws. queued_for t d = queued_for (n_server n) d @ ws))"
  shows "keeps_net n (n\<lparr>n_server := t\<rparr>)"
  unfolding keeps_net_def
proof
  assume b: "net_base n"
  define m where "m = n\<lparr>n_server := t\<rparr>"
  note u = used_cong [of m n] conns_cong [of m n]
  have t: "server_inv t" "seats t = seats (n_server n)"
    and q: "\<And>d. is_open (n_server n) d \<Longrightarrow> \<exists>ws. queued_for t d = queued_for (n_server n) d @ ws"
    using assms b by (auto simp: net_base_def)
  have "linked m" using b seats_open [OF t(2)] u by (simp add: linked_def net_base_def m_def)
  moreover have "table_ok m" using b u by (simp add: table_ok_def net_base_def m_def)
  ultimately have "net_base m" using b t u by (simp add: net_base_def m_def)
  moreover have "extends n m i" for i
  proof (cases "is_open (n_server n) (id_of n i)")
    case True
    then obtain ws where ws: "queued_for t (id_of n i) = queued_for (n_server n) (id_of n i) @ ws" using q by blast
    moreover have "replies_to (id_of n i) (queued_for t (id_of n i))" by (rule replies_queued [OF t(1)])
    ultimately show ?thesis
      using u by (intro extends_grown [where new = ws]) (auto simp: waiting_def delivered_def m_def fun_eq_iff)
  next
    case False
    then have "queued_for t (id_of n i) = []" "queued_for (n_server n) (id_of n i) = []"
      using queued_closed t(1) seats_open(1) [OF t(2)] b by (simp_all add: net_base_def)
    then show ?thesis using u by (intro extendsI passed_same) (auto simp: waiting_def delivered_def m_def fun_eq_iff)
  qed
  ultimately show "net_base (n\<lparr>n_server := t\<rparr>) \<and> flow n (n\<lparr>n_server := t\<rparr>) \<and>
      unwatched (n\<lparr>n_server := t\<rparr>) \<subseteq> unwatched n"
    using u by (auto simp: flow_def unwatched_def m_def)
qed

text \<open>Fields that no part of the invariant reads, and system calls that leave sockets and streams alone.\<close>

definition net_same :: "gsp_net \<Rightarrow> gsp_net \<Rightarrow> bool" where
  "net_same n m \<longleftrightarrow> n_server m = n_server n \<and> n_conns m = n_conns n \<and> n_listener m = n_listener n \<and>
     n_write_queue m = n_write_queue n \<and> n_conn_count m = n_conn_count n \<and>
     os_open (n_os m) = os_open (n_os n) \<and> os_out (n_os m) = os_out (n_os n)"

lemma keeps_same:
  assumes "net_same n m"
  shows "keeps_net n m"
proof -
  have s: "n_server m = n_server n" "n_conns m = n_conns n" "n_listener m = n_listener n"
    "n_write_queue m = n_write_queue n" "n_conn_count m = n_conn_count n"
    "os_open (n_os m) = os_open (n_os n)" "os_out (n_os m) = os_out (n_os n)"
    using assms by (simp_all add: net_same_def)
  note u = used_cong [OF s(2)] conns_cong [OF s(2)]
  have "net_base m = net_base n" using s u by (simp add: net_base_def table_ok_def linked_def)
  moreover have "passed n m i" for i
    using s u by (intro passed_same) (simp_all add: delivered_def waiting_def fun_eq_iff)
  then have "flow n m" using s u by (auto simp: flow_def intro: extendsI)
  ultimately show ?thesis using u by (simp add: keeps_net_def unwatched_def)
qed

lemma now_us_same: "gsp_net_now_us n = (now, m) \<Longrightarrow> net_same n m"
  by (drule now_us_sel) (simp add: net_same_def)

lemma same_fields [simp]:
  "net_same n (upd_stats g n)" "net_same n (gs_net_record n what err)" "net_same n (n\<lparr>n_error := e\<rparr>)"
  "net_same n (n\<lparr>n_next_conn := c\<rparr>)" "net_same n (note_failure what failure n)"
  by (simp_all add: net_same_def)

section \<open>One connection's queue moves\<close>

lemma count_used: "length (filter nc_in_use cs) = length (filter id (map nc_in_use cs))"
  by (simp add: filter_map comp_def)

text \<open>
  \<open>slot_moved n i m\<close>: of the server's ring, the queues and the system only what they hold for
  connection \<open>i\<close> changed, all together the same bytes as before.
\<close>

definition slot_moved :: "gsp_net \<Rightarrow> nat \<Rightarrow> gsp_net \<Rightarrow> bool" where
  "slot_moved n i m \<longleftrightarrow>
     server_inv (n_server m) \<and> seats (n_server m) = seats (n_server n) \<and>
     (\<forall>d. d \<noteq> id_of n i \<longrightarrow> queued_for (n_server m) d = queued_for (n_server n) d) \<and>
     n_listener m = n_listener n \<and> n_write_queue m = n_write_queue n \<and>
     n_conn_count m = n_conn_count n \<and> os_open (n_os m) = os_open (n_os n) \<and>
     length (n_conns m) = length (n_conns n) \<and> (\<forall>k. k \<noteq> i \<longrightarrow> net_conn m k = net_conn n k) \<and>
     sock_of m i = sock_of n i \<and> id_of m i = id_of n i \<and> nc_in_use (net_conn m i) \<and>
     (\<forall>s. s \<noteq> sock_of n i \<longrightarrow> os_out (n_os m) s = os_out (n_os n) s) \<and>
     slot_ok (n_write_queue n) (net_conn m i) \<and> passed n m i"

lemma slot_moved_step:
  assumes b: "net_base n" and us: "used n i" and m: "slot_moved n i m"
  shows "net_base m" "flow n m" "k \<noteq> i \<Longrightarrow> k \<in> unwatched m \<longleftrightarrow> k \<in> unwatched n"
    "used m k = used n k"
proof -
  note f = m [unfolded slot_moved_def]
  show u: "used m k = used n k" for k using f us by (cases "k = i") (auto simp: used_def)
  have ids: "sock_of m k = sock_of n k \<and> id_of m k = id_of n k" for k using f by (cases "k = i") auto
  have "map nc_in_use (n_conns m) = map nc_in_use (n_conns n)"
  proof (rule nth_equalityI)
    fix k assume "k < length (map nc_in_use (n_conns m))"
    then show "map nc_in_use (n_conns m) ! k = map nc_in_use (n_conns n) ! k"
      using f us u [of k] by (auto simp: used_def net_conn_def)
  qed (use f in simp)
  then have "length (filter nc_in_use (n_conns m)) = length (filter nc_in_use (n_conns n))"
    by (simp only: count_used)
  then have "table_ok m" using b f u ids by (simp add: table_ok_def net_base_def)
  moreover have "linked m" using b f u ids seats_open [of "n_server m" "n_server n"] by (simp add: linked_def net_base_def)
  moreover have "slot_ok (n_write_queue m) (net_conn m k)" if "k < length (n_conns m)" for k
    using that b f by (cases "k = i") (simp_all add: net_base_def)
  ultimately show "net_base m" using b f by (simp add: net_base_def)
  have "passed n m k" if "used n k" for k
  proof (cases "k = i")
    case False
    then have "sock_of n k \<noteq> sock_of n i" "id_of n k \<noteq> id_of n i"
      using b us that by (auto simp: net_base_def table_ok_def)
    then show ?thesis using False f by (intro passed_same) (simp_all add: delivered_def waiting_def fun_eq_iff)
  qed (use f in simp)
  then show "flow n m" using f u ids by (auto simp: flow_def intro: extendsI)
  show "k \<in> unwatched m \<longleftrightarrow> k \<in> unwatched n" if "k \<noteq> i"
    using that f u by (simp add: unwatched_def)
qed

lemma slot_moved_watched:
  assumes "net_base n" "used n i" "slot_moved n i m" "i \<notin> unwatched m"
  shows "net_base m \<and> flow n m \<and> unwatched m \<subseteq> unwatched n - {i}"
proof -
  have "k \<in> unwatched n - {i}" if "k \<in> unwatched m" for k
    using slot_moved_step(3) [OF assms(1-3), of k] that assms(4) by (cases "k = i") auto
  then show ?thesis using slot_moved_step(1,2) [OF assms(1-3)] by auto
qed

text \<open>Closing one connection: the server is told and forgets it, the others flow on.\<close>

lemma free_slot_ok: "slot_ok cap c \<Longrightarrow> slot_ok cap (free_slot c)"
  by (auto simp: slot_ok_def free_slot_def ring_ok_def ring_cap_def ring_items_def)

lemma drop_fields:
  assumes "nc_in_use (net_conn n i)" "0 < n_conn_count n" "m = gs_net_drop n i cause"
  shows "\<exists>now. n_server m = snd (gsp_server_on_connection_closed (n_server n) (id_of n i) cause now)"
    "n_conns m = (n_conns n)[i := free_slot (net_conn n i)]"
    "n_conn_count m = n_conn_count n - 1" "n_write_queue m = n_write_queue n" "n_listener m = n_listener n"
    "os_out (n_os m) = os_out (n_os n)" "set (os_open (n_os m)) \<subseteq> set (os_open (n_os n))"
    "s \<noteq> sock_of n i \<Longrightarrow> s \<in> set (os_open (n_os m)) \<longleftrightarrow> s \<in> set (os_open (n_os n))"
    "os_waits (n_os m) = os_waits (n_os n)"
proof -
  obtain now n1 where c: "gsp_net_now_us n = (now, n1)" by (rule prod.exhaust)
  note n1 = now_us_sel [OF c]
  have m: "m = (upd_net_conn i free_slot (n1\<lparr>n_server := snd (gsp_server_on_connection_closed (n_server n) (id_of n i) cause now),
      n_os := gs_sys_sock_close (sock_of n i) (n_os n1)\<rparr>))\<lparr>n_conn_count := n_conn_count n - 1\<rparr>"
    using assms by (simp add: gs_net_drop_def c Let_def n1)
  show "\<exists>now. n_server m = snd (gsp_server_on_connection_closed (n_server n) (id_of n i) cause now)"
    by (rule exI [of _ now]) (simp add: m)
  show "n_conns m = (n_conns n)[i := free_slot (net_conn n i)]"
    "n_conn_count m = n_conn_count n - 1" "n_write_queue m = n_write_queue n" "n_listener m = n_listener n"
    "os_out (n_os m) = os_out (n_os n)" "os_waits (n_os m) = os_waits (n_os n)"
    by (simp_all add: m n1 upd_net_conn_def)
  show "set (os_open (n_os m)) \<subseteq> set (os_open (n_os n))"
    using close_subset [of "sock_of n i" "snd (gs_sys_now_us (n_os n))"] by (simp add: m n1)
  show "s \<in> set (os_open (n_os m)) \<longleftrightarrow> s \<in> set (os_open (n_os n))" if "s \<noteq> sock_of n i"
    using close_open [OF that] by (simp add: m n1)
qed

lemma keeps_drop: "keeps_net n (gs_net_drop n i cause)" if "i < length (n_conns n)"
proof (cases "nc_in_use (net_conn n i)")
  case False
  then show ?thesis by (simp add: gs_net_drop_def)
next
  case True
  define m where "m = gs_net_drop n i cause"
  show ?thesis
    unfolding keeps_net_def m_def [symmetric]
  proof
    assume b: "net_base n"
    define bs where "bs = map nc_in_use (n_conns n)"
    have us: "used n i" using True that by (simp add: used_def)
    have bi: "i < length bs" "bs ! i" using True that by (simp_all add: bs_def net_conn_def)
    have tb: "table_ok n" using b by (simp add: net_base_def)
    then have "length bs < 1024" by (simp add: table_ok_def bs_def)
    then have len: "length (filter id bs) < 1024" by (rule le_less_trans [OF length_filter_le])
    have cnt: "length (filter id bs) = Suc (length (filter id (bs[i := False])))"
      using bi by (subst (1) id_take_nth_drop [OF bi(1)]) (simp add: upd_conv_take_nth_drop)
    have c: "n_conn_count n = of_nat (length (filter id bs))"
      using tb unfolding table_ok_def count_used bs_def by blast
    have "unat (n_conn_count n) = length (filter id bs)" using len by (simp add: c unat_of_nat)
    then have "0 < n_conn_count n" using cnt by (simp add: word_greater_zero_iff unat_gt_0 [symmetric])
    note d = drop_fields [OF True this m_def]
    obtain now where srv: "n_server m = snd (gsp_server_on_connection_closed (n_server n) (id_of n i) cause now)"
      using d(1) by blast
    note cl = closed_link [OF _ srv]
    have nc: "net_conn m k = (if k = i then free_slot (net_conn n i) else net_conn n k)" for k
      using that d(2) by (auto simp: net_conn_def nth_list_update)
    have u: "used m k \<longleftrightarrow> k \<noteq> i \<and> used n k" for k
      using d(2) by (auto simp: used_def nc free_slot_def)
    have tab: "used n k \<Longrightarrow> k \<noteq> i \<Longrightarrow> id_of n k \<noteq> id_of n i \<and> sock_of n k \<noteq> sock_of n i" for k
      using b us by (auto simp: net_base_def table_ok_def)
    have bm: "map nc_in_use (n_conns m) = bs[i := False]" by (simp add: d(2) map_update bs_def free_slot_def)
    have "n_conn_count m = of_nat (length (filter id (bs[i := False])))" using c cnt d(3) by simp
    then have "table_ok m"
      using tb d(2,5,8) us tab u unfolding table_ok_def count_used bm by (auto simp: nc)
    moreover have "id_of m k = id_of n k" for k by (simp add: nc free_slot_def)
    then have "(\<exists>k. used m k \<and> id_of m k = d) \<longleftrightarrow> d \<noteq> id_of n i \<and> (\<exists>k. used n k \<and> id_of n k = d)" for d
      using u tab by metis
    then have "linked m" using b cl by (auto simp: linked_def net_base_def split: if_splits)
    moreover have "slot_ok (n_write_queue m) (net_conn m k)" if "k < length (n_conns m)" for k
      using that b d(2,4) free_slot_ok by (auto simp: net_base_def nc)
    ultimately have "net_base m" using b cl by (simp add: net_base_def)
    moreover have "passed n m k" if "used m k" for k
      using that u tab [of k] cl b d(6)
      by (intro passed_same) (simp_all add: delivered_def waiting_def nc net_base_def fun_eq_iff)
    then have "extends n m k" if "used m k" for k using that u by (intro extendsI) (simp_all add: nc)
    then have "flow n m" using u d(2,5) by (simp add: flow_def)
    moreover have "unwatched m \<subseteq> unwatched n - {i}" using u by (auto simp: unwatched_def nc)
    ultimately show "net_base m \<and> flow n m \<and> unwatched m \<subseteq> unwatched n" by auto
  qed
qed

section \<open>Flushing\<close>

text \<open>A part of the head goes out; the rest of it does.\<close>

lemma passed_part:
  assumes "backlog_of (net_conn n i) = w # rest" "nc_offset (net_conn n i) + k \<le> length (reply_of w)"
    "sock_of m i = sock_of n i" "id_of m i = id_of n i" "n_server m = n_server n"
    "os_out (n_os m) (sock_of n i) =
       os_out (n_os n) (sock_of n i) @ take k (drop (nc_offset (net_conn n i)) (reply_of w))"
    "backlog_of (net_conn m i) = w # rest" "nc_offset (net_conn m i) = nc_offset (net_conn n i) + k"
  shows "passed n m i"
  using assms by (auto simp: passed_def delivered_def waiting_def take_add)

lemma passed_rest:
  assumes "backlog_of (net_conn n i) = w # rest" "nc_offset (net_conn n i) \<le> length (reply_of w)"
    "sock_of m i = sock_of n i" "id_of m i = id_of n i" "n_server m = n_server n"
    "os_out (n_os m) (sock_of n i) = os_out (n_os n) (sock_of n i) @ drop (nc_offset (net_conn n i)) (reply_of w)"
    "backlog_of (net_conn m i) = rest" "nc_offset (net_conn m i) = 0"
  shows "passed n m i"
  unfolding passed_def
proof (intro allI impI)
  fix ws assume "delivered n i ws"
  then have "delivered m i (ws @ [w])" using assms by (simp add: delivered_def)
  then show "\<exists>us. delivered m i (ws @ us) \<and> us @ waiting m i = waiting n i"
    using assms by (intro exI [of _ "[w]"]) (simp add: waiting_def)
qed

lemma reply_length: "length (w_data w) = 256 \<Longrightarrow> write_ok w \<Longrightarrow> length (reply_of w) = unat (w_length w)"
  by (simp add: reply_of_def write_ok_def)

lemma reply_nonempty:
  assumes "write_ok w"
  shows "reply_of w \<noteq> []"
proof -
  obtain code message player where "reply_of w = response_text code message player"
    using assms by (auto simp: write_ok_def)
  then show ?thesis using response_text_framed [of code message player] by (auto simp: framed_object_def)
qed

lemma first_of: "0 < rg_count r \<Longrightarrow> ring_items r = ring_nth r 0 # tl (ring_items r)"
  by (simp add: ring_items_def upt_conv_Cons)

text \<open>The head of a queue and what \<^verbatim>\<open>send\<close> is offered of it.\<close>

lemma slot_head:
  assumes "slot_ok cap c" "0 < rg_count (nc_queue c)" "w = ring_nth (nc_queue c) 0"
  shows "backlog_of c = w # tl (backlog_of c)" "write_ok w" "length (w_data w) = 256" "w_conn w = nc_conn c"
    "nc_offset c < length (reply_of w)" "unat (w_length w) = length (reply_of w)"
    "take (unat (w_length w) - nc_offset c) (drop (nc_offset c) (w_data w)) = drop (nc_offset c) (reply_of w)"
proof -
  show bl: "backlog_of c = w # tl (backlog_of c)" using first_of [OF assms(2)] assms(3) by simp
  then have "w \<in> set (backlog_of c)" by (metis list.set_intros(1))
  then show w: "write_ok w" "length (w_data w) = 256" "w_conn w = nc_conn c" using assms(1) by (auto simp: slot_ok_def)
  show l: "unat (w_length w) = length (reply_of w)" using reply_length w by simp
  have "nc_offset c < unat (w_length (hd (backlog_of c)))" using assms(1) bl by (auto simp: slot_ok_def split: if_splits)
  moreover have "hd (backlog_of c) = w" by (subst bl) simp
  ultimately show "nc_offset c < length (reply_of w)" using l by simp
  show "take (unat (w_length w) - nc_offset c) (drop (nc_offset c) (w_data w)) = drop (nc_offset c) (reply_of w)"
    by (simp add: reply_of_def drop_take)
qed

lemma slot_ok_want: "slot_ok cap c \<Longrightarrow> nc_in_use c \<Longrightarrow> slot_ok cap (c\<lparr>nc_want_write := b\<rparr>)"
  by (simp add: slot_ok_def)

text \<open>The rest of a queue whose head is out.\<close>

lemma slot_ok_sent:
  assumes s: "slot_ok cap c" and "nc_in_use c" "0 < rg_count (nc_queue c)"
  shows "slot_ok cap (c\<lparr>nc_offset := 0, nc_queue := ring_drop (nc_queue c)\<rparr>)"
    "ring_items (ring_drop (nc_queue c)) = tl (backlog_of c)"
proof -
  have r: "ring_ok (nc_queue c)" "ring_cap (nc_queue c) = cap" using s by (simp_all add: slot_ok_def)
  show t: "ring_items (ring_drop (nc_queue c)) = tl (backlog_of c)"
    using ring_queue.dequeue_items [OF r(1)] assms(3) by (metis length_greater_0_conv ring_items_length)
  have d: "ring_ok (ring_drop (nc_queue c))"
    using ring_queue.dequeue_ok [OF r(1)] assms(3) by (metis length_greater_0_conv ring_items_length)
  have w: "write_ok w \<and> length (w_data w) = 256 \<and> w_conn w = nc_conn c" if "w \<in> set (tl (backlog_of c))" for w
    using s list.set_sel(2) [of "backlog_of c" w] that by (cases "backlog_of c") (auto simp: slot_ok_def)
  have "0 < unat (w_length (hd (tl (backlog_of c))))" if "tl (backlog_of c) \<noteq> []"
    using w [OF hd_in_set [OF that]] reply_length reply_nonempty by (metis length_greater_0_conv)
  then show "slot_ok cap (c\<lparr>nc_offset := 0, nc_queue := ring_drop (nc_queue c)\<rparr>)"
    using r d w assms(2) ring_queue.dequeue_cap [of "nc_queue c"] by (simp add: slot_ok_def t)
qed

text \<open>
  The four ways a turn of the flush loop goes, for a connection \<open>c\<close> whose head of the queue is \<open>w\<close>:
  nothing can be sent now, the socket has failed, a part went out, the rest went out.
\<close>

lemma flush_blocked:
  assumes "net_base n" "used n i" "os_out os = os_out (n_os n)" "os_open os = os_open (n_os n)"
    "m = upd_net_conn i (\<lambda>c. c\<lparr>nc_want_write := True\<rparr>) (n\<lparr>n_os := os\<rparr>)"
  shows "net_base m \<and> flow n m \<and> unwatched m \<subseteq> unwatched n - {i}"
proof (rule slot_moved_watched [OF assms(1,2)])
  have il: "i < length (n_conns n)" "nc_in_use (net_conn n i)" using assms(2) by (simp_all add: used_def)
  have "slot_ok (n_write_queue n) (net_conn n i)" "server_inv (n_server n)" using assms(1) il by (simp_all add: net_base_def)
  then show "slot_moved n i m"
    using il assms(3-5) slot_ok_want by (simp add: slot_moved_def net_conn_upd passed_def delivered_def waiting_def)
  show "i \<notin> unwatched m" using il assms(5) by (simp add: unwatched_def net_conn_upd)
qed

lemma flush_failed:
  assumes "net_base n" "used n i" "os_out os = os_out (n_os n)" "os_open os = os_open (n_os n)"
    "m = gs_net_drop (gs_net_record (n\<lparr>n_os := os\<rparr>) ''send'' err) i GSP_CLOSE_TRANSPORT_ERROR"
  shows "net_base m \<and> flow n m \<and> unwatched m \<subseteq> unwatched n - {i}"
proof -
  define k where "k = gs_net_record (n\<lparr>n_os := os\<rparr>) ''send'' err"
  have il: "i < length (n_conns n)" "nc_in_use (net_conn n i)" using assms(2) by (simp_all add: used_def)
  have "net_same n k" using assms(3,4) by (simp add: net_same_def k_def)
  then have "keeps_net n m" using keeps_net_trans [OF keeps_same keeps_drop] il assms(5) by (simp add: k_def)
  moreover have "\<not> nc_in_use (net_conn m i)"
    using il by (auto simp: assms(5) gs_net_drop_def Let_def net_conn_upd free_slot_def split: prod.split dest: now_us_sel)
  then have "i \<notin> unwatched m" by (simp add: unwatched_def used_def)
  ultimately show ?thesis using assms(1) by (auto simp: keeps_net_def)
qed

abbreviation (input) sent_stats :: "nat \<Rightarrow> gsp_net \<Rightarrow> gsp_net" where
  "sent_stats sent n \<equiv>
     upd_stats (\<lambda>st. st\<lparr>ns_sends := ns_sends st + 1, ns_write_bytes := ns_write_bytes st + of_nat sent\<rparr>) n"

lemma flush_partial:
  assumes b: "net_base n" and us: "used n i" and q: "0 < rg_count (nc_queue (net_conn n i))"
    and c: "c = net_conn n i" and w: "w = ring_nth (nc_queue c) 0"
    and ou: "os_out os = (os_out (n_os n))(nc_sock c := os_out (n_os n) (nc_sock c) @ take sent (drop (nc_offset c) (reply_of w)))"
    and op: "os_open os = os_open (n_os n)" and part: "nc_offset c + sent < length (reply_of w)"
    and m: "m = upd_net_conn i (\<lambda>c. c\<lparr>nc_offset := nc_offset c + sent, nc_want_write := True\<rparr>) (sent_stats sent (n\<lparr>n_os := os\<rparr>))"
  shows "net_base m \<and> flow n m \<and> unwatched m \<subseteq> unwatched n - {i}"
proof (rule slot_moved_watched [OF b us])
  have il: "i < length (n_conns n)" "nc_in_use c" using us by (simp_all add: used_def c)
  have so: "slot_ok (n_write_queue n) c" "server_inv (n_server n)" using b il by (simp_all add: net_base_def c)
  note h = slot_head [OF so(1) q [folded c] w]
  have "slot_ok (n_write_queue n) (c\<lparr>nc_offset := nc_offset c + sent, nc_want_write := True\<rparr>)"
    using so il h(1,6) part by (auto simp: slot_ok_def) (metis list.sel(1))
  moreover have "passed n m i"
    using il h(1) part ou by (intro passed_part [where w = w and k = sent and rest = "tl (backlog_of c)"])
      (simp_all add: m net_conn_upd c [symmetric])
  ultimately show "slot_moved n i m"
    using il op so(2) by (simp add: slot_moved_def m net_conn_upd c [symmetric] ou)
  show "i \<notin> unwatched m" using il by (simp add: unwatched_def m net_conn_upd)
qed

lemma flush_rest:
  assumes b: "net_base n" and us: "used n i" and q: "0 < rg_count (nc_queue (net_conn n i))"
    and c: "c = net_conn n i" and w: "w = ring_nth (nc_queue c) 0"
    and ou: "os_out os = (os_out (n_os n))(nc_sock c := os_out (n_os n) (nc_sock c) @ drop (nc_offset c) (reply_of w))"
    and op: "os_open os = os_open (n_os n)" and m: "m = flush_done (sent_stats sent (n\<lparr>n_os := os\<rparr>)) i w"
  shows "net_base m \<and> flow n m \<and> used m i \<and> unwatched m \<subseteq> insert i (unwatched n)"
proof -
  have il: "i < length (n_conns n)" "nc_in_use c" using us by (simp_all add: used_def c)
  have so: "slot_ok (n_write_queue n) c" "server_inv (n_server n)" using b il by (simp_all add: net_base_def c)
  note h = slot_head [OF so(1) q [folded c] w]
  note so' = slot_ok_sent [OF so(1) il(2) q [folded c]]
  have "passed n m i"
    using il h(1,5) ou so'(2) by (intro passed_rest [where w = w and rest = "tl (backlog_of c)"])
      (simp_all add: m flush_done_def net_conn_upd c [symmetric])
  then have mv: "slot_moved n i m"
    using il op so(2) so'(1) by (simp add: slot_moved_def m flush_done_def net_conn_upd c [symmetric] ou)
  show ?thesis
    using slot_moved_step(1,2) [OF b us mv] slot_moved_step(3) [OF b us mv] slot_moved_step(4) [OF b us mv, of i] us by auto
qed

lemma flush_step_ok:
  assumes b: "net_base n" and us: "used n i" and q: "0 < rg_count (nc_queue (net_conn n i))"
  shows "case flush_step n i of
      Inl m \<Rightarrow> net_base m \<and> flow n m \<and> unwatched m \<subseteq> unwatched n - {i}
    | Inr m \<Rightarrow> net_base m \<and> flow n m \<and> used m i \<and> unwatched m \<subseteq> insert i (unwatched n)"
proof -
  define c where "c = net_conn n i"
  define w where "w = ring_nth (nc_queue c) 0"
  define left where "left = unat (w_length w) - nc_offset c"
  have il: "i < length (n_conns n)" "nc_in_use c" using us by (simp_all add: used_def c_def)
  have so: "slot_ok (n_write_queue n) c" using b il by (simp add: net_base_def c_def)
  note h = slot_head [OF so q [folded c_def] w_def]
  obtain r os where snd: "sys_send (nc_sock c) (take left (drop (nc_offset c) (w_data w))) (n_os n) = (r, os)"
    by (rule prod.exhaust)
  note out = sys_send_out [OF snd, unfolded left_def h(7)]
  have op: "os_open os = os_open (n_os n)" using send_sel(1) snd by (metis snd_conv)
  have fs: "flush_send n i left = (r, n\<lparr>n_os := os\<rparr>)"
    by (simp add: flush_send_def Let_def c_def [symmetric] w_def [symmetric] snd)
  note step = flush_step_def [of n i, unfolded Let_def, folded c_def, folded w_def, folded left_def, unfolded fs prod.case]
  have lim: "left = length (drop (nc_offset c) (reply_of w))" using h(6) by (simp add: left_def)
  show ?thesis
  proof (cases r)
    case (Inl err)
    then have "os_out os = os_out (n_os n)" using out(1) by simp
    from flush_blocked [OF b us this op refl] flush_failed [OF b us this op refl, of err]
    show ?thesis by (simp add: step Inl)
  next
    case (Inr sent)
    note sent = out(2) [OF Inr, folded lim]
    note ou = out(1) [unfolded Inr sum.case]
    show ?thesis
    proof (cases "sent < left")
      case True
      then have "nc_offset c + sent < length (reply_of w)" using lim by simp
      from flush_partial [OF b us q c_def w_def ou op this refl] show ?thesis using True by (simp add: step Inr)
    next
      case False
      then have "os_out os = (os_out (n_os n))(nc_sock c := os_out (n_os n) (nc_sock c) @ drop (nc_offset c) (reply_of w))"
        using sent ou lim by simp
      from flush_rest [OF b us q c_def w_def this op refl, of sent] False show ?thesis by (simp add: step Inr)
    qed
  qed
qed

lemma flush_ok:
  "net_base n \<Longrightarrow> used n i \<Longrightarrow>
   net_base (gs_net_flush n i) \<and> flow n (gs_net_flush n i) \<and> unwatched (gs_net_flush n i) \<subseteq> unwatched n - {i}"
proof (induction n i rule: gs_net_flush.induct)
  case (1 n i)
  have il: "i < length (n_conns n)" "nc_in_use (net_conn n i)" using 1(3) by (simp_all add: used_def)
  show ?case
  proof (cases "0 < rg_count (nc_queue (net_conn n i))")
    case True
    note st = flush_step_ok [OF 1(2,3) True]
    show ?thesis
    proof (cases "flush_step n i")
      case (Inl m)
      then show ?thesis using st il True by (simp add: gs_net_flush.simps [of n i])
    next
      case (Inr m)
      with st have m: "net_base m" "flow n m" "used m i" "unwatched m \<subseteq> insert i (unwatched n)" by auto
      from 1(1) [OF conjI [OF il(1) True] Inr m(1,3)] m show ?thesis
        using flow_trans il True Inr by (auto simp: gs_net_flush.simps [of n i])
    qed
  next
    case False
    define m where "m = upd_net_conn i (\<lambda>c. c\<lparr>nc_want_write := False\<rparr>) n"
    have so: "slot_ok (n_write_queue n) (net_conn n i)" "server_inv (n_server n)"
      using 1(2) il by (simp_all add: net_base_def)
    have "slot_moved n i m"
      using il so slot_ok_want [OF so(1)] by (simp add: slot_moved_def m_def net_conn_upd passed_def delivered_def waiting_def)
    moreover have "i \<notin> unwatched m" using il False by (simp add: unwatched_def m_def net_conn_upd flip: length_0_conv)
    ultimately show ?thesis
      using slot_moved_watched [OF 1(2,3)] False by (simp add: gs_net_flush.simps [of n i] m_def)
  qed
qed

lemma keeps_flush: "used n i \<Longrightarrow> keeps_net n (gs_net_flush n i)"
  using flush_ok by (auto simp: keeps_net_def)

section \<open>Pumping\<close>

lemma find_net:
  assumes "net_base n" "is_open (n_server n) cid"
  obtains i where "gs_net_find n cid = Some i" "used n i" "id_of n i = cid"
proof -
  have "\<exists>i. used n i \<and> id_of n i = cid"
    using assms by (auto simp: net_base_def linked_def split: if_splits)
  then have "gs_net_find n cid \<noteq> None" by (auto simp: gs_net_find_def find_None_iff used_def)
  then show ?thesis
    using that find_SomeD by (fastforce simp: gs_net_find_def used_def)
qed

text \<open>A write taken off the ring finds its connection, and a place in its queue.\<close>

lemma pump_take:
  assumes b: "net_base n" and room: "net_room n" and p: "gsp_server_poll_writes (n_server n) 1 = ([w], s)"
  obtains i where "gs_net_find (n\<lparr>n_server := s\<rparr>) (w_conn w) = Some i" "used n i"
    "slot_moved n i (net_enqueue (n\<lparr>n_server := s\<rparr>) i w)"
proof -
  have si: "server_inv (n_server n)" using b by (simp add: net_base_def)
  note pl = poll_link [OF si p]
  then obtain i where f: "gs_net_find n (w_conn w) = Some i" "used n i" "id_of n i = w_conn w"
    using find_net [OF b, of "w_conn w"] by auto
  have il: "i < length (n_conns n)" "nc_in_use (net_conn n i)" using f(2) by (simp_all add: used_def)
  have so: "slot_ok (n_write_queue n) (net_conn n i)" using b il by (simp add: net_base_def)
  then have r: "ring_ok (nc_queue (net_conn n i))" "ring_cap (nc_queue (net_conn n i)) = n_write_queue n"
    by (simp_all add: slot_ok_def)
  have free: "rg_count (nc_queue (net_conn n i)) < ring_cap (nc_queue (net_conn n i))"
    using room il r nth_mem [OF il(1)] by (auto simp: net_room_def list_ex_iff net_conn_def not_le)
  note put = ring_put_items [OF r(1) free, of w] ring_queue.enqueue_ok [OF r(1), of w]
    ring_queue.enqueue_cap [of "nc_queue (net_conn n i)" w]
  have "length (reply_of w) = unat (w_length w)" "reply_of w \<noteq> []"
    using pl reply_length [of w] reply_nonempty [of w] by simp_all
  then have "0 < unat (w_length w)" by (metis length_greater_0_conv)
  then have "slot_ok (n_write_queue n) ((net_conn n i)\<lparr>nc_queue := ring_put (nc_queue (net_conn n i)) w\<rparr>)"
    using so put r free pl f(3) il by (auto simp: slot_ok_def split: if_splits)
  moreover have "nc_offset (net_conn n i) \<le> length (texts (backlog_of (net_conn n i)))"
  proof (cases "0 < rg_count (nc_queue (net_conn n i))")
    case True
    note h = slot_head [OF so True refl]
    have "length (reply_of (ring_nth (nc_queue (net_conn n i)) 0)) \<le> length (texts (backlog_of (net_conn n i)))"
      by (subst h(1)) simp
    then show ?thesis using h(5) by simp
  next
    case False
    then show ?thesis using so by (simp add: slot_ok_def flip: length_0_conv)
  qed
  moreover have "queued_for (n_server n) (w_conn w) = w # queued_for s (w_conn w)"
    "\<forall>d. d \<noteq> w_conn w \<longrightarrow> queued_for s d = queued_for (n_server n) d"
    using pl by auto
  ultimately have "slot_moved n i (net_enqueue (n\<lparr>n_server := s\<rparr>) i w)"
    using il pl put(1) f(3) by (simp add: slot_moved_def net_enqueue_def net_conn_upd passed_def delivered_def waiting_def)
  moreover have "gs_net_find (n\<lparr>n_server := s\<rparr>) (w_conn w) = Some i"
    using f(1) by (simp add: gs_net_find_def)
  ultimately show ?thesis using that f(2) by blast
qed

lemma keeps_pump: "keeps_net n (gs_net_pump n)"
  unfolding keeps_net_def
proof (intro impI, induction n rule: gs_net_pump.induct)
  case (1 n)
  have si: "server_inv (n_server n)" using 1(3) by (simp add: net_base_def)
  obtain ws s where p: "gsp_server_poll_writes (n_server n) 1 = (ws, s)" by (rule prod.exhaust)
  note pl = poll_link [OF si p]
  show ?case
  proof (cases "net_room n")
    case room: True
    show ?thesis
    proof (cases ws)
      case Nil
      then have "keeps_net n (n\<lparr>n_server := s\<rparr>)" using pl by (intro net_keeps_server) auto
      then show ?thesis using room Nil p 1(3) by (simp add: gs_net_pump.simps [of n] keeps_net_def)
    next
      case (Cons w rest)
      then have w: "ws = [w]" using pl by auto
      obtain i where i: "gs_net_find (n\<lparr>n_server := s\<rparr>) (w_conn w) = Some i" "used n i"
        "slot_moved n i (net_enqueue (n\<lparr>n_server := s\<rparr>) i w)"
        by (rule pump_take [OF 1(3) room p [unfolded w]])
      define m where "m = net_enqueue (n\<lparr>n_server := s\<rparr>) i w"
      note sm = slot_moved_step [OF 1(3) i(2) i(3) [folded m_def]]
      have fl: "net_base (gs_net_flush m i) \<and> flow m (gs_net_flush m i) \<and> unwatched (gs_net_flush m i) \<subseteq> unwatched m - {i}"
        using sm(1,4) i(2) by (intro flush_ok) auto
      have "unwatched m - {i} \<subseteq> unwatched n" using sm(3) by auto
      then have fl': "net_base (gs_net_flush m i)" "flow n (gs_net_flush m i)" "unwatched (gs_net_flush m i) \<subseteq> unwatched n"
        using fl sm(2) flow_trans by blast+
      have eq: "gs_net_pump n = gs_net_pump (gs_net_flush m i)"
        using room p w i(1) by (simp add: gs_net_pump.simps [of n] m_def)
      have "net_base (gs_net_pump (gs_net_flush m i)) \<and> flow (gs_net_flush m i) (gs_net_pump (gs_net_flush m i)) \<and>
          unwatched (gs_net_pump (gs_net_flush m i)) \<subseteq> unwatched (gs_net_flush m i)"
        using 1(2) room p w i(1) fl'(1) by (simp add: m_def)
      then show ?thesis unfolding eq using fl' flow_trans by blast
    qed
  next
    case False
    then show ?thesis using 1(3) by (simp add: gs_net_pump.simps [of n])
  qed
qed

section \<open>Reading\<close>

lemma on_bytes_conns: "net_on_bytes n i data = (st, m) \<Longrightarrow> n_conns m = n_conns n"
  by (auto simp: net_on_bytes_def split: prod.splits dest: now_us_sel)

lemma keeps_on_bytes:
  assumes "net_on_bytes n i data = (st, m)"
  shows "keeps_net n m"
proof -
  obtain now n1 where c: "gsp_net_now_us n = (now, n1)" by (rule prod.exhaust)
  obtain st' s where o: "gsp_server_on_bytes (n_server n1) (id_of n1 i) data now = (st', s)" by (rule prod.exhaust)
  have "keeps_net n1 (n1\<lparr>n_server := s\<rparr>)" using bytes_link [OF _ o] by (intro net_keeps_server) auto
  then show ?thesis
    using assms keeps_net_trans [OF keeps_same [OF now_us_same [OF c]]] by (auto simp: net_on_bytes_def c o)
qed

lemma pump_length:
  assumes "net_base n"
  shows "length (n_conns (gs_net_pump n)) = length (n_conns n)"
  using keeps_pump [of n] assms by (simp add: keeps_net_def flow_def)

lemma retries_ok:
  "net_base n \<Longrightarrow> used n i \<Longrightarrow> feed_retries left st n i = (r, m) \<Longrightarrow>
   net_base m \<and> flow n m \<and> unwatched m \<subseteq> unwatched n \<and> (r \<noteq> None \<longrightarrow> used m i)"
proof (induction left arbitrary: st n)
  case (Suc left)
  show ?case
  proof (cases "st = GSP_ERR_QUEUE_FULL \<and> nc_in_use (net_conn (gs_net_pump n) i)")
    case True
    obtain st' m' where ob: "net_on_bytes (gs_net_pump n) i [] = (st', m')" by (rule prod.exhaust)
    have k: "keeps_net n m'" by (rule keeps_net_trans [OF keeps_pump keeps_on_bytes [OF ob]])
    have "used (gs_net_pump n) i" using True Suc.prems(1,2) pump_length by (simp add: used_def)
    then have "used m' i" using used_cong [OF on_bytes_conns [OF ob]] by simp
    moreover have "feed_retries left st' m' i = (r, m)" using Suc.prems(3) True ob by (simp add: Let_def)
    ultimately show ?thesis
      using Suc.IH [of m' st'] k Suc.prems(1) flow_trans unfolding keeps_net_def by blast
  next
    case False
    then show ?thesis
      using Suc.prems keeps_pump [of n] by (auto simp: Let_def keeps_net_def split: if_splits)
  qed
qed auto

lemma keeps_resume:
  assumes "used n i"
  shows "keeps_net n (upd_net_conn i (\<lambda>c. c\<lparr>nc_resume := b\<rparr>) n)"
  unfolding keeps_net_def
proof
  assume base: "net_base n"
  define m where "m = upd_net_conn i (\<lambda>c. c\<lparr>nc_resume := b\<rparr>) n"
  have il: "i < length (n_conns n)" "nc_in_use (net_conn n i)" using assms by (simp_all add: used_def)
  have so: "slot_ok (n_write_queue n) (net_conn n i)" "server_inv (n_server n)" using base il by (simp_all add: net_base_def)
  then have "slot_moved n i m"
    using il by (simp add: slot_moved_def m_def net_conn_upd passed_def delivered_def waiting_def) (simp add: slot_ok_def)
  note sm = slot_moved_step [OF base assms this]
  have "k \<in> unwatched m \<longleftrightarrow> k \<in> unwatched n" for k
    using sm(3) [of k] il by (cases "k = i") (auto simp: unwatched_def used_def m_def net_conn_upd)
  then show "net_base m \<and> flow n m \<and> unwatched m \<subseteq> unwatched n" using sm by auto
qed

lemma net_keeps_feed:
  assumes "used n i"
  shows "keeps_net n (gs_net_feed n i data)"
proof -
  obtain st n1 where ob: "net_on_bytes n i data = (st, n1)" by (rule prod.exhaust)
  obtain r m where f: "feed_retries GS_NET_QUEUE_FULL_RETRIES st n1 i = (r, m)" by (rule prod.exhaust)
  have u: "used n1 i" using assms used_cong [OF on_bytes_conns [OF ob]] by simp
  have fm: "keeps_net n1 m" "net_base n1 \<Longrightarrow> r \<noteq> None \<Longrightarrow> used m i"
    using retries_ok [OF _ u f] by (auto simp: keeps_net_def)
  have eq: "gs_net_feed n i data =
      (case r of None \<Rightarrow> m | Some st \<Rightarrow> upd_net_conn i (\<lambda>c. c\<lparr>nc_resume := (st = GSP_ERR_QUEUE_FULL)\<rparr>) m)"
    unfolding gs_net_feed_def ob f prod.case by (simp split: option.split)
  have "keeps_net n1 (gs_net_feed n i data)"
  proof (cases r)
    case (Some st)
    then show ?thesis
      using fm keeps_resume [of m i] keeps_net_trans [of n1 m] unfolding eq by (auto simp: keeps_net_def)
  qed (use fm(1) in \<open>simp add: eq\<close>)
  then show ?thesis by (rule keeps_net_trans [OF keeps_on_bytes [OF ob]])
qed

lemma keeps_read:
  assumes "used n i"
  shows "keeps_net n (gs_net_read n i)"
proof -
  obtain got os where r: "sys_recv (sock_of n i) (n_read_size n) (n_os n) = (got, os)" by (rule prod.exhaust)
  define n1 where "n1 = n\<lparr>n_os := os\<rparr>"
  have os: "os_open os = os_open (n_os n)" "os_out os = os_out (n_os n)"
    using recv_sel [of "sock_of n i" "n_read_size n" "n_os n"] r by simp_all
  have s: "net_same n n1" "net_same n (gs_net_record n1 what err)" "net_same n (upd_stats g n1)" for what err g
    using os by (simp_all add: net_same_def n1_def)
  have u: "used (upd_stats g n1) i" "i < length (n_conns n1)" "i < length (n_conns (gs_net_record n1 what err))" for g what err
    using assms by (simp_all add: used_def n1_def)
  note k = keeps_net_trans [OF keeps_same [OF s(3)] net_keeps_feed [OF u(1)]]
    keeps_net_trans [OF keeps_same [OF s(1)] keeps_drop [OF u(2)]]
    keeps_net_trans [OF keeps_same [OF s(2)] keeps_drop [OF u(3)]] keeps_same [OF s(1)]
  show ?thesis
    unfolding gs_net_read_def r prod.case Let_def n1_def [symmetric] using k by (simp split: sum.split)
qed

lemma keeps_serve:
  assumes "i < length (n_conns n)"
  shows "keeps_net n (net_serve rs ws i n)"
proof (cases "nc_in_use (net_conn n i)")
  case True
  then have u: "used n i" using assms by (simp add: used_def)
  define m where "m = (if sock_of n i \<in> set ws then gs_net_flush n i else n)"
  have k: "keeps_net n m" using keeps_flush [OF u] by (simp add: m_def)
  have "keeps_net n (if nc_in_use (net_conn m i) \<and> sock_of n i \<in> set rs then gs_net_read m i else m)"
  proof (cases "net_base n \<and> nc_in_use (net_conn m i)")
    case True
    then have "used m i" using k assms by (simp add: keeps_net_def flow_def used_def)
    then show ?thesis using keeps_net_trans [OF k keeps_read] k by simp
  qed (use k in \<open>auto simp: keeps_net_def\<close>)
  then show ?thesis unfolding net_serve_def Let_def m_def [symmetric] using True by simp
qed (simp add: net_serve_def)

lemma keeps_tick: "keeps_net n (net_tick n)"
proof -
  obtain now n1 where c: "gsp_net_now_us n = (now, n1)" by (rule prod.exhaust)
  have "keeps_net n1 (n1\<lparr>n_server := gsp_server_tick (n_server n1) now\<rparr>)"
    using tick_link by (intro net_keeps_server) auto
  then show ?thesis
    using keeps_net_trans [OF keeps_same [OF now_us_same [OF c]]] keeps_same [OF now_us_same [OF c]]
    by (simp add: net_tick_def c Let_def)
qed

lemma keeps_net_resume: "i < length (n_conns n) \<Longrightarrow> keeps_net n (net_resume i n)"
  using net_keeps_feed [of n i] by (simp add: net_resume_def used_def)

lemma select_same:
  assumes "net_select n timeout_ms = (rs, ws, m)"
  shows "net_same n m"
proof -
  obtain now n1 where c: "gsp_net_now_us n = (now, n1)" by (rule prod.exhaust)
  define readers where "readers = n_listener n # map nc_sock (filter nc_in_use (n_conns n))"
  define writers where "writers = map nc_sock (filter nc_want_write (filter nc_in_use (n_conns n)))"
  define wait where "wait = net_wait_us timeout_ms (gsp_server_next_due_us (n_server n1)) now"
  define tv where "tv = (if wait < 0 then None else Some (gs_sys_timeval_set wait))"
  obtain a os where s: "sys_select readers writers tv (n_os n1) = (a, os)" by (rule prod.exhaust)
  have os: "os_open os = os_open (n_os n1)" "os_out os = os_out (n_os n1)"
    using select_sel [of readers writers tv "n_os n1"] s by simp_all
  have "m = n1\<lparr>n_os := os\<rparr> \<or> (\<exists>err. m = gs_net_record (n1\<lparr>n_os := os\<rparr>) ''select'' err)"
    using assms unfolding net_select_def c prod.case Let_def readers_def [symmetric] writers_def [symmetric]
      wait_def [symmetric] tv_def [symmetric] s
    by (auto split: select_answer.splits if_splits)
  then show ?thesis using now_us_sel [OF c] os by (auto simp: net_same_def)
qed

section \<open>Accepting\<close>

text \<open>
  Nobody leaves while connections are accepted; one that joins starts with what greets it.
\<close>

definition whole :: "gsp_net \<Rightarrow> nat \<Rightarrow> bool" where
  "whole n i \<longleftrightarrow> (\<exists>ws. delivered n i ws \<and> replies_to (id_of n i) (ws @ waiting n i))"

lemma whole_extends:
  assumes "whole n i" "extends n m i"
  shows "whole m i"
proof -
  obtain ws new where w: "delivered n i ws" "replies_to (id_of n i) (ws @ waiting n i)" "replies_to (id_of n i) new"
    and "\<exists>us. delivered m i (ws @ us) \<and> us @ waiting m i = waiting n i @ new"
    using assms unfolding extends_def whole_def by metis
  then obtain us where v: "delivered m i (ws @ us)" "us @ waiting m i = waiting n i @ new" by blast
  have "replies_to (id_of m i) (us @ waiting m i)"
    unfolding v(2) using w assms(2) by (simp add: extends_def)
  then show ?thesis
    using v(1) w assms(2) unfolding whole_def by (intro exI [of _ "ws @ us"]) (simp add: extends_def)
qed

definition joins :: "gsp_net \<Rightarrow> gsp_net \<Rightarrow> bool" where
  "joins n m \<longleftrightarrow>
     (net_base n \<longrightarrow> net_base m \<and> unwatched m \<subseteq> unwatched n \<and>
        length (n_conns m) = length (n_conns n) \<and> n_listener m = n_listener n \<and>
        (\<forall>i. used n i \<longrightarrow> used m i \<and> extends n m i) \<and> (\<forall>i. used m i \<longrightarrow> used n i \<or> whole m i))"

lemma joins_trans:
  assumes "joins n m" "joins m k"
  shows "joins n k"
  unfolding joins_def
proof
  assume b: "net_base n"
  note nm = assms(1) [unfolded joins_def, THEN mp, OF b]
  then have "net_base m" by blast
  note mk = assms(2) [unfolded joins_def, THEN mp, OF this]
  have "used k i \<and> extends n k i" if u: "used n i" for i using nm mk u extends_trans by blast
  moreover have "used n i \<or> whole k i" if u: "used k i" for i
    using nm mk u whole_extends by (cases "used m i") blast+
  ultimately show "net_base k \<and> unwatched k \<subseteq> unwatched n \<and> length (n_conns k) = length (n_conns n) \<and>
      n_listener k = n_listener n \<and> (\<forall>i. used n i \<longrightarrow> used k i \<and> extends n k i) \<and>
      (\<forall>i. used k i \<longrightarrow> used n i \<or> whole k i)"
    using nm mk by auto
qed

text \<open>A refused connection: only sockets that nobody holds were touched.\<close>

definition net_like :: "gsp_net \<Rightarrow> gsp_net \<Rightarrow> bool" where
  "net_like n m \<longleftrightarrow> n_server m = n_server n \<and> n_conns m = n_conns n \<and> n_listener m = n_listener n \<and>
     n_write_queue m = n_write_queue n \<and> n_conn_count m = n_conn_count n \<and>
     (\<forall>s \<in> set (os_open (n_os n)). s \<in> set (os_open (n_os m)) \<and> os_out (n_os m) s = os_out (n_os n) s)"

lemma joins_like:
  assumes "net_like n m"
  shows "joins n m"
  unfolding joins_def
proof
  assume b: "net_base n"
  have s: "n_server m = n_server n" "n_conns m = n_conns n" "n_listener m = n_listener n"
    "n_write_queue m = n_write_queue n" "n_conn_count m = n_conn_count n"
    and os: "\<And>s. s \<in> set (os_open (n_os n)) \<Longrightarrow> s \<in> set (os_open (n_os m)) \<and> os_out (n_os m) s = os_out (n_os n) s"
    using assms by (auto simp: net_like_def)
  note u = used_cong [OF s(2)] conns_cong [OF s(2)]
  have "net_base m" using b s u os by (auto simp: net_base_def table_ok_def linked_def)
  moreover have "extends n m i" if "used n i" for i
    using that b u os s
    by (intro extendsI passed_same) (auto simp: delivered_def waiting_def net_base_def table_ok_def fun_eq_iff)
  ultimately show "net_base m \<and> unwatched m \<subseteq> unwatched n \<and> length (n_conns m) = length (n_conns n) \<and>
      n_listener m = n_listener n \<and> (\<forall>i. used n i \<longrightarrow> used m i \<and> extends n m i) \<and>
      (\<forall>i. used m i \<longrightarrow> used n i \<or> whole m i)"
    using s u by (auto simp: unwatched_def)
qed

text \<open>A new connection takes a free place.\<close>

lemma fill_slot_ok: "slot_ok cap c \<Longrightarrow> slot_ok cap (fill_slot s cid c) \<and> backlog_of (fill_slot s cid c) = []"
  by (auto simp: slot_ok_def fill_slot_def ring_ok_def ring_cap_def ring_items_def)

definition joined :: "gsp_net \<Rightarrow> nat \<Rightarrow> gs_sock \<Rightarrow> gsp_conn_id \<Rightarrow> gsp_net \<Rightarrow> bool" where
  "joined n i s cid m \<longleftrightarrow>
     n_conns m = (n_conns n)[i := fill_slot s cid (net_conn n i)] \<and> n_listener m = n_listener n \<and>
     n_write_queue m = n_write_queue n \<and> n_conn_count m = n_conn_count n + 1 \<and>
     os_open (n_os m) = s # os_open (n_os n) \<and> os_out (n_os m) = (os_out (n_os n))(s := [])"

lemma joined_base:
  assumes b: "net_base n" and j: "joined n i s cid m" and i: "i < length (n_conns n)" "\<not> nc_in_use (net_conn n i)"
    and s: "s \<notin> set (os_open (n_os n))" "0 \<le> s" "s < 1024"
    and new: "\<not> s_closed (n_server n)" "\<not> is_open (n_server n) cid"
    and srv: "server_inv (n_server m)" "s_closed (n_server m) = s_closed (n_server n)"
      "\<forall>d. is_open (n_server m) d \<longleftrightarrow> d = cid \<or> is_open (n_server n) d"
  shows "net_base m" "used m k \<longleftrightarrow> k = i \<or> used n k"
    "net_conn m k = (if k = i then fill_slot s cid (net_conn n i) else net_conn n k)"
proof -
  note f = j [unfolded joined_def]
  show nc: "net_conn m k = (if k = i then fill_slot s cid (net_conn n i) else net_conn n k)" for k
    using i f by (auto simp: net_conn_def nth_list_update)
  show u: "used m k \<longleftrightarrow> k = i \<or> used n k" for k
    using f i by (auto simp: used_def nc fill_slot_def)
  have fi: "nc_conn (fill_slot s cid c) = cid" "nc_sock (fill_slot s cid c) = s" for c by (simp_all add: fill_slot_def)
  have tb: "table_ok n" using b by (simp add: net_base_def)
  then have old: "sock_of n k \<in> set (os_open (n_os n))" if "used n k" for k using that by (simp add: table_ok_def)
  have lk: "is_open (n_server n) d \<longleftrightarrow> (\<exists>i. used n i \<and> id_of n i = d)" for d
    using b new(1) by (simp add: net_base_def linked_def)
  then have ids: "id_of n k \<noteq> cid" if "used n k" for k using that new(2) by blast
  have ui: "\<not> used n i" using i by (simp add: used_def)
  define bs where "bs = map nc_in_use (n_conns n)"
  have bi: "i < length bs" "\<not> bs ! i" using i by (simp_all add: bs_def net_conn_def)
  have bm: "map nc_in_use (n_conns m) = bs[i := True]" using f by (simp add: map_update bs_def fill_slot_def)
  have "length (filter id (bs[i := True])) = Suc (length (filter id bs))"
    using bi by (subst (2) id_take_nth_drop [OF bi(1)]) (simp add: upd_conv_take_nth_drop)
  then have "n_conn_count m = of_nat (length (filter nc_in_use (n_conns m)))"
    using tb f unfolding table_ok_def count_used bm bs_def [symmetric] by simp
  moreover have "id_of m k = id_of m l \<or> sock_of m k = sock_of m l \<Longrightarrow> k = l" if "used m k" "used m l" for k l
    using that u ids [of k] ids [of l] old [of k] old [of l] s(1) tb by (auto simp: nc fi table_ok_def split: if_splits)
  moreover have "sock_of m k \<in> set (os_open (n_os m)) \<and> 0 \<le> sock_of m k \<and> sock_of m k < 1024 \<and>
      sock_of m k \<noteq> n_listener m" if "used m k" for k
    using that u tb s f by (auto simp: nc fi table_ok_def)
  ultimately have "table_ok m" using tb f unfolding table_ok_def by auto
  moreover have "id_of m k = (if k = i then cid else id_of n k)" for k by (simp add: nc fi)
  then have "(\<exists>k. used m k \<and> id_of m k = d) \<longleftrightarrow> d = cid \<or> (\<exists>k. used n k \<and> id_of n k = d)" for d
    using u ui by metis
  then have "linked m" using srv new(1) lk by (auto simp: linked_def)
  moreover have "slot_ok (n_write_queue m) (net_conn m k)" if "k < length (n_conns m)" for k
    using that b f fill_slot_ok i by (auto simp: net_base_def nc)
  ultimately show "net_base m" using srv by (simp add: net_base_def)
qed

lemma joins_joined:
  assumes j: "joined n i s cid m" and i: "i < length (n_conns n)" "\<not> nc_in_use (net_conn n i)"
    and s: "s \<notin> set (os_open (n_os n))" "0 \<le> s" "s < 1024"
    and op: "gsp_server_on_connection_opened (n_server n) cid peer now = (st, n_server m)" "\<not> failed st"
  shows "joins n m"
  unfolding joins_def
proof
  assume b: "net_base n"
  then have si: "server_inv (n_server n)" by (simp add: net_base_def)
  note ol = opened_link [OF si op(1)]
  note jb = joined_base [OF b j i s]
  have m: "net_base m" and u: "\<And>k. used m k \<longleftrightarrow> k = i \<or> used n k"
    and nc: "\<And>k. net_conn m k = (if k = i then fill_slot s cid (net_conn n i) else net_conn n k)"
    using jb ol op(2) by auto
  note f = j [unfolded joined_def]
  have ui: "\<not> used n i" using i by (simp add: used_def)
  have empty: "backlog_of (net_conn m i) = []"
    using fill_slot_ok [of "n_write_queue n" "net_conn n i"] b i by (simp add: nc net_base_def)
  have "extends n m k" if k: "used n k" for k
  proof -
    have "is_open (n_server n) (id_of n k)"
      using b ol op(2) k by (auto simp: net_base_def linked_def)
    then obtain ws where ws: "queued_for (n_server m) (id_of n k) = queued_for (n_server n) (id_of n k) @ ws"
      using ol by blast
    moreover have "replies_to (id_of n k) (queued_for (n_server m) (id_of n k))"
      using ol by (intro replies_queued) simp
    moreover have "sock_of n k \<noteq> s" using b k s(1) by (auto simp: net_base_def table_ok_def)
    ultimately show ?thesis
      using k ui f by (intro extends_grown [where new = ws]) (auto simp: delivered_def waiting_def nc fun_eq_iff)
  qed
  moreover have "whole m i"
    using empty f ol replies_queued [of "n_server m" "id_of m i"]
    by (auto simp: whole_def delivered_def waiting_def nc fill_slot_def intro!: exI [of _ "[]"])
  ultimately show "net_base m \<and> unwatched m \<subseteq> unwatched n \<and> length (n_conns m) = length (n_conns n) \<and>
      n_listener m = n_listener n \<and> (\<forall>k. used n k \<longrightarrow> used m k \<and> extends n m k) \<and>
      (\<forall>k. used m k \<longrightarrow> used n k \<or> whole m k)"
    using m u ui empty f by (auto simp: unwatched_def nc)
qed

lemma refused_like:
  assumes "sys_accept (n_os n) = (Inr a, os)" "n_server m = n_server n" "n_conns m = n_conns n"
    "n_listener m = n_listener n" "n_write_queue m = n_write_queue n" "n_conn_count m = n_conn_count n"
    "os_open (n_os m) = remove1 (a_sock a) (os_open os)" "os_out (n_os m) = os_out os"
  shows "joins n m"
  using sys_accept_Inr [OF assms(1)] assms(2-) by (intro joins_like) (auto simp: net_like_def)

lemma joins_accept_one:
  assumes ac: "sys_accept (n_os n) = (Inr a, os)"
  shows "joins n (accept_one (n\<lparr>n_os := os\<rparr>) a)"
proof -
  note a = sys_accept_Inr [OF ac]
  then have so: "a_sock a \<noteq> -1" by auto
  consider "1024 \<le> a_sock a" | "a_sock a < 1024" "find (\<lambda>i. \<not> nc_in_use (net_conn n i)) [0..<length (n_conns n)] = None"
    | i where "a_sock a < 1024" "find (\<lambda>i. \<not> nc_in_use (net_conn n i)) [0..<length (n_conns n)] = Some i"
    by (cases "find (\<lambda>i. \<not> nc_in_use (net_conn n i)) [0..<length (n_conns n)]") fastforce+
  then show ?thesis
  proof cases
    case 3
    from find_SomeD [OF 3(2)] have i: "i < length (n_conns n)" "\<not> nc_in_use (net_conn n i)" by auto
    obtain cid next_conn where id: "fresh_id (n_next_conn n) = (cid, next_conn)" by (rule prod.exhaust)
    define peer where "peer = (if gs_net_peer_text (a_name a) \<noteq> [] then Some (gs_net_peer_text (a_name a)) else None)"
    obtain now n1 where c: "gsp_net_now_us (n\<lparr>n_os := os, n_next_conn := next_conn\<rparr>) = (now, n1)" by (rule prod.exhaust)
    note n1 = now_us_sel [OF c]
    obtain st s where op: "gsp_server_on_connection_opened (n_server n) cid peer now = (st, s)"
      by (rule prod.exhaust)
    note one = accept_one_def [of "n\<lparr>n_os := os\<rparr>" a, unfolded Let_def, folded peer_def]
    show ?thesis
    proof (cases "failed st")
      case True
      have st: "s = n_server n" if "net_base n"
        using opened_link [OF _ op] that True by (simp add: net_base_def)
      have "accept_one (n\<lparr>n_os := os\<rparr>) a = refuse (n1\<lparr>n_server := s\<rparr>) (a_sock a)"
        using 3 id c op True by (simp add: one n1)
      moreover have "joins n (refuse (n1\<lparr>n_server := s\<rparr>) (a_sock a))" if "net_base n"
        using st [OF that] so
        by (intro refused_like [OF ac]) (simp_all add: refuse_def n1 gs_sys_sock_close_def)
      ultimately show ?thesis by (auto simp: joins_def)
    next
      case False
      define m where "m = accept_one (n\<lparr>n_os := os\<rparr>) a"
      have m: "joined n i (a_sock a) cid m" "n_server m = s"
        using 3 id c op False i a(3,4)
        by (simp_all add: m_def one n1 joined_def upd_net_conn_def net_conn_def)
      show ?thesis
        using joins_joined [OF m(1) i a(2,1) 3(1)] op False unfolding m_def [symmetric] m(2) by simp
    qed
  qed (use ac so in \<open>auto simp: accept_one_def refuse_def gs_sys_sock_close_def intro!: refused_like\<close>)
qed

lemma joins_accept: "joins n (gs_net_accept n)"
proof (induction n rule: gs_net_accept.induct)
  case (1 n)
  obtain r os where r: "sys_accept (n_os n) = (r, os)" by (rule prod.exhaust)
  show ?case
  proof (cases r)
    case (Inl err)
    have "net_like n (n\<lparr>n_os := os\<rparr>)" "net_like n (gs_net_record (n\<lparr>n_os := os\<rparr>) ''accept'' err)"
      using sys_accept_Inl [OF r [unfolded Inl]] by (simp_all add: net_like_def)
    then show ?thesis using r Inl joins_like by (simp add: gs_net_accept.simps [of n] Let_def)
  next
    case (Inr a)
    note ac = r [unfolded Inr]
    then show ?thesis
      using joins_trans [OF joins_accept_one [OF ac]] 1 [OF ac [symmetric] refl] by (simp add: gs_net_accept.simps [of n])
  qed
qed

end
