(* ===== verification/NetPoll.thy ===== *)
theory NetPoll
  imports NetRun "HOL-Library.Multiset"
begin

text \<open>
  Runs of the transport: the states a host can bring it to, the invariant that holds in all of
  them, and what one pass of the loop promises the clients and the host.
\<close>

section \<open>One pass\<close>

text \<open>Between calls: the invariant, and every connection has been sent whole replies in order.\<close>

definition sound :: "gsp_net \<Rightarrow> bool" where
  "sound n \<longleftrightarrow> net_inv n \<and> (\<forall>i. used n i \<longrightarrow> whole n i)"

lemma same_joins: "net_same n m \<Longrightarrow> joins n m"
  by (rule joins_like) (simp add: net_same_def net_like_def)

lemma joins_then_keeps:
  assumes "joins n k" "keeps_net k m"
  shows "sound n \<Longrightarrow> sound m" "net_base n \<Longrightarrow> used n i \<Longrightarrow> used m i \<Longrightarrow> extends n m i"
proof -
  have *: "net_base m \<and> unwatched m \<subseteq> unwatched n \<and> (used n i \<and> used m i \<longrightarrow> extends n m i) \<and>
      (used m i \<longrightarrow> used n i \<or> whole m i)" if b: "net_base n" for i
  proof -
    note j = assms(1) [unfolded joins_def, THEN mp, OF b]
    then have "net_base k" by blast
    note f = assms(2) [unfolded keeps_net_def, THEN mp, OF this]
    have "used k i \<and> extends k m i" if u: "used m i" using f u by (simp add: flow_def)
    then show ?thesis using j f extends_trans whole_extends by (meson order_trans)
  qed
  show "sound m" if "sound n"
  proof -
    have b: "net_base n" "unwatched n = {}" and w: "\<And>i. used n i \<Longrightarrow> whole n i"
      using that by (auto simp: sound_def net_inv_def)
    have "whole m i" if "used m i" for i using * [OF b(1), of i] w whole_extends that by blast
    then show ?thesis using * [OF b(1)] b(2) by (auto simp: sound_def net_inv_def)
  qed
  show "extends n m i" if "net_base n" "used n i" "used m i" using * that by blast
qed

lemma poll_parts:
  assumes "gsp_net_poll n timeout_ms = (st, m)"
  obtains k where "joins n k" "keeps_net k m" "st = GSP_OK"
proof -
  define n0 where "n0 = upd_stats (\<lambda>st. st\<lparr>ns_polls := ns_polls st + 1\<rparr>) n"
  obtain rs ws n1 where s: "net_select n0 timeout_ms = (rs, ws, n1)" by (metis prod_cases3)
  define n2 where "n2 = net_accept_ready rs ws n1"
  have "joins n n1"
    using joins_trans [OF same_joins same_joins [OF select_same [OF s]]] by (simp add: n0_def)
  then have j: "joins n n2" using joins_trans [OF _ joins_accept] by (simp add: n2_def net_accept_ready_def)
  have "keeps_net n2 (net_serve_all rs ws n2)" using keeps_net_fold [OF keeps_serve] by (simp add: net_serve_all_def)
  note k = keeps_net_trans [OF keeps_net_trans [OF this keeps_net_trans [OF keeps_tick keeps_pump]]]
  have "keeps_net k (net_resume_all k)" for k
    unfolding net_resume_all_def by (rule keeps_net_fold [OF keeps_net_resume]) simp_all
  from k [OF this] have "keeps_net n2 m" "st = GSP_OK"
    using assms by (simp_all add: gsp_net_poll_def n0_def [symmetric] s n2_def [symmetric])
  then show ?thesis using that [OF j] by blast
qed

section \<open>Opening\<close>

text \<open>A socket that was not kept is closed again.\<close>

lemma bind_loop_open:
  "bind_loop as host port reuse backlog error os = (s, p, e, os') \<Longrightarrow>
   os_open os' = (if s = GS_SOCK_INVALID then os_open os else s # os_open os) \<and> os_out os' = os_out os"
proof (induction as arbitrary: error os)
  case (Cons a as)
  then show ?case
    by (cases "ad_bind a"; cases "ad_listen a"; fastforce simp: Let_def gs_sys_sock_close_def split: if_splits)
qed simp

lemma bind_open:
  assumes "gs_net_bind host port reuse backlog rs os = (s, p, e, os')"
  shows "os_open os' = (if s = GS_SOCK_INVALID then os_open os else s # os_open os)" "os_out os' = os_out os"
  using assms bind_loop_open by (auto simp: gs_net_bind_def split: if_splits)

lemma open_result:
  "case gsp_net_open server config rs refused nonblocking error_size os of
     (st, Some n, _, os') \<Rightarrow> st = GSP_OK \<and> server = Some (n_server n) \<and> n_os n = os' \<and>
        os_open os' = n_listener n # os_open os \<and> n_listener n \<noteq> GS_SOCK_INVALID \<and> n_conn_count n = 0 \<and>
        (\<exists>k. k < 1024 \<and> 0 < n_write_queue n \<and> n_conns n = replicate k (empty_slot (n_write_queue n)))
   | (st, None, _, os') \<Rightarrow> failed st \<and> os_open os' = os_open os"
proof (cases server)
  case None
  then show ?thesis by (simp add: gsp_net_open_def failed_def)
next
  case (Some s)
  define cfg where "cfg = (case config of Some c \<Rightarrow> c | None \<Rightarrow> gsp_net_config_default)"
  define max_conns where "max_conns = (if nf_max_connections cfg \<noteq> 0 then nf_max_connections cfg else GS_NET_MAX_CONNS_DEFAULT)"
  note op = gsp_net_open_def [of "Some s" config rs refused nonblocking error_size os, unfolded Let_def,
      folded cfg_def, folded max_conns_def]
  consider "1024 < uint max_conns + 1" | k where "\<not> 1024 < uint max_conns + 1" "refused = Some k"
    | "\<not> 1024 < uint max_conns + 1" "refused = None" by (cases refused) auto
  then show ?thesis
  proof cases
    case 3
    then have "uint max_conns < 1024" by simp
    then have "int (unat max_conns) < 1024" unfolding uint_nat .
    then have small: "unat max_conns < 1024" by presburger
    obtain s p e os' where b: "gs_net_bind (case nf_host cfg of None \<Rightarrow> ''0.0.0.0'' | Some h \<Rightarrow> if h = [] then ''0.0.0.0'' else h)
        (if nf_ephemeral_port cfg then 0 else if nf_port cfg \<noteq> 0 then nf_port cfg else GSP_DEFAULT_PORT)
        (nf_reuse_address cfg) (if nf_backlog cfg \<noteq> 0 then uint (nf_backlog cfg) else GS_NET_BACKLOG_DEFAULT) rs os = (s, p, e, os')"
      by (rule prod_cases4)
    show ?thesis
      using 3 small bind_open(1) [OF b] unfolding Some op b prod.case
      by (cases nonblocking) (auto simp: failed_def gs_sys_sock_close_def unat_gt_0)
  qed (unfold Some op, simp_all add: failed_def)
qed

lemma fresh_unused: "n_conns n = replicate k (empty_slot q) \<Longrightarrow> \<not> used n i"
  by (simp add: used_def net_conn_def empty_slot_def)


text \<open>
  A host name that does not resolve is answered with \<^verbatim>\<open>GSP_ERR_INVALID_STATE\<close>; and no bound
  is put on the listener's own descriptor, which the pass hands to \<^verbatim>\<open>FD_SET\<close>.
\<close>

lemma open_unresolved:
  assumes "rs_rc rs \<noteq> 0"
  shows "fst (gsp_net_open (Some s) None rs None nonblocking error_size os) = GSP_ERR_INVALID_STATE"
  using assms by (simp add: gsp_net_open_def gsp_net_config_default_def gs_net_bind_def)

lemma open_unwatchable:
  "\<exists>n e os'. gsp_net_open (Some s) None
     \<lparr>rs_rc = 0, rs_text = [], rs_list = [\<lparr>ad_socket = 5000, ad_errno = would_block, ad_bind = None, ad_listen = None, ad_name = None\<rparr>]\<rparr>
     None None error_size os = (GSP_OK, Some n, e, os') \<and> n_listener n = 5000"
  by (simp add: gsp_net_open_def gsp_net_config_default_def gs_net_bind_def Let_def)

text \<open>A new transport on a server nobody is connected to.\<close>

lemma empty_slot_ok: "0 < q \<Longrightarrow> slot_ok q (empty_slot q)"
  using ring_ok_new [of q zero_write] by (simp add: slot_ok_def empty_slot_def)

lemma open_inv:
  assumes "gsp_net_open (Some s) config rs refused nonblocking error_size os = (st, Some n, e, os')"
    and s: "server_inv s" "\<forall>cid. \<not> is_open s cid"
  shows "net_inv n" "\<not> used n i"
proof -
  obtain k where k: "k < 1024" "0 < n_write_queue n" "n_conns n = replicate k (empty_slot (n_write_queue n))"
    and f: "n_server n = s" "n_listener n \<in> set (os_open (n_os n))" "n_listener n \<noteq> -1" "n_conn_count n = 0"
    using open_result [of os "Some s" config rs refused nonblocking error_size] assms(1) by auto
  note un = fresh_unused [OF k(3)]
  then show "\<not> used n i" by simp
  have "filter nc_in_use (n_conns n) = []" using k(3) by (simp add: empty_slot_def)
  then have "table_ok n" using k f un by (simp add: table_ok_def)
  moreover have "linked n" using f s un by (simp add: linked_def)
  moreover have "slot_ok (n_write_queue n) (net_conn n i)" if "i < length (n_conns n)" for i
    using that k empty_slot_ok by (simp add: net_conn_def)
  ultimately show "net_inv n" using f s un by (simp add: net_inv_def net_base_def unwatched_def)
qed

section \<open>Runs\<close>

text \<open>What the host may call on its server while the transport runs it.\<close>

fun host_call :: "server_call \<Rightarrow> bool" where
  "host_call (Tick now) \<longleftrightarrow> True"
| "host_call (Set_player info now) \<longleftrightarrow> True"
| "host_call (Send_player_info cid info now) \<longleftrightarrow> True"
| "host_call (Set_session_state state now) \<longleftrightarrow> True"
| "host_call Close \<longleftrightarrow> True"
| "host_call _ \<longleftrightarrow> False"

inductive net_reachable :: "gsp_net \<Rightarrow> bool" where
  opened: "reachable s evs cs \<Longrightarrow> \<forall>cid. \<not> is_open s cid \<Longrightarrow>
    gsp_net_open (Some s) config rs refused nonblocking error_size os = (st, Some n, e, os') \<Longrightarrow> net_reachable n"
| polled: "net_reachable n \<Longrightarrow> gsp_net_poll n timeout_ms = (st, m) \<Longrightarrow> net_reachable m"
| closed_one: "net_reachable n \<Longrightarrow> gsp_net_close_connection n cid = (st, m) \<Longrightarrow> net_reachable m"
| hosted: "net_reachable n \<Longrightarrow> host_call c \<Longrightarrow> net_reachable (n\<lparr>n_server := call_state c (n_server n)\<rparr>)"
| events: "net_reachable n \<Longrightarrow> gsp_server_poll_events (n_server n) k = (es, s) \<Longrightarrow> net_reachable (n\<lparr>n_server := s\<rparr>)"
| wire: "net_reachable n \<Longrightarrow> gsp_server_poll_wire (n_server n) k = (ds, s) \<Longrightarrow> net_reachable (n\<lparr>n_server := s\<rparr>)"

lemma keeps_sound: "keeps_net n m \<Longrightarrow> sound n \<Longrightarrow> sound m"
  using joins_then_keeps(1) [of n n m] same_joins [of n n] by (simp add: net_same_def)

lemma close_connection_keeps:
  assumes "gsp_net_close_connection n cid = (st, m)"
  shows "keeps_net n m"
proof (cases "gs_net_find n cid")
  case (Some i)
  then have "i < length (n_conns n)" using find_SomeD [of _ "[0..<length (n_conns n)]" i] by (simp add: gs_net_find_def)
  then show ?thesis using assms Some keeps_drop [of i n] by (auto simp: gsp_net_close_connection_def)
qed (use assms in \<open>simp add: gsp_net_close_connection_def\<close>)

text \<open>The polls of the two logs touch neither connections nor writes.\<close>

lemma log_poll_keeps:
  assumes "server_inv (n_server n) \<Longrightarrow> log_inv s" "s_conns s = s_conns (n_server n)"
    "s_writes s = s_writes (n_server n)" "s_closed s = s_closed (n_server n)" "static s = static (n_server n)"
  shows "keeps_net n (n\<lparr>n_server := s\<rparr>)"
proof (rule net_keeps_server)
  assume si: "server_inv (n_server n)"
  have "server_inv s" using inv_same_sides [OF si] assms si by blast
  moreover have "seats s = seats (n_server n)" using assms by (intro seats_core) auto
  moreover have "queued_for s d = queued_for (n_server n) d" for d using assms(3) by (simp add: queued_for_def)
  ultimately show "server_inv s \<and> seats s = seats (n_server n) \<and>
      (\<forall>d. is_open (n_server n) d \<longrightarrow> (\<exists>ws. queued_for s d = queued_for (n_server n) d @ ws))"
    by auto
qed

lemma log_polls_keep:
  "gsp_server_poll_events (n_server n) k = (es, s) \<Longrightarrow> keeps_net n (n\<lparr>n_server := s\<rparr>)"
  "gsp_server_poll_wire (n_server n) k = (ds, s) \<Longrightarrow> keeps_net n (n\<lparr>n_server := s\<rparr>)"
proof -
  assume p: "gsp_server_poll_events (n_server n) k = (es, s)"
  have "s_closed s = s_closed (n_server n)"
    using p by (auto simp: gsp_server_poll_events_def split: if_splits prod.splits)
  then show "keeps_net n (n\<lparr>n_server := s\<rparr>)"
    using log_inv_poll_events(1) [OF _ p] poll_events_other [OF p] by (intro log_poll_keeps) (auto simp: server_inv_def)
next
  assume p: "gsp_server_poll_wire (n_server n) k = (ds, s)"
  have "s_closed s = s_closed (n_server n)"
    using p by (auto simp: gsp_server_poll_wire_def split: if_splits prod.splits)
  then show "keeps_net n (n\<lparr>n_server := s\<rparr>)"
    using log_inv_poll_wire(1) [OF _ p] poll_wire_other [OF p] by (intro log_poll_keeps) (auto simp: server_inv_def)
qed

lemma host_keeps:
  assumes "host_call c" "c \<noteq> Close"
  shows "keeps_net n (n\<lparr>n_server := call_state c (n_server n)\<rparr>)"
proof (rule net_keeps_server)
  assume si: "server_inv (n_server n)"
  have "seats (call_state c (n_server n)) = seats (n_server n)"
    using assms seated.tick_ok seated.set_player_ok seated.send_player_info_ok seated.set_session_state_ok
    by (cases c) simp_all
  moreover have "grows (n_server n) (call_state c (n_server n))"
    using assms appends.tick_ok appends.set_player_ok appends.send_player_info_ok appends.set_session_state_ok
    by (cases c) simp_all
  ultimately show "server_inv (call_state c (n_server n)) \<and> seats (call_state c (n_server n)) = seats (n_server n) \<and>
      (\<forall>d. is_open (n_server n) d \<longrightarrow> (\<exists>ws. queued_for (call_state c (n_server n)) d = queued_for (n_server n) d @ ws))"
    using call_inv [OF si] si by (simp add: grows_def server_inv_def)
qed

text \<open>A server that is closed under the transport drops what it still held; the queues go out.\<close>

lemma close_sound:
  assumes "sound n"
  shows "sound (n\<lparr>n_server := gsp_server_close (n_server n)\<rparr>)"
proof -
  define m where "m = n\<lparr>n_server := gsp_server_close (n_server n)\<rparr>"
  note u = used_cong [of m n] conns_cong [of m n]
  have b: "net_base n" "unwatched n = {}" and w: "\<And>i. used n i \<Longrightarrow> whole n i"
    using assms by (auto simp: sound_def net_inv_def)
  have cl: "server_inv (n_server m)" "s_closed (n_server m)" "\<forall>d. \<not> is_open (n_server m) d"
    using close_link [of "n_server n"] b(1) by (auto simp: m_def net_base_def linked_def)
  then have "net_base m" using b u by (simp add: net_base_def table_ok_def linked_def m_def)
  moreover have "whole m i" if "used n i" for i
    using w [OF that] queued_closed [OF cl(1)] cl(3) u
    by (auto simp: whole_def delivered_def waiting_def m_def)
  ultimately show ?thesis using b u by (auto simp: sound_def net_inv_def unwatched_def m_def)
qed

lemma net_reachable_sound: "net_reachable n \<Longrightarrow> sound n"
proof (induction rule: net_reachable.induct)
  case (opened s evs cs config rs refused nonblocking error_size os st n e os')
  then have "server_inv s" using reachable_account by blast
  with open_inv [OF opened(3) this opened(2)] show ?case by (auto simp: sound_def)
next
  case (polled n timeout_ms st m)
  from polled(2) obtain k where "joins n k" "keeps_net k m" by (rule poll_parts)
  then show ?case using joins_then_keeps(1) polled(3) by blast
next
  case (hosted n c)
  then show ?case using keeps_sound [OF host_keeps] close_sound by (cases "c = Close") auto
qed (blast intro: keeps_sound close_connection_keeps log_polls_keep)+

section \<open>What a run guarantees\<close>


text \<open>
  The channel a client sees, as a specification: replies are posted at the end of what is
  pending and delivered from its front, one at a time, whole.
\<close>

inductive chan_step :: "'a list \<times> 'a list \<Rightarrow> 'a list \<times> 'a list \<Rightarrow> bool" where
  post: "chan_step (d, q) (d, q @ [x])"
| deliver: "chan_step (d, x # q) (d @ [x], q)"

lemma chan_posts: "chan_step\<^sup>*\<^sup>* (d, q) (d, q @ xs)"
proof (induction xs rule: rev_induct)
  case (snoc x xs)
  show ?case
    using rtranclp.rtrancl_into_rtrancl [of chan_step, OF snoc.IH post [of d "q @ xs" x]] by simp
qed simp

lemma chan_delivers: "chan_step\<^sup>*\<^sup>* (d, xs @ q) (d @ xs, q)"
proof (induction xs arbitrary: d)
  case (Cons x xs)
  show ?case using converse_rtranclp_into_rtranclp [of chan_step, OF deliver Cons.IH [of "d @ [x]"]] by simp
qed simp

lemma extends_channel:
  assumes "extends n m i" "delivered n i ws"
  shows "\<exists>vs. delivered m i vs \<and> chan_step\<^sup>*\<^sup>* (ws, waiting n i) (vs, waiting m i)"
proof -
  obtain us new where u: "delivered m i (ws @ us)" "us @ waiting m i = waiting n i @ new"
    using assms by (auto simp: extends_def)
  have "chan_step\<^sup>*\<^sup>* (ws, waiting n i) (ws @ us, waiting m i)"
    using chan_posts [of ws "waiting n i" new] chan_delivers [of ws us "waiting m i"] u(2) by simp
  then show ?thesis using u(1) by blast
qed

text \<open>
  C12. One pass of the loop implements the channel, for every client that is there before and
  after it: what the kernel has taken for it and what waits for it, in its queue and in the
  server, move as replies posted and delivered. No reply is lost, repeated, reordered, merged
  into another's place or sent to someone else, whatever the sockets do; and a failing client
  never fails the pass.
\<close>

theorem net_poll_refines:
  assumes "net_reachable n" "gsp_net_poll n timeout_ms = (st, m)" "used n i" "used m i" "delivered n i ws"
  shows "st = GSP_OK \<and> sock_of m i = sock_of n i \<and> id_of m i = id_of n i \<and>
    (\<exists>vs. delivered m i vs \<and> chan_step\<^sup>*\<^sup>* (ws, waiting n i) (vs, waiting m i))"
proof -
  have b: "net_base n" using net_reachable_sound [OF assms(1)] by (simp add: sound_def net_inv_def)
  from assms(2) obtain k where k: "joins n k" "keeps_net k m" "st = GSP_OK" by (rule poll_parts)
  from joins_then_keeps(2) [OF k(1,2) b assms(3,4)] have "extends n m i" .
  then show ?thesis using extends_channel [OF _ assms(5)] k(3) by (simp add: extends_def)
qed


lemma pump_drained:
  "net_base n \<Longrightarrow> net_room (gs_net_pump n) \<Longrightarrow>
   \<forall>w \<in> set (ring_items (s_writes (n_server (gs_net_pump n)))). held_back (n_server (gs_net_pump n)) (w_conn w)"
proof (induction n rule: gs_net_pump.induct)
  case (1 n)
  obtain ws s where p: "gsp_server_poll_writes (n_server n) 1 = (ws, s)" by (rule prod.exhaust)
  have room: "net_room n" using 1(4) by (cases "net_room n") (simp_all add: gs_net_pump.simps [of n])
  have pl: "(ws = [] \<or> (\<exists>w. ws = [w])) \<and> (ws = [] \<longrightarrow> (\<forall>w \<in> set (ring_items (s_writes s)). held_back s (w_conn w)))"
    using poll_link [OF _ p] 1(3) by (simp add: net_base_def)
  show ?case
  proof (cases ws)
    case Nil
    then show ?thesis using pl p room by (simp add: gs_net_pump.simps [of n])
  next
    case (Cons w rest)
    with pl have w: "ws = [w]" by simp
    obtain i where i: "gs_net_find (n\<lparr>n_server := s\<rparr>) (w_conn w) = Some i" "used n i"
      "slot_moved n i (net_enqueue (n\<lparr>n_server := s\<rparr>) i w)"
      by (rule pump_take [OF 1(3) room p [unfolded w]])
    have "net_base (gs_net_flush (net_enqueue (n\<lparr>n_server := s\<rparr>) i w) i)"
      using slot_moved_step(1,4) [OF 1(3) i(2,3)] i(2) flush_ok by blast
    then show ?thesis using 1(2,4) room p w i(1) by (simp add: gs_net_pump.simps [of n])
  qed
qed

text \<open>
  C15. Draining leaves nothing behind that could go: after \<^verbatim>\<open>gs_net_pump\<close> either some
  connection's queue is full, or every write left in the server's ring is one that
  \<^verbatim>\<open>write_spacing_us\<close> holds back.
\<close>

theorem net_pump_drains:
  assumes "net_reachable n" "m = gs_net_pump n" "net_room m"
  shows "\<forall>w \<in> set (ring_items (s_writes (n_server m))). held_back (n_server m) (w_conn w)"
proof -
  have "net_base n" using net_reachable_sound [OF assms(1)] by (simp add: sound_def net_inv_def)
  then show ?thesis using pump_drained [of n] assms(2,3) by simp
qed


section \<open>Closing\<close>

lemma drop_used:
  assumes b: "net_base n" and "used n i" and m: "m = gs_net_drop n i cause"
  shows "used m k \<longleftrightarrow> k \<noteq> i \<and> used n k" "k \<noteq> i \<Longrightarrow> net_conn m k = net_conn n k"
    "os_open (n_os m) = remove1 (sock_of n i) (os_open (n_os n))" "n_listener m = n_listener n"
    "length (n_conns m) = length (n_conns n)"
proof -
  obtain now n1 where c: "gsp_net_now_us n = (now, n1)" by (rule prod.exhaust)
  note n1 = now_us_sel [OF c]
  have "table_ok n" using b by (simp add: net_base_def)
  with assms(2) have "0 \<le> sock_of n i" by (simp add: table_ok_def)
  then have u: "nc_in_use (net_conn n i)" "i < length (n_conns n)" "sock_of n i \<noteq> -1"
    using assms(2) by (auto simp: used_def)
  have m': "n_conns m = (n_conns n)[i := free_slot (net_conn n i)]" "n_listener m = n_listener n"
    "os_open (n_os m) = remove1 (sock_of n i) (os_open (n_os n))"
    unfolding m gs_net_drop_def c prod.case Let_def
    using u by (simp_all add: n1 upd_net_conn_def gs_sys_sock_close_def)
  show nc: "net_conn m k = net_conn n k" if "k \<noteq> i" for k using that m' by (simp add: net_conn_def)
  have "\<not> nc_in_use (net_conn m i)" using u m' by (simp add: net_conn_def free_slot_def)
  then show "used m k \<longleftrightarrow> k \<noteq> i \<and> used n k" using m' nc by (cases "k = i") (auto simp: used_def)
  show "os_open (n_os m) = remove1 (sock_of n i) (os_open (n_os n))" "n_listener m = n_listener n"
    "length (n_conns m) = length (n_conns n)" using m' by simp_all
qed

lemma drop_list:
  assumes "net_base n" "distinct is" "\<forall>i \<in> set is. i < length (n_conns n)"
    and m: "m = fold (\<lambda>i n. gs_net_drop n i cause) is n"
  shows "net_base m \<and> (\<forall>k. used m k \<longleftrightarrow> used n k \<and> k \<notin> set is) \<and> n_listener m = n_listener n \<and>
    mset (os_open (n_os n)) = mset (os_open (n_os m)) + mset (map (sock_of n) (filter (used n) is))"
  using assms
proof (induction "is" arbitrary: n)
  case (Cons i "is")
  define n' where "n' = gs_net_drop n i cause"
  have b: "net_base n'" using keeps_drop [of i n cause] Cons.prems by (simp add: n'_def keeps_net_def)
  show ?case
  proof (cases "used n i")
    case True
    note d = drop_used [OF Cons.prems(1) True n'_def]
    have same: "sock_of n' k = sock_of n k" if "k \<in> set (filter (used n) is)" for k
      using that d(2) [of k] Cons.prems(2) by (cases "k = i") auto
    have fl: "filter (used n') is = filter (used n) is" using d(1) Cons.prems(2) by (intro filter_cong) auto
    have so: "sock_of n i \<in> set (os_open (n_os n))" using Cons.prems(1) True by (simp add: net_base_def table_ok_def)
    have map: "map (sock_of n') (filter (used n') is) = map (sock_of n) (filter (used n) is)"
      unfolding fl using same by simp
    have ih: "net_base m \<and> (\<forall>k. used m k \<longleftrightarrow> used n' k \<and> k \<notin> set is) \<and> n_listener m = n_listener n' \<and>
        mset (os_open (n_os n')) = mset (os_open (n_os m)) + mset (map (sock_of n) (filter (used n) is))"
      using Cons.IH [OF b] Cons.prems d(5) unfolding map by (simp add: n'_def)
    have "mset (os_open (n_os n)) = add_mset (sock_of n i) (mset (os_open (n_os n')))" using d(3) so by simp
    then show ?thesis using ih d(1,4) True by auto
  next
    case False
    then have "n' = n" using Cons.prems by (simp add: n'_def gs_net_drop_def used_def)
    then show ?thesis using Cons.IH [OF b] Cons.prems False by (auto simp: n'_def)
  qed
qed simp

text \<open>
  C18. \<^verbatim>\<open>gsp_net_close\<close> ends every connection and reports each to the server: when it
  returns the server holds none and is sound, and of the sockets that were open exactly the
  listener and the accepted ones are closed, each once.
\<close>

theorem net_close_ends_all:
  assumes "net_reachable n" "gsp_net_close n = (s, os)"
  shows "server_inv s \<and> (\<forall>cid. \<not> is_open s cid) \<and>
    mset (os_open (n_os n)) = mset (os_open os) + {#n_listener n#} + mset (map (sock_of n) (filter (used n) [0..<length (n_conns n)]))"
proof -
  have b: "net_base n" using net_reachable_sound [OF assms(1)] by (simp add: sound_def net_inv_def)
  define m where "m = drop_all n"
  have d: "net_base m" "\<And>k. used m k \<longleftrightarrow> used n k \<and> k \<notin> set [0..<length (n_conns n)]" "n_listener m = n_listener n"
    "mset (os_open (n_os n)) = mset (os_open (n_os m)) + mset (map (sock_of n) (filter (used n) [0..<length (n_conns n)]))"
    using drop_list [OF b distinct_upt, of 0 "length (n_conns n)" m GSP_CLOSE_LOCAL_REQUEST]
    by (auto simp: m_def drop_all_def)
  then have none: "\<not> used m k" for k by (auto simp: used_def)
  have s: "s = n_server m" "os = gs_sys_sock_close (n_listener n) (n_os m)"
    using assms(2) d(3) by (simp_all add: gsp_net_close_def Let_def m_def)
  have "n_listener n \<in> set (os_open (n_os m))" using d(1,3) by (simp add: net_base_def table_ok_def)
  moreover have "\<forall>cid. \<not> is_open s cid" using d(1) none by (auto simp: s net_base_def linked_def split: if_splits)
  ultimately show ?thesis
    using d(1,3,4) s by (simp add: net_base_def table_ok_def gs_sys_sock_close_def)
qed

section \<open>A run\<close>

text \<open>
  One client is accepted; the host declares the session active; the next pass gets ten bytes of
  the reply out before the socket is full.
\<close>

definition net_pass :: "gs_sock list \<Rightarrow> gs_sock list \<Rightarrow> gsp_net \<Rightarrow> gsp_net" where
  "net_pass rs ws n = net_resume_all (gs_net_pump (net_tick (net_serve_all rs ws (net_accept_ready rs ws n))))"

definition counted :: "gsp_net \<Rightarrow> gsp_net" where
  "counted n = upd_stats (\<lambda>st. st\<lparr>ns_polls := ns_polls st + 1\<rparr>) n"

lemma poll_pass:
  assumes "fst (net_select (counted n) timeout_ms) = rs" "fst (snd (net_select (counted n) timeout_ms)) = ws"
  shows "gsp_net_poll n timeout_ms = (GSP_OK, net_pass rs ws (snd (snd (net_select (counted n) timeout_ms))))"
  using assms by (simp add: gsp_net_poll_def net_pass_def counted_def case_prod_beta)

definition demo_errno :: gs_errno where
  "demo_errno = \<lparr>e_code = 104, e_text = Some ''Connection reset by peer''\<rparr>"

definition demo_resolved :: gs_resolved where
  "demo_resolved = \<lparr>rs_rc = 0, rs_text = [],
     rs_list = [\<lparr>ad_socket = 3, ad_errno = demo_errno, ad_bind = None, ad_listen = None, ad_name = None\<rparr>]\<rparr>"

definition demo_net_config :: gsp_net_config where
  "demo_net_config = gsp_net_config_default\<lparr>nf_max_connections := 1, nf_write_queue := 2, nf_read_buffer := 8\<rparr>"

definition demo_os :: gs_os where
  "demo_os = \<lparr>os_clock = [], os_selects = [Select_ready [3] []],
     os_accepts = [Inr \<lparr>a_sock = 4, a_name = None, a_nonblocking = None, a_nodelay = None\<rparr>],
     os_recvs = [], os_sends = [Inr 10], os_open = [0], os_out = (\<lambda>_. []), os_waits = [], os_binds = []\<rparr>"

abbreviation (input) demo_opening :: "gsp_status \<times> gsp_net option \<times> bytes option \<times> gs_os" where
  "demo_opening \<equiv> gsp_net_open (Some demo_server) (Some demo_net_config) demo_resolved None None None demo_os"

definition demo_net :: gsp_net where
  "demo_net = the (fst (snd demo_opening))"

definition demo_met :: gsp_net where
  "demo_met = net_pass [3] [] (snd (snd (net_select (counted demo_net) 0)))"

definition demo_told :: gsp_net where
  "demo_told = demo_met\<lparr>n_server := call_state (Set_session_state GSP_SESSION_ACTIVE 5) (n_server demo_met)\<rparr>"

definition demo_sent :: gsp_net where
  "demo_sent = net_pass [] [] (snd (snd (net_select (counted demo_told) (- 1))))"

lemma demo_net_reachable: "net_reachable demo_net"
proof -
  have "fst (snd demo_opening) \<noteq> None" by code_simp
  then have "demo_opening = (fst demo_opening, Some demo_net, snd (snd demo_opening))"
    by (auto simp: demo_net_def prod_eq_iff)
  moreover have "map c_used (s_conns demo_server) = [False]" by code_simp
  then have "\<not> live demo_server i" for i by (cases "s_conns demo_server") (auto simp: live_def conn_def)
  then have "\<forall>cid. \<not> is_open demo_server cid" by (simp add: is_open_iff)
  ultimately show ?thesis by (metis opened [OF created [OF demo_created]] prod.collapse)
qed

lemma demo_met_poll: "gsp_net_poll demo_net 0 = (GSP_OK, demo_met)"
  unfolding demo_met_def by (rule poll_pass) code_simp+

lemma demo_told_reachable: "net_reachable demo_told"
  unfolding demo_told_def by (rule hosted [OF polled [OF demo_net_reachable demo_met_poll]]) simp

text \<open>What the statements below need of the two states, read off in one evaluation each.\<close>

definition told_facts :: "gsp_net \<Rightarrow> (gs_sock list \<times> gs_sock list) \<times> bool \<times> bool \<times> nat \<times> bool" where
  "told_facts n =
     (let x = net_select (counted n) (- 1) in (fst x, fst (snd x)),
      used n 0, delivered n 0 [], rg_count (s_writes (n_server n)), gsp_server_next_due_us (n_server n) = GSP_TIME_NEVER)"

lemma demo_told_facts: "told_facts demo_told = (([], []), True, True, 1, True)" by code_simp

lemma demo_sent_poll: "gsp_net_poll demo_told (- 1) = (GSP_OK, demo_sent)"
  unfolding demo_sent_def using demo_told_facts by (intro poll_pass) (simp_all add: told_facts_def Let_def)

lemma demo_used: "used demo_told 0" "used demo_sent 0"
proof -
  show "used demo_told 0" using demo_told_facts by (simp add: told_facts_def)
  show "used demo_sent 0" by code_simp
qed


theorem net_poll_refines_witness:
  "\<exists>vs. delivered demo_sent 0 vs \<and> chan_step\<^sup>*\<^sup>* ([], waiting demo_told 0) (vs, waiting demo_sent 0)"
proof -
  have "delivered demo_told 0 []" using demo_told_facts by (simp add: told_facts_def)
  from net_poll_refines [OF demo_told_reachable demo_sent_poll demo_used this] show ?thesis by blast
qed


theorem net_pump_drains_witness:
  "list_all (\<lambda>w. held_back (n_server (gs_net_pump demo_told)) (w_conn w))
     (ring_items (s_writes (n_server (gs_net_pump demo_told))))"
proof -
  have "net_room (gs_net_pump demo_told)" by code_simp
  from net_pump_drains [OF demo_told_reachable refl this] show ?thesis by (simp add: list_all_iff)
qed


definition footprint :: "gsp_net \<Rightarrow> gs_sock list \<times> gs_sock \<times> (bool \<times> gs_sock) list" where
  "footprint n = (os_open (n_os n), n_listener n, map (\<lambda>c. (nc_in_use c, nc_sock c)) (n_conns n))"

theorem net_close_ends_all_witness:
  "(\<forall>cid. \<not> is_open (fst (gsp_net_close demo_met)) cid) \<and> mset (os_open (snd (gsp_net_close demo_met))) = {#0#}"
proof -
  have "footprint demo_met = ([4, 3, 0], 3, [(True, 4)])" by code_simp
  then have f: "os_open (n_os demo_met) = [4, 3, 0]" "n_listener demo_met = 3"
    and m: "map (\<lambda>c. (nc_in_use c, nc_sock c)) (n_conns demo_met) = [(True, 4)]" by (simp_all add: footprint_def)
  from m have "length (n_conns demo_met) = 1" "used demo_met 0" "sock_of demo_met 0 = 4"
    by (auto simp: used_def net_conn_def dest: arg_cong [of _ _ length])
  with f net_close_ends_all [OF polled [OF demo_net_reachable demo_met_poll], of "fst (gsp_net_close demo_met)"
      "snd (gsp_net_close demo_met)"] show ?thesis by simp
qed

end
