(* ===== verification/Gswire.thy ===== *)
theory Gswire
  imports ReplayEnds NetSys
begin

text \<open>
  The capture tool, \<^verbatim>\<open>tools/gswire.c\<close>: \<open>stats\<close>, \<open>dump\<close>, \<open>replay\<close> and
  \<open>extract\<close> over a capture file, and \<^verbatim>\<open>main\<close>.

  The two streams a process prints to are \<open>stdio\<close>: what was printed so far. What the
  allocator and \<^verbatim>\<open>fopen\<close> answer is \<open>gs_env\<close>: the contents of the files that can be
  read, the fresh streams of those that can be written. A command gives its exit status and
  the streams. The source is UTF-8; its signs are written as their bytes.
\<close>

section \<open>Printing\<close>

record stdio =
  so_out :: bytes
  so_err :: bytes

definition printf :: "bytes \<Rightarrow> stdio \<Rightarrow> stdio" where
  "printf s io = io\<lparr>so_out := so_out io @ s\<rparr>"

definition eprintf :: "bytes \<Rightarrow> stdio \<Rightarrow> stdio" where
  "eprintf s io = io\<lparr>so_err := so_err io @ s\<rparr>"

lemma printf_sel [simp]:
  "so_out (printf s io) = so_out io @ s" "so_err (printf s io) = so_err io"
  "so_out (eprintf s io) = so_out io" "so_err (eprintf s io) = so_err io @ s"
  by (simp_all add: printf_def eprintf_def)

definition WARN_SIGN :: bytes where "WARN_SIGN = [CHR 0xE2, CHR 0x9A, CHR 0xA0]"
definition STOP_SIGN :: bytes where "STOP_SIGN = [CHR 0xE2, CHR 0x9B, CHR 0x94]"
definition ELLIPSIS :: bytes where "ELLIPSIS = [CHR 0xE2, CHR 0x80, CHR 0xA6]"
definition EM_DASH :: bytes where "EM_DASH = [CHR 0xE2, CHR 0x80, CHR 0x94]"

text \<open>The conversions \<^verbatim>\<open>%u\<close>, \<^verbatim>\<open>%llu\<close> and the field width.\<close>

definition fmt_u :: "'a::len word \<Rightarrow> bytes" where
  "fmt_u w = fmt_int (uint w)"

definition pad :: "nat \<Rightarrow> bytes \<Rightarrow> bytes" where
  "pad w s = replicate (w - length s) SPACE @ s"

text \<open>
  The conversion \<^verbatim>\<open>%.3f\<close>, correctly rounded, and the division of an \<^verbatim>\<open>int64_t\<close> by
  the double \<open>d\<close>, both operands and the quotient rounded.
\<close>

fun fmt_f3 :: "double \<Rightarrow> bytes" where
  "fmt_f3 NaN = ''nan''"
| "fmt_f3 (Infinity s) = (if s then ''-inf'' else ''inf'')"
| "fmt_f3 (Finite s m e) =
     (case as_ratio m e of (n, d) \<Rightarrow>
        let q = div_even (n * 1000) d; f = dec_digits (q mod 1000) in
        (if s then ''-'' else []) @ dec_digits (q div 1000) @ ''.'' @ replicate (3 - length f) CHR ''0'' @ f)"

definition quotient :: "int \<Rightarrow> int \<Rightarrow> double" where
  "quotient v d =
     (case round_ratio (v < 0) \<bar>v\<bar> 1 of
        Finite s m e \<Rightarrow> (case as_ratio m e of (n, k) \<Rightarrow> round_ratio s n (k * d))
      | x \<Rightarrow> x)"

definition direction_name :: "u8 \<Rightarrow> bytes" where
  "direction_name d =
     (if d = direction_value GSP_WIRE_CLIENT_TO_SERVER then ''C->S''
      else if d = direction_value GSP_WIRE_SERVER_TO_CLIENT then ''S->C''
      else if d = direction_value GSP_WIRE_META then ''meta''
      else ''????'')"

text \<open>\<^verbatim>\<open>print_flags\<close>, \<^verbatim>\<open>print_payload\<close> and \<^verbatim>\<open>print_header\<close>, by the text they print.\<close>

definition print_flags :: "u8 \<Rightarrow> bytes" where
  "print_flags flags =
     (if flags AND GSP_WIRE_REDACTED \<noteq> 0 then ''R'' else ''-'') @
     (if flags AND GSP_WIRE_LOST \<noteq> 0 then ''L'' else ''-'') @
     (if flags AND GSP_WIRE_CONTINUES \<noteq> 0 then ''+'' else ''-'')"

definition payload_byte :: "byte \<Rightarrow> bytes" where
  "payload_byte b =
     (if 0x20 \<le> ord b \<and> ord b < 0x7f \<and> b \<noteq> BACKSLASH then [b]
      else if b = BACKSLASH then [BACKSLASH, BACKSLASH]
      else if b = LF then [BACKSLASH, CHR ''n'']
      else if b = CR then [BACKSLASH, CHR ''r'']
      else if b = TAB then [BACKSLASH, CHR ''t'']
      else [BACKSLASH, CHR ''x'', hex_digits ! (of_char b div 16), hex_digits ! (of_char b mod 16)])"

definition print_payload :: "bytes \<Rightarrow> nat \<Rightarrow> bytes" where
  "print_payload data limit =
     concat (map payload_byte (take limit data)) @
     (if limit < length data
      then '' '' @ ELLIPSIS @ '' ('' @ fmt_int (int (length data - limit)) @ '' more)'' else [])"

definition print_header :: "gsp_replay \<Rightarrow> bytes \<Rightarrow> bytes" where
  "print_header rp path =
     (let info = gsp_replay_info rp in
      path @ [LF] @
      ''  library     '' @ ri_library info @ [LF] @
      ''  clock       '' @ ri_clock info @ [LF] @
      ''  port        '' @ fmt_u (ri_port info) @ [LF] @
      ''  identifiers '' @ (if ri_identifiers_recorded info then ''RECORDED'' else ''redacted'') @
      (if ri_identifiers_recorded info
       then ''  '' @ WARN_SIGN @ '' this capture carries a peer address and any DeviceID verbatim'' else []) @ [LF] @
      (if ri_note info \<noteq> [] then ''  note        '' @ ri_note info @ [LF] else []))"

definition fail :: "bytes \<Rightarrow> bytes option \<Rightarrow> stdio \<Rightarrow> int \<times> stdio" where
  "fail what detail io =
     (1, eprintf (STOP_SIGN @ '' '' @ what @
           (case detail of None \<Rightarrow> [] | Some d \<Rightarrow> (if d \<noteq> [] then '': '' else []) @ d) @ [LF]) io)"

section \<open>The commands\<close>

record gs_env =
  env_alloc :: bool
  env_server_alloc :: bool
  env_read :: "bytes \<Rightarrow> bytes option"
  env_write :: "bytes \<Rightarrow> out_file option"

text \<open>
  The loop \<^verbatim>\<open>while ((n = gsp_replay_read(rp, chunks, 16u)) > 0u)\<close> with the loop over the
  chunks of one read in it, which \<^verbatim>\<open>cmd_dump\<close> and \<^verbatim>\<open>cmd_stats\<close> have around different
  bodies.
\<close>

function for_chunks :: "(gsp_wire_chunk \<Rightarrow> 's \<Rightarrow> 's) \<Rightarrow> gsp_replay \<Rightarrow> 's \<Rightarrow> gsp_replay \<times> 's" where
  "for_chunks body rp x =
     (case gsp_replay_read rp 16 of (cs, rp) \<Rightarrow>
        if cs = [] then (rp, x) else for_chunks body rp (fold body cs x))"
  by pat_completeness auto
termination
proof (relation "measure (\<lambda>(body, rp, x). length (rp_file rp))", goal_cases)
  case (2 body rp x cs t)
  then have "replay_read_loop 16 rp = (cs, t)" by (auto simp: gsp_replay_read_def split: if_splits)
  from replay_read_loop_shrinks [OF this] 2 show ?case by (cases cs) auto
qed simp

declare for_chunks.simps [simp del]

definition dump_chunk :: "bool \<Rightarrow> gsp_wire_chunk \<Rightarrow> u64 \<times> stdio \<Rightarrow> u64 \<times> stdio" where
  "dump_chunk full c = (\<lambda>(index, io).
     (index + 1,
      printf (pad 4 (fmt_u index) @ '' '' @ pad 11 (fmt_int (wc_host_time_us c)) @ '' '' @
              pad 5 (fmt_u (wc_conn c)) @ ''  '' @ direction_name (wc_direction c) @ ''  '' @
              print_flags (wc_flags c) @ ''  '' @ pad 3 (fmt_int (int (length (wc_data c)))) @ ''  '' @
              print_payload (wc_data c) (if full then GSP_WIRE_CHUNK_MAX else 96) @ [LF]) io))"

text \<open>How \<^verbatim>\<open>cmd_dump\<close> and \<^verbatim>\<open>cmd_stats\<close> end.\<close>

definition ends_badly :: "gsp_replay \<Rightarrow> stdio \<Rightarrow> int \<times> stdio" where
  "ends_badly rp io =
     (if failed (gsp_replay_status rp)
      then (1, snd (fail ''the capture ends badly'' (Some (gsp_replay_error rp)) io)) else (0, io))"

definition cmd_dump :: "gs_env \<Rightarrow> bytes \<Rightarrow> bool \<Rightarrow> bool \<Rightarrow> stdio \<Rightarrow> int \<times> stdio" where
  "cmd_dump env path full identifiers io =
     (case gsp_replay_open (env_alloc env) (env_read env) (Some path) of
        Inl st \<Rightarrow> fail ''cannot read the capture'' (Some (gsp_status_str st)) io
      | Inr rp \<Rightarrow>
          (let io = printf (print_header rp path) io;
               io = (if ri_identifiers_recorded (gsp_replay_info rp) \<and> \<not> identifiers
                     then printf (''  '' @ WARN_SIGN @
                       '' printing anyway is what --identifiers is for; the file is not redacted'' @ [LF]) io
                     else io);
               io = printf ([LF] @ ''  #     time_us  conn  dir   flg  len  payload'' @ [LF]) io
           in case for_chunks (dump_chunk full) rp (0, io) of (rp, index, io) \<Rightarrow>
                ends_badly rp
                  (printf ([LF] @ fmt_u (gsp_replay_chunks_read rp) @ '' chunk(s)'' @ [LF]) io)))"

text \<open>The counters of \<^verbatim>\<open>cmd_stats\<close>.\<close>

record gs_stats =
  sx_client :: u64
  sx_server :: u64
  sx_meta :: u64
  sx_lost :: u64
  sx_redacted :: u64
  sx_bytes :: u64
  sx_opens :: u64
  sx_first :: gsp_time_us
  sx_last :: gsp_time_us
  sx_have_time :: bool

definition zero_stats :: gs_stats where
  "zero_stats = \<lparr>sx_client = 0, sx_server = 0, sx_meta = 0, sx_lost = 0, sx_redacted = 0, sx_bytes = 0,
     sx_opens = 0, sx_first = 0, sx_last = 0, sx_have_time = False\<rparr>"

definition says_opened :: "gsp_wire_chunk \<Rightarrow> bool" where
  "says_opened c \<longleftrightarrow> 17 \<le> length (wc_data c) \<and> take 17 (wc_data c) = ''CONNECTION_OPENED''"

definition stats_chunk :: "gsp_wire_chunk \<Rightarrow> gs_stats \<Rightarrow> gs_stats" where
  "stats_chunk c x =
     (let x = x\<lparr>sx_bytes := sx_bytes x + of_nat (length (wc_data c))\<rparr>;
          x = (if \<not> sx_have_time x then x\<lparr>sx_first := wc_host_time_us c, sx_have_time := True\<rparr> else x);
          x = x\<lparr>sx_last := wc_host_time_us c\<rparr>;
          x = (if wc_flags c AND GSP_WIRE_LOST \<noteq> 0 then x\<lparr>sx_lost := sx_lost x + 1\<rparr> else x);
          x = (if wc_flags c AND GSP_WIRE_REDACTED \<noteq> 0 then x\<lparr>sx_redacted := sx_redacted x + 1\<rparr> else x)
      in if wc_direction c = direction_value GSP_WIRE_CLIENT_TO_SERVER then x\<lparr>sx_client := sx_client x + 1\<rparr>
         else if wc_direction c = direction_value GSP_WIRE_SERVER_TO_CLIENT then x\<lparr>sx_server := sx_server x + 1\<rparr>
         else if wc_direction c = direction_value GSP_WIRE_META then
           (let x = x\<lparr>sx_meta := sx_meta x + 1\<rparr> in
            if says_opened c then x\<lparr>sx_opens := sx_opens x + 1\<rparr> else x)
         else x)"

text \<open>
  What \<^verbatim>\<open>cmd_stats\<close> prints after the loop. The difference of the two times is that of
  the integers: where it does not fit \<^verbatim>\<open>int64_t\<close> the source's subtraction is undefined.
\<close>

definition stats_text :: "u64 \<Rightarrow> gs_stats \<Rightarrow> bytes" where
  "stats_text chunks x =
     [LF] @ ''  chunks      '' @ fmt_u chunks @ ''  ('' @ fmt_u (sx_client x) @ '' client, '' @
     fmt_u (sx_server x) @ '' server, '' @ fmt_u (sx_meta x) @ '' meta)'' @ [LF] @
     ''  payload     '' @ fmt_u (sx_bytes x) @ '' byte(s)'' @ [LF] @
     ''  connections '' @ fmt_u (sx_opens x) @ '' opened'' @ [LF] @
     ''  redacted    '' @ fmt_u (sx_redacted x) @ '' chunk(s)'' @ [LF] @
     ''  lost        '' @ fmt_u (sx_lost x) @ '' chunk(s)'' @
     (if 0 < sx_lost x then ''  '' @ WARN_SIGN @ '' the wire ring overflowed; this capture has holes'' else []) @ [LF] @
     (if sx_have_time x
      then ''  span        '' @ fmt_f3 (quotient (sx_last x - sx_first x) 1000000) @ '' s'' @ [LF] else [])"

definition cmd_stats :: "gs_env \<Rightarrow> bytes \<Rightarrow> stdio \<Rightarrow> int \<times> stdio" where
  "cmd_stats env path io =
     (case gsp_replay_open (env_alloc env) (env_read env) (Some path) of
        Inl st \<Rightarrow> fail ''cannot read the capture'' (Some (gsp_status_str st)) io
      | Inr rp \<Rightarrow>
          (let io = printf (print_header rp path) io in
           case for_chunks stats_chunk rp zero_stats of (rp, x) \<Rightarrow>
             ends_badly rp (printf (stats_text (gsp_replay_chunks_read rp) x) io)))"

text \<open>
  The findings: the name of each flag that is set. \<^verbatim>\<open>gsp_message_flag_name\<close> always returns
  a string, so the source's test for NULL never fails.
\<close>

definition flag_names :: "u32 \<Rightarrow> bytes list" where
  "flag_names flags =
     List.map_filter (\<lambda>bt. if flags AND push_bit bt 1 = 0 then None else gsp_message_flag_name (push_bit bt 1)) [0..<32]"

definition findings_text :: "u32 \<Rightarrow> bytes" where
  "findings_text flags = concat (map (\<lambda>name. '' '' @ name) (flag_names flags))"

text \<open>What \<^verbatim>\<open>cmd_replay\<close> prints of the report.\<close>

definition report_text :: "gsp_replay_report \<Rightarrow> bytes" where
  "report_text rep =
     [LF] @ ''  chunks      '' @ fmt_u (rep_chunks rep) @ ''  ('' @ fmt_u (rep_client_chunks rep) @ '' client, '' @
     fmt_u (rep_server_chunks rep) @ '' server, '' @ fmt_u (rep_meta_chunks rep) @ '' meta)'' @ [LF] @
     ''  connections '' @ fmt_u (rep_connections rep) @ [LF] @
     ''  messages    '' @ fmt_u (rep_messages rep) @ ''  ('' @ fmt_u (rep_shots rep) @ '' shot(s))'' @ [LF] @
     ''  errors      '' @ fmt_u (rep_protocol_errors rep) @ '' protocol error(s)'' @ [LF] @
     ''  replies     '' @ fmt_u (rep_replies_produced rep) @ '' produced, '' @ fmt_u (rep_replies_matched rep) @
     '' matched, '' @ fmt_u (rep_replies_differing rep) @ '' DIFFERING, '' @ fmt_u (rep_replies_missing rep) @
     '' missing, '' @ fmt_u (rep_replies_extra rep) @ '' extra'' @ [LF] @
     (if 0 < rep_replies_unsolicited rep
      then ''              '' @ fmt_u (rep_replies_unsolicited rep) @
           '' unsolicited (201/202/203) in the recording that this'' @ [LF] @
           ''              server was never given the game state to produce'' @ [LF] else []) @
     (if 0 < rep_lost_chunks rep
      then ''  '' @ WARN_SIGN @ '' '' @ fmt_u (rep_lost_chunks rep) @
           '' chunk(s) carry LOST: this capture has holes'' @ [LF] else []) @
     (if rep_flags_seen rep \<noteq> 0
      then ''  findings   '' @ findings_text (rep_flags_seen rep) @ [LF] else []) @
     (if 0 < rep_replies_differing rep
      then [LF] @ WARN_SIGN @ '' '' @ fmt_u (rep_replies_differing rep) @
           '' reply(s) differ from what was sent at the time.  After a'' @ [LF] @
           ''  deliberate change that is the POINT of this run; otherwise it is a'' @ [LF] @
           ''  regression against a real session.'' @ [LF] else [])"

abbreviation (input) GSP_ACK_TEXT_MAX :: nat where "GSP_ACK_TEXT_MAX \<equiv> 64"

definition replay_config :: "bytes option \<Rightarrow> bool \<Rightarrow> gsp_server_config" where
  "replay_config ack reject_incomplete =
     (let p = cfg_policy gsp_server_config_default;
          p = (case ack of None \<Rightarrow> p | Some t \<Rightarrow> p\<lparr>ack_text := snprintf GSP_ACK_TEXT_MAX t\<rparr>);
          p = p\<lparr>reject_incomplete_shots := reject_incomplete\<rparr>
      in gsp_server_config_default\<lparr>cfg_policy := p, cfg_event_ring := 4096, cfg_write_ring := 256,
           cfg_max_connections := 16\<rparr>)"

text \<open>\<open>None\<close>: the replay does not return.\<close>

definition cmd_replay :: "gs_env \<Rightarrow> bytes \<Rightarrow> bytes option \<Rightarrow> bool \<Rightarrow> stdio \<Rightarrow> (int \<times> stdio) option" where
  "cmd_replay env path ack reject_incomplete io =
     (case gsp_replay_open (env_alloc env) (env_read env) (Some path) of
        Inl st \<Rightarrow> Some (fail ''cannot read the capture'' (Some (gsp_status_str st)) io)
      | Inr rp \<Rightarrow>
          (case gsp_server_create (Some (replay_config ack reject_incomplete)) (env_server_alloc env) of
             Inl st \<Rightarrow> Some (fail ''the library refused this configuration'' None io)
           | Inr server \<Rightarrow>
               (let io = printf (print_header rp path) io in
                case gsp_replay_into_server rp server of
                  None \<Rightarrow> None
                | Some (st, rep, rp, server) \<Rightarrow>
                    (let io = printf (report_text rep) io in
                     Some (if failed st then fail ''the capture ends badly'' (Some (gsp_status_str st)) io
                           else (0, io))))))"

text \<open>
  \<^verbatim>\<open>fclose\<close> succeeds when what is still buffered can be written and no write has failed:
  a chunk is smaller than the buffer of a stream, so that its bytes go out here.
\<close>

definition fclose_ok :: "out_file \<Rightarrow> bool" where
  "fclose_ok f \<longleftrightarrow> of_flush_ok f \<and> \<not> of_error f"

text \<open>The chunk with the wanted index: the loop of \<^verbatim>\<open>cmd_extract\<close> up to its body.\<close>

function find_chunk :: "gsp_replay \<Rightarrow> u64 \<Rightarrow> u64 \<Rightarrow> gsp_wire_chunk option" where
  "find_chunk rp index want =
     (case gsp_replay_read rp 1 of
        ([], rp) \<Rightarrow> None
      | (c # cs, rp) \<Rightarrow> if index \<noteq> want then find_chunk rp (index + 1) want else Some c)"
  by pat_completeness auto
termination
proof (relation "measure (\<lambda>(rp, index, want). length (rp_file rp))", goal_cases)
  case (2 rp index want x t c cs)
  then have "replay_read_loop 1 rp = (c # cs, t)" by (auto simp: gsp_replay_read_def split: if_splits)
  from replay_read_loop_shrinks [OF this] show ?case by simp
qed simp

declare find_chunk.simps [simp del]

text \<open>The exit status, the streams, and the file that was written, if one was opened.\<close>

definition cmd_extract ::
  "gs_env \<Rightarrow> bytes \<Rightarrow> u64 \<Rightarrow> bytes option \<Rightarrow> stdio \<Rightarrow> int \<times> stdio \<times> out_file option" where
  "cmd_extract env path want out_path io =
     (case gsp_replay_open (env_alloc env) (env_read env) (Some path) of
        Inl st \<Rightarrow> (case fail ''cannot read the capture'' (Some (gsp_status_str st)) io of (x, io) \<Rightarrow> (x, io, None))
      | Inr rp \<Rightarrow>
          (case find_chunk rp 0 want of
             None \<Rightarrow> (case fail ''no such chunk'' (Some path) io of (x, io) \<Rightarrow> (x, io, None))
           | Some c \<Rightarrow>
               (let n = fmt_int (int (length (wc_data c)));
                    io = (if wc_flags c AND GSP_WIRE_CONTINUES \<noteq> 0
                          then eprintf (WARN_SIGN @ '' chunk '' @ fmt_u want @
                                 '' CONTINUES into the next one; this writes only the first '' @ n @ '' bytes'' @ [LF]) io
                          else io)
                in case out_path of
                     None \<Rightarrow> (0, printf (wc_data c) io, None)
                   | Some out \<Rightarrow>
                       (case env_write env out of
                          None \<Rightarrow> (case fail ''cannot write'' (Some out) io of (x, io) \<Rightarrow> (x, io, None))
                        | Some f \<Rightarrow>
                            (let f = fputs (wc_data c) f in
                             if \<not> fclose_ok f
                             then (case fail ''cannot write'' (Some out) io of (x, io) \<Rightarrow> (x, io, Some f))
                             else (0, eprintf (''wrote '' @ n @ '' byte(s) to '' @ out @ [LF]) io, Some f))))))"

section \<open>The command line\<close>

definition usage :: "bytes \<Rightarrow> bytes" where
  "usage argv0 =
     ''usage: '' @ argv0 @ '' <command> FILE [options]'' @ [LF] @ [LF] @
     ''  stats   FILE                       what the capture holds'' @ [LF] @
     ''  dump    FILE [--bytes]             every chunk, one per line'' @ [LF] @
     ''  replay  FILE [--ack-text TEXT]     '' @ WARN_SIGN @ '' drive it back through THIS library and'' @ [LF] @
     ''                [--reject-incomplete]  report what it makes of it now'' @ [LF] @
     ''  extract FILE N [OUT]               one chunk'' @ [CHR 0x27] @ ''s payload, raw '' @ EM_DASH @ '' how a capture'' @ [LF] @
     ''                                     becomes a fixture.  '' @ WARN_SIGN @ '' Redact first'' @ [LF]"

record gs_wire_options =
  wo_whole :: bool
  wo_identifiers :: bool
  wo_reject_incomplete :: bool
  wo_ack_text :: "bytes option"

text \<open>The loop over the arguments from the third on: \<open>Inl\<close> is the option that is not known.\<close>

fun wire_options :: "bytes \<Rightarrow> bytes list \<Rightarrow> gs_wire_options \<Rightarrow> bytes + gs_wire_options" where
  "wire_options cmd [] o1 = Inr o1"
| "wire_options cmd (a # as) o1 =
     (if a = ''--bytes'' then wire_options cmd as (o1\<lparr>wo_whole := True\<rparr>)
      else if a = ''--identifiers'' then wire_options cmd as (o1\<lparr>wo_identifiers := True\<rparr>)
      else if a = ''--reject-incomplete'' then wire_options cmd as (o1\<lparr>wo_reject_incomplete := True\<rparr>)
      else if a = ''--ack-text'' \<and> as \<noteq> [] then wire_options cmd (tl as) (o1\<lparr>wo_ack_text := Some (hd as)\<rparr>)
      else if cmd \<noteq> ''extract'' then Inl a
      else wire_options cmd as o1)"

text \<open>\<^verbatim>\<open>main\<close>; \<open>argv\<close> has its first element, the name of the program.\<close>

definition gswire_main :: "gs_env \<Rightarrow> bytes list \<Rightarrow> stdio \<Rightarrow> (int \<times> stdio \<times> out_file option) option" where
  "gswire_main env argv io =
     (let plain = (\<lambda>(x, io). (x, io, None)) in
      if length argv < 3
      then Some (if 1 < length argv \<and> argv ! 1 = ''--help'' then 0 else 2, printf (usage (argv ! 0)) io, None)
      else
        (let cmd = argv ! 1; path = argv ! 2 in
         case wire_options cmd (drop 3 argv)
                \<lparr>wo_whole = False, wo_identifiers = False, wo_reject_incomplete = False, wo_ack_text = None\<rparr> of
           Inl a \<Rightarrow> Some (2, eprintf (STOP_SIGN @ '' unknown option: '' @ a @ [LF]) io, None)
         | Inr o1 \<Rightarrow>
             if cmd = ''dump'' then Some (plain (cmd_dump env path (wo_whole o1) (wo_identifiers o1) io))
             else if cmd = ''stats'' then Some (plain (cmd_stats env path io))
             else if cmd = ''replay''
             then map_option plain (cmd_replay env path (wo_ack_text o1) (wo_reject_incomplete o1) io)
             else if cmd = ''extract'' then
               (if length argv < 4 then Some (2, printf (usage (argv ! 0)) io, None)
                else Some (cmd_extract env path (strtoul (argv ! 3))
                             (if 4 < length argv then Some (argv ! 4) else None) io))
             else Some (2, printf (usage (argv ! 0)) io, None)))"

section \<open>The loops read the whole file\<close>

lemma for_chunks_whole: "for_chunks body r x = (snd (read_whole r), fold body (fst (read_whole r)) x)"
proof (induction body r x rule: for_chunks.induct)
  case (1 body r x)
  obtain cs t where ct: "gsp_replay_read r 16 = (cs, t)" by fastforce
  then have "gsp_replay_read r (Suc 15) = (cs, t)" by simp
  note e = read_whole_block [OF this]
  show ?case using 1 [OF ct [symmetric]] by (cases "cs = []") (simp_all add: for_chunks.simps [of body r] ct e)
qed

text \<open>The index is compared at 64 bits, so the wanted chunk is the one that many places on.\<close>

lemma find_chunk_whole:
  "find_chunk rp index want =
     (let k = unat (want - index); cs = fst (read_whole rp) in if k < length cs then Some (cs ! k) else None)"
proof (induction rp index want rule: find_chunk.induct)
  case (1 rp index want)
  obtain cs t where ct: "gsp_replay_read rp 1 = (cs, t)" by fastforce
  then have ct': "gsp_replay_read rp (Suc 0) = (cs, t)" by simp
  note e = read_whole_block [OF this]
  show ?case
  proof (cases cs)
    case Nil
    then show ?thesis using ct' by (simp add: find_chunk.simps [of rp] e)
  next
    case (Cons c ds)
    have "ds = []"
      using ct Cons by (auto simp: gsp_replay_read_def replay_read_loop.simps Let_def split: if_splits)
    then have whole: "fst (read_whole rp) = c # fst (read_whole t)" using e Cons by simp
    show ?thesis
    proof (cases "index = want")
      case True
      then show ?thesis using ct' Cons whole by (simp add: find_chunk.simps [of rp])
    next
      case False
      then have "want - index \<noteq> 0" by simp
      then have u: "unat (want - index) = Suc (unat (want - (index + 1)))"
        using unat_minus_one [of "want - index"] unat_gt_0 [of "want - index"] by (simp add: algebra_simps)
      have "find_chunk rp index want = find_chunk t (index + 1) want"
        using ct' Cons False by (simp add: find_chunk.simps [of rp])
      then show ?thesis using 1 [OF ct [symmetric] Cons False] whole u by (simp add: Let_def)
    qed
  qed
qed

section \<open>What reaches the screen\<close>

text \<open>The reader of the escapes \<^verbatim>\<open>print_payload\<close> writes.\<close>

definition hex_of :: "byte \<Rightarrow> nat" where
  "hex_of c = (case hex_val c of Some v \<Rightarrow> nat v | None \<Rightarrow> 0)"

fun unescape :: "bytes \<Rightarrow> bytes" where
  "unescape [] = []"
| "unescape [c] = [c]"
| "unescape (c # d # s) =
     (if c \<noteq> BACKSLASH then c # unescape (d # s)
      else if d = BACKSLASH then BACKSLASH # unescape s
      else if d = CHR ''n'' then LF # unescape s
      else if d = CHR ''r'' then CR # unescape s
      else if d = CHR ''t'' then TAB # unescape s
      else (case s of a # b # t \<Rightarrow> char_of (16 * hex_of a + hex_of b) # unescape t | _ \<Rightarrow> []))"

definition printable :: "byte \<Rightarrow> bool" where
  "printable c \<longleftrightarrow> 0x20 \<le> ord c \<and> ord c < 0x7f"

lemma hex_digits_read: "k < 16 \<Longrightarrow> hex_of (hex_digits ! k) = k \<and> printable (hex_digits ! k)"
proof -
  have "list_all (\<lambda>k. hex_of (hex_digits ! k) = k \<and> printable (hex_digits ! k)) [0..<16]" by code_simp
  then show "k < 16 \<Longrightarrow> ?thesis" by (simp add: list_all_iff)
qed

lemma high_digit: "of_char b div 16 < (16::nat)"
proof -
  have "of_char b < (256::nat)" by (metis of_char_mod_256 mod_less_divisor zero_less_numeral)
  then show ?thesis by (simp add: less_mult_imp_div_less)
qed

lemma unescape_plain: "c \<noteq> BACKSLASH \<Longrightarrow> unescape (c # s) = c # unescape s"
  by (cases s) simp_all

lemma payload_byte_read: "unescape (payload_byte b @ s) = b # unescape s"
proof -
  note n = high_digit [of b]
  have "16 * (of_char b div 16) + of_char b mod 16 = (of_char b :: nat)" by simp
  then have "char_of (16 * (of_char b div 16) + of_char b mod 16 :: nat) = b" by (metis char_of_char)
  then show ?thesis
    using hex_digits_read [OF n] hex_digits_read [of "of_char b mod 16"]
    by (simp add: payload_byte_def unescape_plain)
qed

lemma payload_byte_printable: "list_all printable (payload_byte b)"
  using hex_digits_read [OF high_digit [of b]] hex_digits_read [of "of_char b mod 16"]
  by (auto simp: payload_byte_def printable_def)

text \<open>
  C28. Nothing a client sent reaches the terminal raw: what \<^verbatim>\<open>print_payload\<close> prints of a
  payload is printable ASCII only (no control byte, no escape sequence), it is unambiguous (the
  bytes shown can be read back from it), it shows the first \<^verbatim>\<open>limit\<close> bytes, and what is
  left out is counted.
\<close>

theorem payload_safe:
  "\<exists>shown. print_payload data limit =
      shown @ (if limit < length data
               then '' '' @ ELLIPSIS @ '' ('' @ fmt_int (int (length data - limit)) @ '' more)'' else []) \<and>
    list_all printable shown \<and> unescape shown = take limit data"
proof (intro exI conjI)
  have u: "unescape (concat (map payload_byte xs)) = xs" for xs
    by (induction xs) (simp_all add: payload_byte_read)
  show "list_all printable (concat (map payload_byte (take limit data)))"
    using payload_byte_printable by (auto simp: list_all_iff)
  show "unescape (concat (map payload_byte (take limit data))) = take limit data" by (rule u)
qed (simp add: print_payload_def)

section \<open>Statistics\<close>

text \<open>The counters as what they count.\<close>

definition summary :: "gsp_wire_chunk list \<Rightarrow> gs_stats" where
  "summary cs =
     (let count = (\<lambda>P. of_nat (length (filter P cs)) :: u64) in
      \<lparr>sx_client = count (\<lambda>c. wc_direction c = 0), sx_server = count (\<lambda>c. wc_direction c = 1),
       sx_meta = count (\<lambda>c. wc_direction c = 2), sx_lost = count (\<lambda>c. wc_flags c AND 2 \<noteq> 0),
       sx_redacted = count (\<lambda>c. wc_flags c AND 1 \<noteq> 0),
       sx_bytes = of_nat (length (concat (map wc_data cs))),
       sx_opens = count (\<lambda>c. wc_direction c = 2 \<and> says_opened c),
       sx_first = (if cs = [] then 0 else wc_host_time_us (hd cs)),
       sx_last = (if cs = [] then 0 else wc_host_time_us (last cs)), sx_have_time = (cs \<noteq> [])\<rparr>)"

lemma stats_chunk_sel:
  "sx_client (stats_chunk c x) = sx_client x + (if wc_direction c = 0 then 1 else 0)"
  "sx_server (stats_chunk c x) = sx_server x + (if wc_direction c = 1 then 1 else 0)"
  "sx_meta (stats_chunk c x) = sx_meta x + (if wc_direction c = 2 then 1 else 0)"
  "sx_lost (stats_chunk c x) = sx_lost x + (if wc_flags c AND 2 \<noteq> 0 then 1 else 0)"
  "sx_redacted (stats_chunk c x) = sx_redacted x + (if wc_flags c AND 1 \<noteq> 0 then 1 else 0)"
  "sx_bytes (stats_chunk c x) = sx_bytes x + of_nat (length (wc_data c))"
  "sx_opens (stats_chunk c x) = sx_opens x + (if wc_direction c = 2 \<and> says_opened c then 1 else 0)"
  "sx_first (stats_chunk c x) = (if sx_have_time x then sx_first x else wc_host_time_us c)"
  "sx_last (stats_chunk c x) = wc_host_time_us c" "sx_have_time (stats_chunk c x)"
  "gs_stats.more (stats_chunk c x) = gs_stats.more x"
  by (simp_all add: stats_chunk_def Let_def)

lemma stats_chunks: "fold stats_chunk cs zero_stats = summary cs"
proof (induction cs rule: rev_induct)
  case Nil
  show ?case by (simp add: summary_def zero_stats_def)
next
  case (snoc c cs)
  have "stats_chunk c (summary cs) = summary (cs @ [c])"
    by (rule gs_stats.equality) (simp_all add: stats_chunk_sel summary_def Let_def add_ac)
  with snoc show ?case by simp
qed

lemma replay_read_loop_counts:
  "replay_read_loop n r = (cs, t) \<Longrightarrow> rp_chunks t = rp_chunks r + of_nat (length cs)"
proof (induction n arbitrary: r cs t)
  case (Suc n)
  have f: "rp_chunks (replay_fail u st what) = rp_chunks u" for u st what by (simp add: replay_fail_def)
  define r1 where "r1 = r\<lparr>rp_file := drop (unat (get_u32 (take 24 (rp_file r)))) (drop 24 (rp_file r)),
    rp_chunks := rp_chunks r + 1\<rparr>"
  obtain ds u where ds: "replay_read_loop n r1 = (ds, u)" by fastforce
  note loop = Suc(2) [unfolded replay_read_loop.simps(2) Let_def, folded r1_def]
  show ?case
    using Suc(1) [OF ds] loop ds by (auto simp: f r1_def split: if_splits prod.splits)
qed simp

lemma read_whole_counts: "rp_chunks (snd (read_whole r)) = rp_chunks r + of_nat (length (fst (read_whole r)))"
  using replay_read_loop_counts [of _ r] by (simp add: read_whole_def gsp_replay_read_def)

lemma open_fresh:
  assumes "gsp_replay_open alloc_ok fopen path = Inr rp"
  shows "rp_chunks rp = 0" "rp_status rp = GSP_OK"
  using assms by (auto simp: gsp_replay_open_def split: option.splits if_splits prod.splits sum.splits)

text \<open>
  The numbers \<^verbatim>\<open>gswire stats\<close> prints are those of the whole file, however the reads cut
  it: chunks by direction, payload bytes, connections opened, chunks redacted and lost, and the
  time between the first and the last; the exit status says whether the file ended cleanly.
\<close>

theorem stats_counts:
  assumes "gsp_replay_open (env_alloc env) (env_read env) (Some path) = Inr rp" "read_whole rp = (cs, t)"
  shows "so_out (snd (cmd_stats env path io)) =
      so_out io @ print_header rp path @ stats_text (of_nat (length cs)) (summary cs) \<and>
    fst (cmd_stats env path io) = (if failed (gsp_replay_status t) then 1 else 0)"
  using assms read_whole_counts [of rp] open_fresh [OF assms(1)]
  by (simp add: cmd_stats_def for_chunks_whole stats_chunks ends_badly_def fail_def gsp_replay_chunks_read_def)

section \<open>From the recorder to a fixture\<close>

lemma recorded_whole:
  assumes "gsp_recorder_open True fopen (Some p) info = Inr r" "fopen p = Some f" "of_bytes f = []" "\<not> of_error f"
    and "info_ok (fill_info info)" "list_all chunk_ok (taken_chunks bs)"
    and "fst (gsp_recorder_close (record_all r bs)) = GSP_OK"
    and "env_alloc env" "env_read env p = Some (of_bytes (snd (gsp_recorder_close (record_all r bs))))"
  obtains rp where "gsp_replay_open (env_alloc env) (env_read env) (Some p) = Inr rp"
    "fst (read_whole rp) = taken_chunks bs" "rp_status (snd (read_whole rp)) = GSP_PENDING"
proof -
  have "env_read env p = Some (header_text (fill_info info) @ records (taken_chunks bs))"
    using recorded_file [OF assms(1-4,7)] assms(9) by simp
  note o = replay_open_capture [where fopen = "env_read env" and q = p, OF assms(5) this]
  have "length cs \<le> length (records cs)" for cs by (induction cs) (simp_all add: entry_bytes_length)
  then have n: "length (taken_chunks bs) < length (records (taken_chunks bs)) + 1" by (simp add: le_imp_less_Suc)
  show ?thesis
  proof (rule that)
    show "gsp_replay_open (env_alloc env) (env_read env) (Some p) = Inr \<lparr>rp_file = records (taken_chunks bs),
        rp_info = info_read (fill_info info), rp_chunks = 0, rp_status = GSP_OK, rp_error = []\<rparr>" (is "_ = Inr ?rp")
      using o assms(8) by simp
    from replay_read_cut [OF assms(6) _ _ n, of ?rp "length (records (taken_chunks bs))"]
    show "fst (read_whole ?rp) = taken_chunks bs" "rp_status (snd (read_whole ?rp)) = GSP_PENDING"
      by (simp_all add: read_whole_def gsp_replay_read_def whole_all)
  qed
qed

text \<open>
  C21. From the wire to a fixture: when a capture was recorded and closed without an error,
  \<^verbatim>\<open>gswire extract FILE k\<close> prints exactly the bytes of the \<open>k\<close>-th chunk that was
  recorded, and with an output file it writes exactly them there, and exits with 0.
\<close>

theorem extract_recorded:
  assumes "gsp_recorder_open True fopen (Some p) info = Inr r" "fopen p = Some f" "of_bytes f = []" "\<not> of_error f"
    and "info_ok (fill_info info)" "list_all chunk_ok (taken_chunks bs)"
    and "fst (gsp_recorder_close (record_all r bs)) = GSP_OK"
    and "env_alloc env" "env_read env p = Some (of_bytes (snd (gsp_recorder_close (record_all r bs))))"
    and "unat k < length (taken_chunks bs)" "env_write env out = Some g" "of_flush_ok g" "\<not> of_error g" "512 \<le> of_room g"
  shows "(\<exists>io'. cmd_extract env p k None io = (0, io', None) \<and>
      so_out io' = so_out io @ wc_data (taken_chunks bs ! unat k)) \<and>
    (\<exists>io' g'. cmd_extract env p k (Some out) io = (0, io', Some g') \<and> so_out io' = so_out io \<and>
      of_bytes g' = of_bytes g @ wc_data (taken_chunks bs ! unat k))"
proof -
  obtain rp where rp: "gsp_replay_open (env_alloc env) (env_read env) (Some p) = Inr rp" "fst (read_whole rp) = taken_chunks bs"
    using recorded_whole [OF assms(1-9)] .
  define c where "c = taken_chunks bs ! unat k"
  have "find_chunk rp 0 k = Some c" using rp(2) assms(10) by (simp add: find_chunk_whole c_def)
  moreover have "length (wc_data c) \<le> of_room g"
    using assms(6,10,14) by (auto simp: c_def list_all_length chunk_ok_def)
  ultimately show ?thesis
    using rp(1) assms(11-13)
    by (simp add: cmd_extract_def Let_def c_def [symmetric] fputs_def fwrite_def fclose_ok_def min_def)
qed

section \<open>The replay command returns\<close>

text \<open>
  \<^verbatim>\<open>gswire replay\<close> returns on every capture whose times do not go backwards, whatever
  its bytes, with the acknowledgement text and the rejection policy it is given, and its exit
  status says whether the file ended cleanly.
\<close>

theorem gswire_replay_returns:
  assumes "gsp_replay_open (env_alloc env) (env_read env) (Some path) = Inr rp" "env_server_alloc env"
    "sorted (0 # map wc_host_time_us (fst (read_whole rp)))"
  shows "\<exists>io'. cmd_replay env path ack reject io =
    Some (if failed (gsp_replay_status (snd (read_whole rp))) then 1 else 0, io')"
proof -
  have "\<not> isl (gsp_server_create (Some (replay_config ack reject)) True)"
    by (simp add: gsp_server_create_def replay_config_def gsp_server_config_default_def gsp_server_policy_default_def
        or_default_def Let_def split: option.split)
  then obtain s where s: "gsp_server_create (Some (replay_config ack reject)) True = Inr s" by (metis isl_def sum.exhaust)
  moreover from s have "write_spacing_us (s_policy s) \<le> 0"
    by (auto simp: gsp_server_create_def replay_config_def gsp_server_config_default_def gsp_server_policy_default_def
        Let_def split: if_splits option.splits)
  ultimately obtain rep t where "gsp_replay_into_server rp s =
      Some (if failed (gsp_replay_status (snd (read_whole rp))) then gsp_replay_status (snd (read_whole rp)) else GSP_OK,
        rep, snd (read_whole rp), t)"
    using into_server_returns [OF created_ready assms(3)] by metis
  then show ?thesis using assms(1,2) s by (simp add: cmd_replay_def fail_def failed_def)
qed

section \<open>On a capture\<close>

definition demo_env :: "gsp_wire_chunk list \<Rightarrow> gs_env" where
  "demo_env cs = \<lparr>env_alloc = True, env_server_alloc = True,
     env_read = (\<lambda>p. if p = ''a'' then Some (header_text (fill_info None) @ records cs) else None),
     env_write = (\<lambda>_. Some \<lparr>of_bytes = [], of_room = 4096, of_flush_ok = True, of_error = False\<rparr>)\<rparr>"

lemma demo_env_sel:
  "env_alloc (demo_env cs)"
  "env_write (demo_env cs) out = Some \<lparr>of_bytes = [], of_room = 4096, of_flush_ok = True, of_error = False\<rparr>"
  by (simp_all add: demo_env_def)

lemma demo_env_open:
  "gsp_replay_open (env_alloc (demo_env demo_session)) (env_read (demo_env demo_session)) (Some ''a'') =
   Inr (demo_replay\<lparr>rp_info := info_read (fill_info None)\<rparr>)"
  using replay_open_capture [where fopen = "env_read (demo_env demo_session)" and q = "''a''", OF demo_info(1)]
  by (simp add: demo_env_def demo_replay_def)

lemma demo_env_whole:
  "fst (read_whole (demo_replay\<lparr>rp_info := info_read (fill_info None)\<rparr>)) = demo_session"
  "rp_status (snd (read_whole (demo_replay\<lparr>rp_info := info_read (fill_info None)\<rparr>))) = GSP_PENDING"
proof -
  let ?r = "demo_replay\<lparr>rp_info := info_read (fill_info None)\<rparr>"
  have ok: "list_all chunk_ok demo_session" by (simp add: demo_session_def chunk_ok_def)
  have n: "length demo_session < length (rp_file ?r) + 1"
    by (simp add: demo_session_def demo_replay_def entry_bytes_length)
  from replay_read_cut [OF ok _ _ n, of ?r "length (records demo_session)"]
  show "fst (read_whole ?r) = demo_session" "rp_status (snd (read_whole ?r)) = GSP_PENDING"
    by (simp_all add: read_whole_def gsp_replay_read_def demo_replay_def whole_all)
qed

theorem stats_counts_witness:
  "fst (cmd_stats (demo_env demo_session) ''a'' \<lparr>so_out = [], so_err = []\<rparr>) = 0 \<and>
   sx_client (summary demo_session) = 1 \<and> sx_server (summary demo_session) = 1 \<and>
   sx_lost (summary demo_session) = 1 \<and> sx_bytes (summary demo_session) = 4"
  using stats_counts [OF demo_env_open surjective_pairing, of "\<lparr>so_out = [], so_err = []\<rparr>"] demo_env_whole
  by (simp add: summary_def demo_session_def gsp_replay_status_def failed_def)

theorem gswire_replay_returns_witness:
  "\<exists>io'. cmd_replay (demo_env demo_session) ''a'' (Some ''ok'') True \<lparr>so_out = [], so_err = []\<rparr> = Some (0, io')"
proof -
  have "sorted (0 # map wc_host_time_us (fst (read_whole (demo_replay\<lparr>rp_info := info_read (fill_info None)\<rparr>))))"
    by (simp add: demo_env_whole demo_session_def)
  from gswire_replay_returns [OF demo_env_open _ this, of "Some ''ok''" True "\<lparr>so_out = [], so_err = []\<rparr>"]
  show ?thesis by (simp add: demo_env_whole demo_env_def gsp_replay_status_def failed_def)
qed

theorem extract_recorded_witness:
  "\<exists>io' g'. cmd_extract (demo_env [demo_chunk]) ''a'' 0 (Some ''b'') \<lparr>so_out = [], so_err = []\<rparr> = (0, io', Some g') \<and>
     of_bytes g' = ''{}''"
proof -
  have "env_read (demo_env [demo_chunk]) ''a'' =
      Some (of_bytes (snd (gsp_recorder_close (record_all demo_recorder [[demo_chunk], []]))))"
    using recorded_file [OF demo_recorder_open refl demo_disk_facts(1,2) demo_closes] by (simp add: demo_env_def demo_chunks)
  note e = extract_recorded [OF demo_recorder_open refl demo_disk_facts(1,2) demo_info(1) demo_chunks(1) demo_closes _ this,
      of 0 "''b''" _ "\<lparr>so_out = [], so_err = []\<rparr>", OF demo_env_sel(1) _ demo_env_sel(2)]
  show ?thesis using e by (auto simp: demo_chunks) (auto simp: demo_chunk_def)
qed


end
