(* ===== verification/Gsplisten.thy ===== *)
theory Gsplisten
  imports NetPoll Gswire
begin

text \<open>
  The listener, \<^verbatim>\<open>tools/gsplisten.c\<close>: the program that puts the server, the transport,
  the event log and the recorder together. Its arguments, the player it announces, the loop
  that polls, drains and acts, and what it does when it ends.

  The environment is \<open>gs_listen_env\<close>: what the allocators, the resolver, \<^verbatim>\<open>fopen\<close> and
  the operating system answer, and the values \<^verbatim>\<open>gs_running\<close> has each time the loop tests
  it (past the end of the list the signal has come). Conversions of a double to an integer type
  that cannot hold it are undefined in C; here they give the integer part, or 0.
\<close>

section \<open>Options\<close>

record gs_options =
  go_host :: bytes
  go_port :: int
  go_club :: "bytes option"
  go_handed :: "bytes option"
  go_surface :: "bytes option"
  go_ack_text :: "bytes option"
  go_distance :: double
  go_has_distance :: bool
  go_identifiers :: bool
  go_session_active :: bool
  go_reject_incomplete :: bool
  go_idle_alarm_s :: double
  go_write_spacing_s :: double
  go_max_connections :: int
  go_stop_after_shots :: int
  go_record_path :: "bytes option"
  go_record_note :: "bytes option"

abbreviation (input) GSP_ALT_PORT :: int where "GSP_ALT_PORT \<equiv> 922"

definition gs_usage :: "bytes \<Rightarrow> bytes" where
  "gs_usage argv0 =
     ''usage: '' @ argv0 @ '' [options]'' @ [LF] @ [LF] @
     ''  --host ADDR             interface to bind (default 127.0.0.1)'' @ [LF] @
     ''                          '' @ WARN_SIGN @ '' 0.0.0.0 to accept a device on ANOTHER MACHINE'' @ [LF] @
     ''  --port N                default '' @ fmt_u GSP_DEFAULT_PORT @ ''; '' @ fmt_int GSP_ALT_PORT @ '' is GSPro'' @
       [CHR 0x27] @ ''s own alternative'' @ [LF] @
     ''  --identifiers           '' @ WARN_SIGN @ '' print peer addresses and DeviceIDs unredacted'' @ [LF] @
     ''  --club CODE             DR, W2-W7, H2-H7, I1-I9, PW, GW, SW, LW, PT'' @ [LF] @
     ''  --handed RH|LH'' @ [LF] @
     ''  --distance N            '' @ WARN_SIGN @ '' [OSP] arms its device on a NON-ZERO value'' @ [LF] @
     ''  --surface TEXT          e.g. '' @ [QUOTE] @ ''Green'' @ [QUOTE] @ '' '' @ EM_DASH @ '' [OSP] only; vocabulary unknown'' @ [LF] @
     ''  --session-active        send a 202 '' @ EM_DASH @ '' [OSP]-style clients do not arm without one'' @ [LF] @
     ''  --idle-alarm SECONDS    report a client that has gone quiet.  '' @ WARN_SIGN @ '' Never closes it'' @ [LF] @
     ''  --write-spacing SECONDS hold writes apart '' @ EM_DASH @ '' '' @ WARN_SIGN @ '' [PIT]'' @ [CHR 0x27] @
       ''s thread dies on {200}{201}'' @ [LF] @
     ''  --reject-incomplete     '' @ WARN_SIGN @ '' answer an incomplete shot 501; a client may retry forever'' @ [LF] @
     ''  --ack-text TEXT         '' @ WARN_SIGN @ '' the real GSPro misspells it (protocol U4)'' @ [LF] @
     ''  --max-connections N     0 '' @ [CHR 0xE2, CHR 0x86, CHR 0x92] @ '' the library default'' @ [LF] @
     ''  --shots N               exit after N shots (for scripts); 0 '' @ [CHR 0xE2, CHR 0x86, CHR 0x92] @ '' until ctrl-c'' @ [LF] @
     ''  --record FILE           '' @ WARN_SIGN @ '' capture the BYTES to a .gswire file '' @ EM_DASH @ '' what package 7'' @ [LF] @
     ''                          is for.  Identifiers are redacted unless --identifiers'' @ [LF] @
     ''  --note TEXT             a line in the capture'' @ [CHR 0x27] @ ''s header: which device, which'' @ [LF] @
     ''                          question it was taken to answer'' @ [LF] @
     ''  --help'' @ [LF]"

text \<open>\<^verbatim>\<open>strtol (s, NULL, 10)\<close> where \<^verbatim>\<open>long\<close> has 64 bits.\<close>

definition strtol :: "bytes \<Rightarrow> int" where
  "strtol s =
     (let s = dropWhile is_space s;
          neg = (s \<noteq> [] \<and> hd s = CHR ''-'');
          s = (if s \<noteq> [] \<and> (hd s = CHR ''-'' \<or> hd s = CHR ''+'') then tl s else s);
          v = int (digits_value (takeWhile is_digit s))
      in if neg then max (- (2 ^ 63)) (- v) else min (2 ^ 63 - 1) v)"

text \<open>What an option without a value does, and what one with a value does with it.\<close>

definition set_flag :: "bytes \<Rightarrow> (gs_options \<Rightarrow> gs_options) option" where
  "set_flag a =
     (if a = ''--identifiers'' then Some (\<lambda>o1. o1\<lparr>go_identifiers := True\<rparr>)
      else if a = ''--session-active'' then Some (\<lambda>o1. o1\<lparr>go_session_active := True\<rparr>)
      else if a = ''--reject-incomplete'' then Some (\<lambda>o1. o1\<lparr>go_reject_incomplete := True\<rparr>)
      else None)"

definition set_value :: "bytes \<Rightarrow> (bytes \<Rightarrow> gs_options \<Rightarrow> gs_options) option" where
  "set_value a =
     (if a = ''--host'' then Some (\<lambda>v o1. o1\<lparr>go_host := v\<rparr>)
      else if a = ''--port'' then Some (\<lambda>v o1. o1\<lparr>go_port := strtol v\<rparr>)
      else if a = ''--club'' then Some (\<lambda>v o1. o1\<lparr>go_club := Some v\<rparr>)
      else if a = ''--handed'' then Some (\<lambda>v o1. o1\<lparr>go_handed := Some v\<rparr>)
      else if a = ''--distance'' then Some (\<lambda>v o1. o1\<lparr>go_distance := fst (strtod v), go_has_distance := True\<rparr>)
      else if a = ''--surface'' then Some (\<lambda>v o1. o1\<lparr>go_surface := Some v\<rparr>)
      else if a = ''--idle-alarm'' then Some (\<lambda>v o1. o1\<lparr>go_idle_alarm_s := fst (strtod v)\<rparr>)
      else if a = ''--write-spacing'' then Some (\<lambda>v o1. o1\<lparr>go_write_spacing_s := fst (strtod v)\<rparr>)
      else if a = ''--ack-text'' then Some (\<lambda>v o1. o1\<lparr>go_ack_text := Some v\<rparr>)
      else if a = ''--max-connections'' then Some (\<lambda>v o1. o1\<lparr>go_max_connections := strtol v\<rparr>)
      else if a = ''--shots'' then Some (\<lambda>v o1. o1\<lparr>go_stop_after_shots := strtol v\<rparr>)
      else if a = ''--record'' then Some (\<lambda>v o1. o1\<lparr>go_record_path := Some v\<rparr>)
      else if a = ''--note'' then Some (\<lambda>v o1. o1\<lparr>go_record_note := Some v\<rparr>)
      else None)"

definition gs_need_value :: "bytes list \<Rightarrow> bytes \<Rightarrow> stdio \<Rightarrow> bool \<times> stdio" where
  "gs_need_value rest what io =
     (if rest = [] then (False, eprintf (STOP_SIGN @ '' '' @ what @ '' needs a value'' @ [LF]) io) else (True, io))"

definition default_options :: gs_options where
  "default_options = \<lparr>go_host = ''127.0.0.1'', go_port = uint GSP_DEFAULT_PORT, go_club = None, go_handed = None,
     go_surface = None, go_ack_text = None, go_distance = dzero, go_has_distance = False,
     go_identifiers = False, go_session_active = False, go_reject_incomplete = False,
     go_idle_alarm_s = dzero, go_write_spacing_s = dzero, go_max_connections = 0,
     go_stop_after_shots = 0, go_record_path = None, go_record_note = None\<rparr>"

text \<open>
  The loop over the arguments: whether it succeeded, \<^verbatim>\<open>*done\<close>, the options and the streams.
  An option that lacks its value matches none of the later tests and ends as an unknown one.
\<close>

fun parse_loop :: "bytes \<Rightarrow> bytes list \<Rightarrow> gs_options \<Rightarrow> stdio \<Rightarrow> bool \<times> bool \<times> gs_options \<times> stdio" where
  "parse_loop argv0 [] o1 io = (True, False, o1, io)"
| "parse_loop argv0 (a # as) o1 io =
     (let unknown = (\<lambda>io. (False, False, o1,
            printf (gs_usage argv0) (eprintf (STOP_SIGN @ '' unknown or incomplete option: '' @ a @ [LF]) io)))
      in if a = ''--help'' \<or> a = ''-h'' then (True, True, o1, printf (gs_usage argv0) io)
         else
           (case set_flag a of
              Some f \<Rightarrow> parse_loop argv0 as (f o1) io
            | None \<Rightarrow>
                (case set_value a of
                   None \<Rightarrow> unknown io
                 | Some f \<Rightarrow>
                     (case gs_need_value as a io of
                        (True, io) \<Rightarrow> parse_loop argv0 (tl as) (f (hd as) o1) io
                      | (False, io) \<Rightarrow> unknown io))))"

definition gs_parse_args :: "bytes list \<Rightarrow> stdio \<Rightarrow> bool \<times> bool \<times> gs_options \<times> stdio" where
  "gs_parse_args argv io =
     (case parse_loop (argv ! 0) (drop 1 argv) default_options io of (ok, finished, o1, io) \<Rightarrow>
        if \<not> ok \<or> finished then (ok, finished, o1, io)
        else if go_port o1 < 0 \<or> 65535 < go_port o1
        then (False, False, o1, eprintf (STOP_SIGN @ '' --port '' @ fmt_int (go_port o1) @ '' is not a port'' @ [LF]) io)
        else (True, False, o1, io))"

text \<open>Whether the options are sound, the player and \<^verbatim>\<open>*have\<close>, and the streams.\<close>

definition gs_build_player :: "gs_options \<Rightarrow> stdio \<Rightarrow> bool \<times> gsp_player_info \<times> bool \<times> stdio" where
  "gs_build_player o1 io =
     (let handed = (case go_handed o1 of Some h \<Rightarrow> gsp_handed_parse h | None \<Rightarrow> GSP_HANDED_UNKNOWN);
          club = (case go_club o1 of Some c \<Rightarrow> gsp_club_parse c | None \<Rightarrow> GSP_CLUB_UNKNOWN)
      in if go_club o1 \<noteq> None \<and> club = GSP_CLUB_UNKNOWN
         then (False, zero_player, False,
               eprintf (WARN_SIGN @ '' '' @ [CHR 0x27] @ the (go_club o1) @ [CHR 0x27] @
                 '' is not a club code.  The vocabulary is DR, W2-W7, H2-H7, I1-I9, PW, GW, SW, LW, PT (protocol '' @
                 [CHR 0xC2, CHR 0xA7] @ ''5.2).'' @ [LF]) io)
         else if go_handed o1 \<noteq> None \<and> handed = GSP_HANDED_UNKNOWN
         then (False, zero_player, False,
               eprintf (WARN_SIGN @ '' '' @ [CHR 0x27] @ the (go_handed o1) @ [CHR 0x27] @
                 '' is not a handedness.  RH or LH.'' @ [LF]) io)
         else if handed = GSP_HANDED_UNKNOWN \<and> club = GSP_CLUB_UNKNOWN \<and> \<not> go_has_distance o1 \<and>
                 (go_surface o1 = None \<or> go_surface o1 = Some [])
         then (True, zero_player, False, io)
         else
           (True,
            zero_player\<lparr>p_handed := handed, p_club := club, p_has_distance := go_has_distance o1,
              p_distance_to_target := go_distance o1,
              p_surface := (case go_surface o1 of Some s \<Rightarrow> snprintf GSP_SURFACE_MAX s | None \<Rightarrow> [])\<rparr>,
            True, io))"

section \<open>Events\<close>

definition gs_print_findings :: "u32 \<Rightarrow> bytes" where
  "gs_print_findings flags =
     (if flag_names flags = [] then [] else ''    findings:'' @ findings_text flags @ [LF])"

text \<open>
  The server together with the transport, which holds it, or alone: the last call of
  \<^verbatim>\<open>gs_handle_events\<close> passes NULL for the transport, after it was closed.
\<close>

datatype gs_peer = With_net gsp_net | Without_net gsp_server

fun peer_server :: "gs_peer \<Rightarrow> gsp_server" where
  "peer_server (With_net n) = n_server n"
| "peer_server (Without_net s) = s"

fun put_server :: "gsp_server \<Rightarrow> gs_peer \<Rightarrow> gs_peer" where
  "put_server s (With_net n) = With_net (n\<lparr>n_server := s\<rparr>)"
| "put_server s (Without_net _) = Without_net s"

fun peer_close :: "gsp_conn_id \<Rightarrow> gs_peer \<Rightarrow> gs_peer" where
  "peer_close cid (With_net n) = With_net (snd (gsp_net_close_connection n cid))"
| "peer_close cid (Without_net s) = Without_net s"

definition event_mark :: "gsp_event_type \<Rightarrow> bytes" where
  "event_mark t =
     (if t = GSP_EV_PROTOCOL_ERROR \<or> t = GSP_EV_WARNING \<or> t = GSP_EV_CLOSE_REQUESTED
      then WARN_SIGN @ '' '' else ''  '')"

definition event_line :: "bool \<Rightarrow> gsp_event \<Rightarrow> bytes" where
  "event_line identifiers ev =
     cstr (the (fst (gsp_event_format (Some ev) (Some (replicate 512 NUL)) 512 identifiers)))"

text \<open>The body of the loop over the events of one poll.\<close>

definition handle_event :: "gs_options \<Rightarrow> gsp_event \<Rightarrow> gs_peer \<times> u64 \<times> stdio \<Rightarrow> gs_peer \<times> u64 \<times> stdio" where
  "handle_event o1 ev = (\<lambda>(peer, shots, io).
     (let shots = (if ev_type ev = GSP_EV_SHOT then shots + 1 else shots);
          peer = (if ev_type ev = GSP_EV_CLOSE_REQUESTED then peer_close (ev_conn ev) peer else peer);
          io = printf (event_mark (ev_type ev) @ event_line (go_identifiers o1) ev @ [LF]) io;
          io = (if ev_type ev = GSP_EV_SHOT \<or> ev_type ev = GSP_EV_HEARTBEAT \<or> ev_type ev = GSP_EV_STATUS
                then printf (gs_print_findings (message_flags ev)) io else io)
      in (peer, shots, io)))"

text \<open>The connections the transport holds: closing one on request lowers their number.\<close>

fun peer_conns :: "gs_peer \<Rightarrow> nat" where
  "peer_conns (With_net n) = length (filter nc_in_use (n_conns n))"
| "peer_conns (Without_net s) = 0"

lemma filter_update_less: "i < length xs \<Longrightarrow> P (xs ! i) \<Longrightarrow> \<not> P x \<Longrightarrow> length (filter P (xs[i := x])) < length (filter P xs)"
proof (induction xs arbitrary: i)
  case (Cons y ys)
  then show ?case by (cases i) auto
qed simp

lemma drop_conns:
  assumes "i < length (n_conns n)" "nc_in_use (net_conn n i)"
  shows "n_conns (gs_net_drop n i cause) = (n_conns n)[i := free_slot (net_conn n i)]"
proof -
  obtain now m where c: "gsp_net_now_us n = (now, m)" by fastforce
  have "m = n\<lparr>n_os := snd (gs_sys_now_us (n_os n))\<rparr>" by (rule now_us_sel [OF c])
  then show ?thesis using assms(2) by (simp add: gs_net_drop_def c Let_def upd_net_conn_def net_conn_def)
qed

lemma peer_close_conns: "peer_close cid p = p \<or> peer_conns (peer_close cid p) < peer_conns p"
proof (cases p)
  case (With_net n)
  show ?thesis
  proof (cases "gs_net_find n cid")
    case (Some i)
    then have i: "i < length (n_conns n)" "nc_in_use (net_conn n i)"
      using find_SomeD [OF Some [unfolded gs_net_find_def]] by simp_all
    then have "length (filter nc_in_use ((n_conns n)[i := free_slot (net_conn n i)])) < length (filter nc_in_use (n_conns n))"
      by (intro filter_update_less) (simp_all add: net_conn_def free_slot_def)
    then show ?thesis using With_net Some drop_conns [OF i] by (simp add: gsp_net_close_connection_def)
  qed (simp add: With_net gsp_net_close_connection_def)
qed simp

lemma handle_events_conns:
  "fold (handle_event o1) evs (p, x) = (q, y) \<Longrightarrow> q = p \<or> peer_conns q < peer_conns p"
proof (induction evs arbitrary: p x)
  case (Cons ev evs)
  obtain p1 x1 where e: "handle_event o1 ev (p, x) = (p1, x1)" by (rule prod.exhaust)
  then have "p1 = p \<or> peer_conns p1 < peer_conns p"
    using peer_close_conns [of "ev_conn ev" p] by (auto simp: handle_event_def Let_def split: prod.splits if_splits)
  moreover have "q = p1 \<or> peer_conns q < peer_conns p1" using Cons e by simp
  ultimately show ?case by auto
qed simp

text \<open>
  The loop ends although acting on an event may put new ones into the ring: each turn closes a
  connection or takes events out of the ring and adds none.
\<close>

function gs_handle_events :: "gs_options \<Rightarrow> gs_peer \<Rightarrow> u64 \<times> stdio \<Rightarrow> gs_peer \<times> u64 \<times> stdio" where
  "gs_handle_events o1 peer x =
     (case gsp_server_poll_events (peer_server peer) 16 of (evs, s) \<Rightarrow>
        if evs = [] then (put_server s peer, x)
        else (case fold (handle_event o1) evs (put_server s peer, x) of (peer, x) \<Rightarrow> gs_handle_events o1 peer x))"
  by pat_completeness auto
termination
proof (relation "measures [\<lambda>(o1, p, x). peer_conns p, \<lambda>(o1, p, x). rg_count (s_events (peer_server p))]", goal_cases)
  case (2 o1 peer x evs s q y)
  obtain r where "ring_poll (s_events (peer_server peer)) 16 = (evs, r)" "s_events s = r"
    using 2(1) by (auto simp: gsp_server_poll_events_def split: prod.splits)
  then have c: "rg_count (s_events s) < rg_count (s_events (peer_server peer))"
    using ring_poll_count 2(2) by (cases evs) fastforce+
  have "peer_conns (put_server s peer) = peer_conns peer" "peer_server (put_server s peer) = s" by (cases peer; simp)+
  with c handle_events_conns [OF 2(3) [symmetric]] show ?case by auto
qed simp

declare gs_handle_events.simps [simp del]

section \<open>The capture\<close>

text \<open>\<open>None\<close> is the NULL recorder; \<open>dropped\<close> counts the batches the recorder refused.\<close>

definition drain_batch :: "gsp_wire_chunk list \<Rightarrow> gsp_recorder \<times> u64 \<times> stdio \<Rightarrow> gsp_recorder \<times> u64 \<times> stdio" where
  "drain_batch cs = (\<lambda>(r, dropped, io).
     (case gsp_recorder_write r cs of (st, r) \<Rightarrow>
        if failed st
        then (r, dropped + 1,
              if dropped = 0
              then eprintf (WARN_SIGN @ '' the capture cannot be written: '' @ gsp_recorder_error r @ [LF]) io else io)
        else (r, dropped, io)))"

function drain_wire_loop :: "gsp_server \<Rightarrow> gsp_recorder \<times> u64 \<times> stdio \<Rightarrow> gsp_server \<times> gsp_recorder \<times> u64 \<times> stdio" where
  "drain_wire_loop s x =
     (case gsp_server_poll_wire s 16 of (cs, s) \<Rightarrow>
        if cs = [] then (s, x) else drain_wire_loop s (drain_batch cs x))"
  by pat_completeness auto
termination
proof (relation "measure (\<lambda>(s, x). rg_count (s_wire s))", goal_cases)
  case (2 s x cs t)
  then obtain q where "ring_poll (s_wire s) 16 = (cs, q)" "s_wire t = q"
    by (auto simp: gsp_server_poll_wire_def split: prod.splits if_splits)
  from ring_poll_count [OF this(1)] this(2) 2 show ?case by (cases cs) auto
qed simp

declare drain_wire_loop.simps [simp del]

definition gs_drain_wire ::
  "gsp_server \<Rightarrow> gsp_recorder option \<times> u64 \<times> stdio \<Rightarrow> gsp_server \<times> gsp_recorder option \<times> u64 \<times> stdio" where
  "gs_drain_wire s = (\<lambda>(rec, dropped, io).
     (case rec of
        None \<Rightarrow> (s, rec, dropped, io)
      | Some r \<Rightarrow> (case drain_wire_loop s (r, dropped, io) of (s, r, dropped, io) \<Rightarrow> (s, Some r, dropped, io))))"

section \<open>The program\<close>

record gs_listen_env =
  le_server_alloc :: bool
  le_resolved :: gs_resolved
  le_refused :: "nat option"
  le_nonblocking :: "gs_errno option"
  le_rec_alloc :: bool
  le_write :: "bytes \<Rightarrow> out_file option"
  le_running :: "bool list"

text \<open>\<^verbatim>\<open>(gsp_time_us)(s * 1000000.0)\<close>.\<close>

definition seconds_us :: "double \<Rightarrow> gsp_time_us" where
  "seconds_us d =
     (case d of
        Finite s m e \<Rightarrow> (case as_ratio m e of (n, k) \<Rightarrow> d_to_int (round_ratio s (n * 1000000) k))
      | _ \<Rightarrow> 0)"

abbreviation (input) GSP_WIRE_RING_RECOMMENDED :: u32 where "GSP_WIRE_RING_RECOMMENDED \<equiv> 256"

definition listen_config :: "gs_options \<Rightarrow> gsp_server_config" where
  "listen_config o1 =
     (let cfg = gsp_server_config_default;
          cfg = (if 0 < go_max_connections o1
                 then cfg\<lparr>cfg_max_connections := word_of_int (go_max_connections o1)\<rparr> else cfg);
          p = (cfg_policy cfg)\<lparr>idle_alarm_us := seconds_us (go_idle_alarm_s o1),
                write_spacing_us := seconds_us (go_write_spacing_s o1),
                reject_incomplete_shots := go_reject_incomplete o1\<rparr>;
          p = (case go_ack_text o1 of None \<Rightarrow> p | Some t \<Rightarrow> p\<lparr>ack_text := snprintf GSP_ACK_TEXT_MAX t\<rparr>);
          p = (if go_record_path o1 \<noteq> None then p\<lparr>record_identifiers := go_identifiers o1\<rparr> else p);
          cfg = (if go_record_path o1 \<noteq> None then cfg\<lparr>cfg_wire_ring := GSP_WIRE_RING_RECOMMENDED\<rparr> else cfg)
      in cfg\<lparr>cfg_policy := p\<rparr>)"

definition listen_net_config :: "gs_options \<Rightarrow> gsp_net_config" where
  "listen_net_config o1 =
     (let cfg = gsp_net_config_default\<lparr>nf_host := Some (go_host o1), nf_port := word_of_int (go_port o1),
                  nf_ephemeral_port := (go_port o1 = 0)\<rparr>
      in if 0 < go_max_connections o1
         then cfg\<lparr>nf_max_connections := word_of_int (go_max_connections o1)\<rparr> else cfg)"

definition listen_info :: "gs_options \<Rightarrow> gsp_net \<Rightarrow> gsp_recording_info" where
  "listen_info o1 net =
     (let info = gsp_recording_info_default\<lparr>ri_port := gsp_net_port net,
                   ri_identifiers_recorded := go_identifiers o1\<rparr>
      in case go_record_note o1 of
           None \<Rightarrow> info
         | Some t \<Rightarrow> info\<lparr>ri_note := snprintf GSP_RECORD_NOTE_MAX t\<rparr>)"

text \<open>What is printed before the loop.\<close>

definition listen_banner :: "gs_options \<Rightarrow> gsp_net \<Rightarrow> bytes" where
  "listen_banner o1 net =
     ''listening on '' @ go_host o1 @ '':'' @ fmt_u (gsp_net_port net) @ ''   (identifiers '' @
     (if go_identifiers o1 then ''SHOWN'' else ''redacted'') @ '')'' @ [LF] @
     (case go_record_path o1 of
        None \<Rightarrow> []
      | Some path \<Rightarrow>
          ''recording to '' @ path @ ''   (identifiers '' @
          (if go_identifiers o1 then ''RECORDED '' @ EM_DASH @ '' '' @ WARN_SIGN @ '' redact before sharing''
           else ''redacted'') @ '')'' @ [LF]) @
     (if go_host o1 = ''127.0.0.1'' \<or> go_host o1 = ''localhost''
      then WARN_SIGN @ '' loopback only '' @ EM_DASH @
           '' a launch monitor on ANOTHER MACHINE cannot reach this.  Use --host 0.0.0.0 (design '' @
           [CHR 0xC2, CHR 0xA7] @ ''6.1).'' @ [LF]
      else [])"

text \<open>The player and the session are announced before the loop.\<close>

definition listen_player :: "gsp_player_info \<Rightarrow> bool \<Rightarrow> gsp_net \<times> stdio \<Rightarrow> gsp_net \<times> stdio" where
  "listen_player player have_player = (\<lambda>(net, io).
     (if \<not> have_player then (net, io)
      else
        (case gsp_net_now_us net of (now, net) \<Rightarrow>
           (net\<lparr>n_server := snd (gsp_server_set_player (n_server net) (Some player) now)\<rparr>,
            printf (''player: handed='' @ gsp_handed_text (p_handed player) @ '' club='' @ gsp_club_code (p_club player) @
                    (if p_has_distance player then '' distance='' @ fmt_g 6 (p_distance_to_target player) else []) @
                    [LF]) io))))"

definition listen_session :: "gs_options \<Rightarrow> gsp_net \<times> stdio \<Rightarrow> gsp_net \<times> stdio" where
  "listen_session o1 = (\<lambda>(net, io).
     (if \<not> go_session_active o1 then (net, io)
      else
        (case gsp_net_now_us net of (now, net) \<Rightarrow>
           (net\<lparr>n_server := snd (gsp_server_set_session_state (n_server net) GSP_SESSION_ACTIVE now)\<rparr>,
            printf (''session: ACTIVE (202 sent '' @ EM_DASH @ '' [OSP]-style clients arm on this)'' @ [LF]) io))))"

record gs_listen =
  li_net :: gsp_net
  li_rec :: "gsp_recorder option"
  li_shots :: u64
  li_failures :: u64
  li_io :: stdio

text \<open>One turn of the loop, after the poll: the events, then the wire ring.\<close>

definition listen_turn :: "gs_options \<Rightarrow> gs_listen \<Rightarrow> gs_listen" where
  "listen_turn o1 l =
     (case gs_handle_events o1 (With_net (li_net l)) (li_shots l, li_io l) of (peer, shots, io) \<Rightarrow>
      case gs_drain_wire (peer_server peer) (li_rec l, li_failures l, io) of (s, rec, failures, io) \<Rightarrow>
        (case put_server s peer of
           With_net n \<Rightarrow> \<lparr>li_net = n, li_rec = rec, li_shots = shots, li_failures = failures, li_io = io\<rparr>
         | Without_net _ \<Rightarrow> l))"

fun listen_loop :: "gs_options \<Rightarrow> bool list \<Rightarrow> gs_listen \<Rightarrow> gs_listen" where
  "listen_loop o1 [] l = l"
| "listen_loop o1 (running # rest) l =
     (if \<not> running then l
      else
        (case gsp_net_poll (li_net l) 250 of (st, n) \<Rightarrow>
           (let l = l\<lparr>li_net := n\<rparr> in
            if failed st then l
            else
              (let l = listen_turn o1 l in
               if 0 < go_stop_after_shots o1 \<and> go_stop_after_shots o1 \<le> uint (li_shots l) then l
               else listen_loop o1 rest l))))"

text \<open>What is left at the end, for the statements below: the server, the system and the file.\<close>

record gs_end =
  ge_server :: gsp_server
  ge_os :: gs_os
  ge_file :: "out_file option"
  ge_shots :: u64

definition listen_summary :: "gs_options \<Rightarrow> gsp_recorder option \<Rightarrow> gsp_server \<Rightarrow> gsp_net_stats \<Rightarrow> u64 \<Rightarrow> bytes" where
  "listen_summary o1 rec s stats shots =
     (case rec of
        None \<Rightarrow> []
      | Some r \<Rightarrow>
          ''capture: '' @ fmt_u (gsp_recorder_chunks r) @ '' chunk(s) to '' @ the (go_record_path o1) @
          (if failed (fst (gsp_recorder_close r))
           then ''  '' @ STOP_SIGN @ '' INCOMPLETE '' @ EM_DASH @ '' the file could not be finished'' else []) @ [LF] @
          (if 0 < gsp_server_dropped_wire s
           then WARN_SIGN @ '' '' @ fmt_u (gsp_server_dropped_wire s) @
                '' chunk(s) were dropped before they could be written; the capture has holes'' @ [LF] else [])) @
     [LF] @ fmt_u shots @ '' shot(s) received; '' @ fmt_u (ns_reads stats) @ '' read(s) in, '' @
     fmt_u (ns_writes stats) @ '' write(s) out, '' @ fmt_u (gsp_server_dropped_events s) @ '' event(s) dropped'' @ [LF]"

definition listen_end :: "gs_options \<Rightarrow> gs_listen \<Rightarrow> stdio \<times> gs_end" where
  "listen_end o1 l =
     (let stats = gsp_net_get_stats (li_net l) in
      case gsp_net_close (li_net l) of (s, os) \<Rightarrow>
        (case gs_handle_events o1 (Without_net (gsp_server_close s)) (li_shots l, li_io l) of (peer, shots, io) \<Rightarrow>
         case gs_drain_wire (peer_server peer) (li_rec l, li_failures l, io) of (s, rec, failures, io) \<Rightarrow>
           (printf (listen_summary o1 rec s stats shots) io,
            \<lparr>ge_server = s, ge_os = os, ge_file = map_option (\<lambda>r. snd (gsp_recorder_close r)) rec,
             ge_shots = shots\<rparr>)))"

definition bind_failed :: "gs_options \<Rightarrow> bytes option \<Rightarrow> bytes" where
  "bind_failed o1 error =
     STOP_SIGN @ '' cannot bind '' @ go_host o1 @ '':'' @ fmt_int (go_port o1) @ '': '' @
     (case error of Some e \<Rightarrow> e | None \<Rightarrow> []) @ [LF] @
     (if go_port o1 = uint GSP_DEFAULT_PORT
      then ''   GSPro Connect itself listens here.  It can be moved to '' @ fmt_int GSP_ALT_PORT @ '' with'' @ [LF] @
           ''   <OpenAPIUseAltPort>true</OpenAPIUseAltPort> in GSPconnect.exe.config ([SLX]).'' @ [LF]
      else [])"

text \<open>The recorder, when a capture is asked for.\<close>

definition open_capture :: "gs_listen_env \<Rightarrow> gs_options \<Rightarrow> gsp_net \<Rightarrow> gsp_status + gsp_recorder option" where
  "open_capture env o1 net =
     (case go_record_path o1 of
        None \<Rightarrow> Inr None
      | Some path \<Rightarrow>
          (case gsp_recorder_open (le_rec_alloc env) (le_write env) (Some path) (Some (listen_info o1 net)) of
             Inl st \<Rightarrow> Inl st
           | Inr r \<Rightarrow> Inr (Some r)))"

text \<open>From the open transport to the end of the process.\<close>

definition listen_session_run ::
  "gs_listen_env \<Rightarrow> gs_options \<Rightarrow> gsp_player_info \<Rightarrow> bool \<Rightarrow> gsp_net \<Rightarrow> gsp_recorder option \<Rightarrow> stdio \<Rightarrow> stdio \<times> gs_end" where
  "listen_session_run env o1 player have_player net rec io =
     (case listen_session o1 (listen_player player have_player (net, printf (listen_banner o1 net) io)) of (net, io) \<Rightarrow>
        listen_end o1 (listen_loop o1 (le_running env)
          \<lparr>li_net = net, li_rec = rec, li_shots = 0, li_failures = 0, li_io = io\<rparr>))"

definition gs_run :: "gs_listen_env \<Rightarrow> gs_options \<Rightarrow> gs_os \<Rightarrow> stdio \<Rightarrow> int \<times> stdio \<times> gs_end option" where
  "gs_run env o1 os io =
     (case gs_build_player o1 io of (ok, player, have_player, io) \<Rightarrow>
      if \<not> ok then (2, io, None)
      else
        (case gsp_server_create (Some (listen_config o1)) (le_server_alloc env) of
           Inl st \<Rightarrow> (1, eprintf (STOP_SIGN @ '' the library refused this configuration'' @ [LF]) io, None)
         | Inr server \<Rightarrow>
             (case gsp_net_open (Some server) (Some (listen_net_config o1)) (le_resolved env) (le_refused env)
                     (le_nonblocking env) (Some GSP_NET_ERROR_MAX) os of
                (st, None, error, os) \<Rightarrow> (1, eprintf (bind_failed o1 error) io, None)
              | (st, Some net, error, os) \<Rightarrow>
                  (case open_capture env o1 net of
                     Inl st \<Rightarrow>
                       (1, eprintf (STOP_SIGN @ '' cannot write the capture '' @ the (go_record_path o1) @ [LF]) io, None)
                   | Inr rec \<Rightarrow>
                       (case listen_session_run env o1 player have_player net rec io of
                          (io, e) \<Rightarrow> (0, io, Some e))))))"

definition gsplisten_main :: "gs_listen_env \<Rightarrow> bytes list \<Rightarrow> gs_os \<Rightarrow> stdio \<Rightarrow> int \<times> stdio \<times> gs_end option" where
  "gsplisten_main env argv os io =
     (case gs_parse_args argv io of (ok, finished, o1, io) \<Rightarrow>
        if \<not> ok then (2, io, None) else if finished then (0, io, None) else gs_run env o1 os io)"

end
