(* ===== verification/NetCalls.thy ===== *)
theory NetCalls
  imports NetPoll
begin

text \<open>
  The transport is a host of the server like any other: whatever the kernel answers, all it does
  to the server is to call it, and it polls neither log. So what is shown of the states a host can
  reach, with everything it has polled, holds of the server inside the transport.
\<close>

section \<open>The calls\<close>

lemma reachable_calls:
  assumes "reachable s evs cs"
  shows "reachable (snd (gsp_server_on_connection_opened s cid peer now)) evs cs"
    "reachable (snd (gsp_server_on_bytes s cid data now)) evs cs"
    "reachable (snd (gsp_server_on_connection_closed s cid cause now)) evs cs"
    "reachable (gsp_server_tick s now) evs cs"
    "reachable (snd (gsp_server_set_player s info now)) evs cs"
    "reachable (snd (gsp_server_set_session_state s state now)) evs cs"
    "reachable (snd (gsp_server_poll_writes s k)) evs cs"
    "reachable (gsp_server_close s) evs cs"
  using called [OF assms, of "On_opened cid peer now"] called [OF assms, of "On_bytes cid data now"]
    called [OF assms, of "On_closed cid cause now"] called [OF assms, of "Tick now"]
    called [OF assms, of "Set_player info now"] called [OF assms, of "Set_session_state state now"]
    called [OF assms, of "Poll_writes k"] called [OF assms, of Close]
  by simp_all

abbreviation served :: "gsp_net \<Rightarrow> gsp_event list \<Rightarrow> gsp_wire_chunk list \<Rightarrow> bool" where
  "served n evs cs \<equiv> reachable (n_server n) evs cs"

lemma now_server [simp]: "n_server (snd (gsp_net_now_us n)) = n_server n"
  by (simp add: gsp_net_now_us_def case_prod_beta)

section \<open>What the transport does\<close>

lemma served_drop: "served n evs cs \<Longrightarrow> served (gs_net_drop n i cause) evs cs"
  by (simp add: gs_net_drop_def Let_def case_prod_beta reachable_calls)

lemma served_flush_step:
  assumes "served n evs cs" "flush_step n i = Inl m \<or> flush_step n i = Inr m"
  shows "served m evs cs"
proof -
  obtain r k where f: "flush_send n i (unat (w_length (ring_nth (nc_queue (net_conn n i)) 0)) - nc_offset (net_conn n i)) = (r, k)"
    by (rule prod.exhaust)
  have "n_server k = n_server n" using flush_send_sel(1) [OF f] by (metis gsp_net.select_convs(1) gsp_net.surjective gsp_net.update_convs(2))
  then have "served k evs cs" "served (gs_net_record k what err) evs cs" for what err using assms(1) by simp_all
  then show ?thesis
    using assms(2) f by (auto simp: flush_step_def Let_def flush_done_def intro: served_drop split: sum.splits if_splits)
qed

lemma served_flush: "served n evs cs \<Longrightarrow> served (gs_net_flush n i) evs cs"
proof (induction n i rule: gs_net_flush.induct)
  case (1 n i)
  show ?case
    using 1 served_flush_step [OF 1(2), of i] by (auto simp: gs_net_flush.simps [of n i] split: sum.split)
qed

lemma served_poll_writes: "served n evs cs \<Longrightarrow> gsp_server_poll_writes (n_server n) k = (ws, s) \<Longrightarrow> reachable s evs cs"
  by (metis reachable_calls(7) snd_conv)

lemma served_pump: "served n evs cs \<Longrightarrow> served (gs_net_pump n) evs cs"
proof (induction n rule: gs_net_pump.induct)
  case (1 n)
  obtain ws s where p: "gsp_server_poll_writes (n_server n) 1 = (ws, s)" by (rule prod.exhaust)
  have s: "reachable s evs cs" by (rule served_poll_writes [OF 1(3) p])
  show ?case
  proof (cases "net_room n \<and> ws \<noteq> []")
    case True
    then obtain w rest where w: "ws = w # rest" by (cases ws) auto
    have f: "served (gs_net_flush (net_enqueue (n\<lparr>n_server := s\<rparr>) i w) i) evs cs" for i
      by (rule served_flush) (simp add: net_enqueue_def s)
    show ?thesis
      using 1(1) [OF _ p [symmetric] w refl] 1(2) [OF _ p [symmetric] w refl _ f] True p w s
      by (auto simp: gs_net_pump.simps [of n] Let_def split: option.split)
  next
    case False
    then show ?thesis using p s 1(3) by (auto simp: gs_net_pump.simps [of n])
  qed
qed

lemma served_on_bytes: "served n evs cs \<Longrightarrow> served (snd (net_on_bytes n i data)) evs cs"
  by (simp add: net_on_bytes_def case_prod_beta reachable_calls)

lemma served_retries: "served n evs cs \<Longrightarrow> served (snd (feed_retries k st n i)) evs cs"
proof (induction k arbitrary: st n)
  case (Suc k)
  define m where "m = gs_net_pump n"
  have m: "served m evs cs" unfolding m_def by (rule served_pump [OF Suc(2)])
  from Suc(1) [OF served_on_bytes [OF m]] show ?case
    using Suc(2) m by (simp add: m_def [symmetric] Let_def case_prod_beta)
qed simp

lemma served_feed: "served n evs cs \<Longrightarrow> served (gs_net_feed n i data) evs cs"
  using served_retries [OF served_on_bytes, of n evs cs GS_NET_QUEUE_FULL_RETRIES "fst (net_on_bytes n i data)" i data i]
  by (auto simp: gs_net_feed_def case_prod_beta split: option.split)

lemma served_read: "served n evs cs \<Longrightarrow> served (gs_net_read n i) evs cs"
  by (auto simp: gs_net_read_def Let_def intro!: served_drop served_feed split: prod.split sum.split)

lemma served_accept_one:
  assumes "served n evs cs"
  shows "served (accept_one n a) evs cs"
proof -
  have "reachable (snd (gsp_server_on_connection_opened (n_server n) cid peer now)) evs cs" for cid peer now
    using assms by (rule reachable_calls)
  then show ?thesis
    using assms by (simp add: accept_one_def Let_def refuse_def case_prod_beta split: option.split)
qed

lemma served_accept: "served n evs cs \<Longrightarrow> served (gs_net_accept n) evs cs"
proof (induction n rule: gs_net_accept.induct)
  case (1 n)
  then show ?case
    using served_accept_one [of "n\<lparr>n_os := os\<rparr>" evs cs for os]
    by (auto simp: gs_net_accept.simps [of n] Let_def split: prod.split sum.split)
qed

lemma served_tick: "served n evs cs \<Longrightarrow> served (net_tick n) evs cs"
  by (simp add: net_tick_def Let_def case_prod_beta reachable_calls)

lemma served_fold: "(\<And>i n. served n evs cs \<Longrightarrow> served (f i n) evs cs) \<Longrightarrow> served n evs cs \<Longrightarrow> served (fold f is n) evs cs"
  by (induction "is" arbitrary: n) simp_all

lemma served_serve: "served n evs cs \<Longrightarrow> served (net_serve rs ws i n) evs cs"
  by (simp add: net_serve_def Let_def served_read served_flush)

lemma served_resume: "served n evs cs \<Longrightarrow> served (net_resume i n) evs cs"
  by (simp add: net_resume_def served_feed)

lemma served_select: "n_server (snd (snd (net_select n timeout_ms))) = n_server n"
proof -
  obtain rs ws m where s: "net_select n timeout_ms = (rs, ws, m)" by (rule prod_cases3)
  show ?thesis using select_same [OF s] by (simp add: s net_same_def)
qed

lemma served_poll: "served n evs cs \<Longrightarrow> served (snd (gsp_net_poll n timeout_ms)) evs cs"
proof -
  assume n: "served n evs cs"
  obtain rs ws m where s: "net_select (upd_stats (\<lambda>st. st\<lparr>ns_polls := ns_polls st + 1\<rparr>) n) timeout_ms = (rs, ws, m)"
    by (rule prod_cases3)
  have "n_server m = n_server n"
    using served_select [of "upd_stats (\<lambda>st. st\<lparr>ns_polls := ns_polls st + 1\<rparr>) n" timeout_ms] s by simp
  with n have "served (net_accept_ready rs ws m) evs cs" by (simp add: net_accept_ready_def served_accept)
  then have "served (net_serve_all rs ws (net_accept_ready rs ws m)) evs cs"
    unfolding net_serve_all_def by (cases "0 < length rs + length ws") (simp_all only: if_True if_False served_fold served_serve)
  then have "served (net_resume_all (gs_net_pump (net_tick (net_serve_all rs ws (net_accept_ready rs ws m))))) evs cs"
    unfolding net_resume_all_def by (intro served_fold served_resume served_pump served_tick)
  then show ?thesis by (simp add: gsp_net_poll_def s)
qed

lemma served_close_connection: "served n evs cs \<Longrightarrow> served (snd (gsp_net_close_connection n cid)) evs cs"
  by (simp add: gsp_net_close_connection_def served_drop split: option.split)

lemma served_close: "served n evs cs \<Longrightarrow> reachable (fst (gsp_net_close n)) evs cs"
  by (auto simp: gsp_net_close_def drop_all_def Let_def intro!: served_fold served_drop)

end
