(* ===== verification/ServerWire.thy ===== *)
theory ServerWire
  imports ServerRun
begin

text \<open>
  The chunks of the wire log fit the fixed array a chunk has, in the ring and in the hands of
  the host, so that a recorder never refuses what was polled.
\<close>

section \<open>Pushing a chunk\<close>

abbreviation small :: "gsp_wire_chunk \<Rightarrow> bool" where
  "small c \<equiv> length (wc_data c) \<le> GSP_WIRE_CHUNK_MAX"

definition chunks_fit :: "gsp_server \<Rightarrow> bool" where
  "chunks_fit s \<longleftrightarrow> list_all small (rg_slots (s_wire s))"

lemma chunks_fit_wire: "s_wire t = s_wire s \<Longrightarrow> chunks_fit t = chunks_fit s"
  by (simp add: chunks_fit_def)

lemma redactor_apply_length: "length (snd (snd (redactor_apply r dst off n any))) = length dst"
proof (induction r dst off n any rule: redactor_apply.induct)
  case (1 r dst off n any)
  obtain ok u where u: "(if rd_have r then (True, r) else redactor_next r) = (ok, u)" by (rule prod.exhaust)
  show ?case
  proof (cases ok)
    case True
    note IH = 1 [OF u [symmetric] eqTrueI [OF True]]
    show ?thesis using IH(1) IH(2) [OF _ _ refl refl refl refl] u True
      by (simp add: redactor_apply.simps [of r] Let_def)
  next
    case False
    then show ?thesis using u by (simp add: redactor_apply.simps [of r])
  qed
qed

lemma wire_chunk_small: "small (fst (wire_chunk s cid direction data now redact extra_flags r off))"
  using redactor_apply_length [of r "take (min (length data - off) 512) (drop off data)" off "min (length data - off) 512" False]
  by (auto simp: wire_chunk_def Let_def case_prod_beta)

lemma ring_store_small:
  "list_all small (rg_slots r) \<Longrightarrow> small x \<Longrightarrow> list_all small (rg_slots (ring_store r i x))"
  by (auto simp: ring_store_def list_all_iff dest: set_update_subset_insert [THEN subsetD])

lemma ring_nth_slot: "0 < ring_cap r \<Longrightarrow> ring_nth r i \<in> set (rg_slots r)"
  by (simp add: ring_nth_def ring_index_def ring_cap_def)

lemma wire_ring_push_fits:
  assumes "chunks_fit s" "wire_on s" "small c"
  shows "chunks_fit (wire_ring_push s c) \<and> wire_on (wire_ring_push s c)"
proof -
  have cap: "ring_cap (ring_store r i x) = ring_cap r" "ring_cap (ring_drop r) = ring_cap r"
    "ring_cap (ring_put r x) = ring_cap r" for r :: "gsp_wire_chunk ring" and i x
    by (simp_all add: ring_cap_def ring_store_def ring_drop_def ring_put_def)
  have put: "rg_slots (ring_put r x) = rg_slots (ring_store r (rg_count r) x)" for r :: "gsp_wire_chunk ring" and x
    by (simp add: ring_put_def)
  have dropped: "rg_slots (ring_drop r) = rg_slots r" for r :: "gsp_wire_chunk ring" by (simp add: ring_drop_def)
  have "small (ring_nth (ring_drop (s_wire s)) 0)"
    using assms(1,2) ring_nth_slot [of "ring_drop (s_wire s)" 0]
    by (simp add: chunks_fit_def wire_on_def cap list_all_iff dropped)
  then have "chunks_fit (wire_make_room s) \<and> wire_on (wire_make_room s)"
    using assms(1,2) ring_store_small [of "ring_drop (s_wire s)"]
    by (simp add: wire_make_room_def Let_def chunks_fit_def wire_on_def cap mark_lost_def dropped)
  moreover have "small (mark_lost c)" using assms(3) by (simp add: mark_lost_def)
  ultimately show ?thesis
    using assms(3) ring_store_small [of "s_wire (wire_make_room s)"]
    by (simp add: wire_ring_push_def Let_def chunks_fit_def wire_on_def cap emit_warning_def put)
qed

lemma wire_push_loop_fits:
  "chunks_fit s \<Longrightarrow> wire_on s \<Longrightarrow> chunks_fit (wire_push_loop s cid direction data now redact extra_flags r off)"
proof (induction s cid direction data now redact extra_flags r off rule: wire_push_loop.induct)
  case (1 s cid direction data now redact extra_flags r off)
  obtain c u where ch: "wire_chunk s cid direction data now redact extra_flags r off = (c, u)" by (rule prod.exhaust)
  define t where "t = wire_ring_push (s\<lparr>s_wire_sequence := s_wire_sequence s + 1\<rparr>) c"
  have "small c" using wire_chunk_small [of s cid direction data now redact extra_flags r off] ch by simp
  then have "chunks_fit t \<and> wire_on t"
    unfolding t_def using 1(2,3) by (intro wire_ring_push_fits) (simp_all add: chunks_fit_def wire_on_def)
  with 1(1) [OF ch [symmetric] t_def refl] show ?case
    by (simp add: wire_push_loop.simps [of s] ch t_def [symmetric] Let_def)
qed

section \<open>Every call\<close>

interpretation fitted: server_calls "\<lambda>s t. chunks_fit s \<longrightarrow> chunks_fit t"
proof unfold_locales
  show "chunks_fit s \<longrightarrow> chunks_fit (wire_push_bytes s cid direction data now redact extra_flags)"
    for s cid direction data now redact extra_flags
    by (simp add: wire_push_bytes_def wire_push_loop_fits)
  show "chunks_fit s \<longrightarrow> chunks_fit (snd (queue_write s (conn_id s i) kind code message player))"
    for s i kind code message player
    by (simp add: queue_write_def Let_def chunks_fit_def split: prod.split)
qed (auto simp: chunks_fit_def upd_conn_def drop_writes_for_def)

lemma reachable_chunks_fit: "reachable s evs cs \<Longrightarrow> chunks_fit s \<and> list_all small cs"
proof (induction rule: reachable.induct)
  case (created config s)
  then show ?case
    by (auto simp: gsp_server_create_def Let_def chunks_fit_def new_ring_def zero_chunk_def list_all_iff split: if_splits)
next
  case (called s evs cs c)
  then show ?case using fitted.call_ok [of s c] by blast
next
  case (polled_events s evs cs n es t)
  then have "s_wire t = s_wire s" by (auto simp: gsp_server_poll_events_def split: if_splits prod.splits)
  with polled_events show ?case by (simp add: chunks_fit_def)
next
  case (polled_wire s evs cs n ds t)
  then have inv: "log_inv s" using reachable_account by (auto simp: server_inv_def)
  have "small d" if "d \<in> set ds" for d
  proof -
    from that have "d \<in> set (ring_items (s_wire s))"
      using log_inv_poll_wire(2) [OF inv polled_wire(2)] by (auto dest: in_set_takeD)
    then obtain i where "i < rg_count (s_wire s)" "d = ring_nth (s_wire s) i" by (auto simp: ring_items_def)
    moreover from this(1) have "0 < ring_cap (s_wire s)" using inv by (auto simp: log_inv_def wire_ring_ok_def ring_ok_def)
    ultimately show ?thesis using ring_nth_slot polled_wire(3) by (auto simp: chunks_fit_def list_all_iff)
  qed
  moreover have "rg_slots (s_wire t) = rg_slots (s_wire s)"
  proof -
    have "rg_slots (snd (ring_poll r k)) = rg_slots r" for r :: "gsp_wire_chunk ring" and k
      by (induction r k rule: ring_poll.induct) (simp_all add: case_prod_beta ring_drop_def)
    then show ?thesis
      using polled_wire(2) by (auto simp: gsp_server_poll_wire_def split: if_splits prod.splits) (metis snd_conv)+
  qed
  ultimately show ?case using polled_wire(3) by (auto simp: chunks_fit_def list_all_iff)
qed

end
