(* ===== verification/Listen.thy ===== *)
theory Listen
  imports Gsplisten NetCalls ServerWire
begin

text \<open>
  What the listener's run amounts to, through every layer at once: the events it printed and
  the chunks it recorded are all the server ever logged, less what the server says it dropped.
\<close>

section \<open>Events\<close>

definition shots_in :: "gsp_event list \<Rightarrow> u64" where
  "shots_in evs = of_nat (length (filter (\<lambda>ev. ev_type ev = GSP_EV_SHOT) evs))"

lemma shots_in_append: "shots_in (a @ b) = shots_in a + shots_in b"
  by (simp add: shots_in_def)

lemma peer_server_put [simp]: "peer_server (put_server s p) = s"
  by (cases p) simp_all

fun has_net :: "gs_peer \<Rightarrow> bool" where
  "has_net (With_net n) \<longleftrightarrow> True"
| "has_net (Without_net s) \<longleftrightarrow> False"

lemma has_net_put [simp]: "has_net (put_server s p) = has_net p"
  by (cases p) simp_all

lemma peer_close_ok:
  "reachable (peer_server p) evs cs \<Longrightarrow> reachable (peer_server (peer_close cid p)) evs cs"
  "has_net (peer_close cid p) = has_net p"
  by (cases p; simp add: served_close_connection)+

lemma handle_fold:
  assumes "fold (handle_event o1) es (p, shots, io) = (q, shots', io')" "reachable (peer_server p) evs cs"
  shows "reachable (peer_server q) evs cs \<and> shots' = shots + shots_in es \<and> has_net q = has_net p"
  using assms
proof (induction es arbitrary: p shots io)
  case Nil
  then show ?case by (simp add: shots_in_def)
next
  case (Cons ev es)
  obtain p1 sh1 io1 where h: "handle_event o1 ev (p, shots, io) = (p1, sh1, io1)" by (rule prod_cases3)
  have p1: "p1 = (if ev_type ev = GSP_EV_CLOSE_REQUESTED then peer_close (ev_conn ev) p else p)"
    "sh1 = shots + shots_in [ev]"
    using h by (auto simp: handle_event_def Let_def shots_in_def)
  then have "reachable (peer_server p1) evs cs" "has_net p1 = has_net p"
    using Cons(3) peer_close_ok by simp_all
  with Cons(1) [OF _ this(1), of sh1 io1] Cons(2) h show ?case
    by (simp add: p1(2) shots_in_append [of "[ev]" es, simplified] add.assoc)
qed

lemma handle_events_ok:
  assumes "gs_handle_events o1 p x = (q, shots', io')" "reachable (peer_server p) evs cs"
  obtains es where "reachable (peer_server q) (evs @ es) cs" "shots' = fst x + shots_in es" "has_net q = has_net p"
    "ring_items (s_events (peer_server q)) = []"
  using assms
proof (induction o1 p x arbitrary: evs thesis rule: gs_handle_events.induct)
  case (1 o1 p x)
  obtain es s where poll: "gsp_server_poll_events (peer_server p) 16 = (es, s)" by (rule prod.exhaust)
  have s: "reachable s (evs @ es) cs" by (rule polled_events [OF 1(4) poll])
  show ?case
  proof (cases "es = []")
    case True
    have "log_inv (peer_server p)" using reachable_account [OF 1(4)] by (simp add: server_inv_def)
    note l = log_inv_poll_events(2,3) [OF this poll]
    then have "ring_items (s_events s) = []" using True by simp
    moreover have "q = put_server s p" "shots' = fst x" using 1(3) poll True by (auto simp: gs_handle_events.simps [of o1])
    ultimately show ?thesis using 1(2) [of "[]"] s True by (simp add: shots_in_def)
  next
    case False
    obtain p1 sh1 io1 where f: "fold (handle_event o1) es (put_server s p, x) = (p1, sh1, io1)" by (rule prod_cases3)
    have rest: "gs_handle_events o1 p1 (sh1, io1) = (q, shots', io')"
      using 1(3) poll False f by (simp add: gs_handle_events.simps [of o1 p])
    obtain sh io where x: "x = (sh, io)" by (rule prod.exhaust)
    have h: "reachable (peer_server p1) (evs @ es) cs" "sh1 = sh + shots_in es" "has_net p1 = has_net p"
      using handle_fold [of o1 es "put_server s p" sh io p1 sh1 io1] f s x by simp_all
    show ?thesis
    proof (rule 1(1) [OF poll [symmetric] False f [symmetric] _ rest h(1)])
      fix es' assume a: "reachable (peer_server q) ((evs @ es) @ es') cs" "shots' = fst (sh1, io1) + shots_in es'"
        "has_net q = has_net p1" "ring_items (s_events (peer_server q)) = []"
      show thesis
        using 1(2) [of "es @ es'"] a h by (simp add: x shots_in_append add.assoc)
    qed
  qed
qed

section \<open>The capture\<close>

lemma drain_loop_ok:
  assumes "drain_wire_loop s (r, y) = (t, r', y')" "reachable s evs cs"
  obtains bs where "reachable t evs (cs @ concat bs)" "r' = record_all r bs" "ring_items (s_wire t) = []"
  using assms
proof (induction s "(r, y)" arbitrary: r y cs thesis rule: drain_wire_loop.induct)
  case (1 s r y)
  obtain ds u where poll: "gsp_server_poll_wire s 16 = (ds, u)" by (rule prod.exhaust)
  have u: "reachable u evs (cs @ ds)" by (rule polled_wire [OF 1(4) poll])
  show ?case
  proof (cases "ds = []")
    case True
    have "log_inv s" using reachable_account [OF 1(4)] by (simp add: server_inv_def)
    note l = log_inv_poll_wire(2,3) [OF this poll]
    then have "ring_items (s_wire u) = []" using True by simp
    moreover have "t = u" "r' = r" using 1(3) poll True by (auto simp: drain_wire_loop.simps [of s])
    ultimately show ?thesis using 1(2) [of "[]"] u True by (simp add: record_all_def)
  next
    case False
    obtain r1 y1 where b: "drain_batch ds (r, y) = (r1, y1)" by (rule prod.exhaust)
    then have r1: "r1 = snd (gsp_recorder_write r ds)"
      by (auto simp: drain_batch_def split: prod.splits if_splits)
    have rest: "drain_wire_loop u (r1, y1) = (t, r', y')"
      using 1(3) poll False b by (simp add: drain_wire_loop.simps [of s])
    show ?thesis
    proof (rule 1(1) [OF poll [symmetric] False b _ rest u])
      fix bs assume a: "reachable t evs ((cs @ ds) @ concat bs)" "r' = record_all r1 bs" "ring_items (s_wire t) = []"
      show thesis using 1(2) [of "ds # bs"] a by (simp add: record_all_def r1)
    qed
  qed
qed

lemma drain_wire_ok:
  assumes "gs_drain_wire s (rec, dropped, io) = (t, rec', y')" "reachable s evs cs"
  obtains bs where "reachable t evs (cs @ concat bs)" "rec' = map_option (\<lambda>r. record_all r bs) rec"
    "rec = None \<Longrightarrow> bs = []" "rec \<noteq> None \<Longrightarrow> ring_items (s_wire t) = []" "s_events t = s_events s"
proof (cases rec)
  case None
  then show ?thesis using that [of "[]"] assms by (simp add: gs_drain_wire_def)
next
  case (Some r)
  obtain u r1 y1 where l: "drain_wire_loop s (r, dropped, io) = (u, r1, y1)" by (rule prod_cases3)
  then have t: "t = u" "rec' = Some r1" using assms(1) Some by (auto simp: gs_drain_wire_def split: prod.splits)
  have "s_events t' = s_events s'" if "drain_wire_loop s' x = (t', x')" for s' x t' x'
    using that
  proof (induction s' x arbitrary: rule: drain_wire_loop.induct)
    case (1 s' x)
    obtain ds u where p: "gsp_server_poll_wire s' 16 = (ds, u)" by (rule prod.exhaust)
    then have "s_events u = s_events s'" by (auto simp: gsp_server_poll_wire_def split: if_splits prod.splits)
    then show ?case using 1 p by (cases "ds = []") (auto simp: drain_wire_loop.simps [of s'])
  qed
  from this [OF l] have "s_events t = s_events s" using t by simp
  with drain_loop_ok [OF l assms(2)] show ?thesis using that t Some by (metis option.distinct(1) option.simps(9))
qed

section \<open>The loop\<close>

text \<open>What is true between two turns, for a recorder \<open>r0\<close> as it was opened.\<close>

definition books :: "gsp_recorder option \<Rightarrow> gs_listen \<Rightarrow> bool" where
  "books r0 l \<longleftrightarrow> (\<exists>evs cs bs. served (li_net l) evs cs \<and> li_shots l = shots_in evs \<and>
     li_rec l = map_option (\<lambda>r. record_all r bs) r0 \<and> (r0 \<noteq> None \<longrightarrow> cs = concat bs))"

lemma booksI:
  "served (li_net l) evs cs \<Longrightarrow> li_shots l = shots_in evs \<Longrightarrow> li_rec l = map_option (\<lambda>r. record_all r bs) r0 \<Longrightarrow>
   r0 \<noteq> None \<longrightarrow> cs = concat bs \<Longrightarrow> books r0 l"
  by (auto simp: books_def)

lemma record_all_append: "record_all (record_all r a) b = record_all r (a @ b)"
  by (simp add: record_all_def)

lemma drained_books:
  assumes "li_rec l = map_option (\<lambda>r. record_all r bs) r0" "r0 \<noteq> None \<longrightarrow> cs = concat bs"
    "rec' = map_option (\<lambda>r. record_all r ds) (li_rec l)"
  shows "rec' = map_option (\<lambda>r. record_all r (bs @ ds)) r0" "r0 \<noteq> None \<longrightarrow> cs @ concat ds = concat (bs @ ds)"
  using assms by (simp_all add: option.map_comp comp_def record_all_append)

lemma turn_books:
  assumes "books r0 l"
  shows "books r0 (listen_turn o1 l)"
proof -
  obtain evs cs bs where b: "served (li_net l) evs cs" "li_shots l = shots_in evs"
    "li_rec l = map_option (\<lambda>r. record_all r bs) r0" "r0 \<noteq> None \<longrightarrow> cs = concat bs"
    using assms by (auto simp: books_def)
  obtain q shots io where h: "gs_handle_events o1 (With_net (li_net l)) (li_shots l, li_io l) = (q, shots, io)"
    by (rule prod_cases3)
  from b(1) have "reachable (peer_server (With_net (li_net l))) evs cs" by simp
  from handle_events_ok [OF h this] obtain es where e: "reachable (peer_server q) (evs @ es) cs"
    "shots = li_shots l + shots_in es" "has_net q" by auto
  obtain t rec fs io' where d: "gs_drain_wire (peer_server q) (li_rec l, li_failures l, io) = (t, rec, fs, io')"
    by (rule prod_cases4)
  from drain_wire_ok [OF d e(1)] obtain ds where w: "reachable t (evs @ es) (cs @ concat ds)"
    "rec = map_option (\<lambda>r. record_all r ds) (li_rec l)" by metis
  obtain n where "q = With_net n" using e(3) by (cases q) simp_all
  then have "listen_turn o1 l =
      \<lparr>li_net = n\<lparr>n_server := t\<rparr>, li_rec = rec, li_shots = shots, li_failures = fs, li_io = io'\<rparr>"
    using h d by (simp add: listen_turn_def)
  then show ?thesis
    using booksI [of _ "evs @ es" "cs @ concat ds" "bs @ ds" r0] w(1) e(2) b(2) drained_books [OF b(3,4) w(2)]
    by (simp add: shots_in_append)
qed

lemma loop_books: "books r0 l \<Longrightarrow> books r0 (listen_loop o1 running l)"
proof (induction o1 running l rule: listen_loop.induct)
  case (2 o1 running rest l)
  obtain st n where p: "gsp_net_poll (li_net l) 250 = (st, n)" by (rule prod.exhaust)
  have "books r0 (l\<lparr>li_net := n\<rparr>)" using 2(2) served_poll [of "li_net l" _ _ 250] p by (fastforce simp: books_def)
  then have t: "books r0 (listen_turn o1 (l\<lparr>li_net := n\<rparr>))" by (rule turn_books)
  show ?case
    using 2(1) [OF _ p [symmetric] refl _ refl _ t] \<open>books r0 (l\<lparr>li_net := n\<rparr>)\<close> t 2(2) p
    by (simp add: Let_def)
qed simp

section \<open>The end\<close>

lemma end_books:
  assumes "books r0 l" "listen_end o1 l = (io, e)"
  obtains evs cs bs where "reachable (ge_server e) evs cs" "ge_shots e = shots_in evs"
    "ge_file e = map_option (\<lambda>r. snd (gsp_recorder_close (record_all r bs))) r0" "r0 \<noteq> None \<Longrightarrow> cs = concat bs"
    "ring_items (s_events (ge_server e)) = []" "r0 \<noteq> None \<Longrightarrow> ring_items (s_wire (ge_server e)) = []"
proof -
  obtain evs cs bs where b: "served (li_net l) evs cs" "li_shots l = shots_in evs"
    "li_rec l = map_option (\<lambda>r. record_all r bs) r0" "r0 \<noteq> None \<longrightarrow> cs = concat bs"
    using assms(1) by (auto simp: books_def)
  obtain s os where c: "gsp_net_close (li_net l) = (s, os)" by (rule prod.exhaust)
  have "reachable (peer_server (Without_net (gsp_server_close s))) evs cs"
    using reachable_calls(8) [OF served_close [OF b(1)]] c by simp
  moreover obtain q shots io1 where h: "gs_handle_events o1 (Without_net (gsp_server_close s)) (li_shots l, li_io l) = (q, shots, io1)"
    by (rule prod_cases3)
  ultimately obtain es where e: "reachable (peer_server q) (evs @ es) cs" "shots = li_shots l + shots_in es"
    "ring_items (s_events (peer_server q)) = []" using handle_events_ok by (metis fst_conv)
  obtain t rec fs io' where d: "gs_drain_wire (peer_server q) (li_rec l, li_failures l, io1) = (t, rec, fs, io')"
    by (rule prod_cases4)
  from drain_wire_ok [OF d e(1)] obtain ds where w: "reachable t (evs @ es) (cs @ concat ds)"
    "rec = map_option (\<lambda>r. record_all r ds) (li_rec l)" "li_rec l \<noteq> None \<Longrightarrow> ring_items (s_wire t) = []"
    "s_events t = s_events (peer_server q)" by metis
  have e': "ge_server e = t" "ge_shots e = shots" "ge_file e = map_option (\<lambda>r. snd (gsp_recorder_close r)) rec"
    using assms(2) c h d by (auto simp: listen_end_def Let_def)
  note r = drained_books [OF b(3,4) w(2)]
  show ?thesis
  proof (rule that [of "evs @ es" "cs @ concat ds" "bs @ ds"])
    show "ge_file e = map_option (\<lambda>r. snd (gsp_recorder_close (record_all r (bs @ ds)))) r0"
      using e'(3) r(1) by (simp add: option.map_comp comp_def)
  qed (use w e e' r b in \<open>simp_all add: shots_in_append\<close>)
qed

lemma taken_small: "list_all small (concat bs) \<Longrightarrow> taken_chunks bs = concat bs"
  by (auto simp: taken_chunks_def accepted_def list_ex_iff list_all_iff not_less intro!: arg_cong [where f = concat] filter_True)

lemma session_books:
  assumes "served net evs cs" "listen_session o1 (listen_player player have_player (net, io)) = (m, io')"
  shows "served m evs cs" "gsp_net_port m = gsp_net_port net"
proof -
  obtain n1 io1 where p: "listen_player player have_player (net, io) = (n1, io1)" by (rule prod.exhaust)
  have n1: "served n1 evs cs"
    using assms(1) p reachable_calls(5) [of _ evs cs] by (auto simp: listen_player_def case_prod_beta split: if_splits)
  then show "served m evs cs"
    using assms(2) p reachable_calls(6) [of _ evs cs] by (auto simp: listen_session_def case_prod_beta split: if_splits)
  have "gsp_net_port (snd (gsp_net_now_us n)) = gsp_net_port n" for n
    by (simp add: gsp_net_now_us_def gsp_net_port_def case_prod_beta)
  then show "gsp_net_port m = gsp_net_port net"
    using assms(2) p by (auto simp: listen_player_def listen_session_def case_prod_beta gsp_net_port_def split: if_splits)
qed

text \<open>What the recorder of a run is.\<close>

definition recorded_to :: "gs_listen_env \<Rightarrow> gs_options \<Rightarrow> gsp_net \<Rightarrow> gsp_recorder option \<Rightarrow> bool" where
  "recorded_to env o1 net r0 \<longleftrightarrow>
     (case go_record_path o1 of
        None \<Rightarrow> r0 = None
      | Some p \<Rightarrow> \<exists>r f. r0 = Some r \<and> le_write env p = Some f \<and>
          gsp_recorder_open True (le_write env) (Some p) (Some (listen_info o1 net)) = Inr r)"

lemma open_recorder:
  assumes "open_capture env o1 net = Inr r0"
  shows "recorded_to env o1 net r0"
proof (cases "go_record_path o1")
  case (Some p)
  with assms obtain r where r: "gsp_recorder_open (le_rec_alloc env) (le_write env) (Some p) (Some (listen_info o1 net)) = Inr r"
    "r0 = Some r" by (auto simp: open_capture_def split: sum.splits)
  then have "le_rec_alloc env" "\<exists>f. le_write env p = Some f"
    by (auto simp: gsp_recorder_open_def split: if_splits option.splits)
  then show ?thesis using r Some by (auto simp: recorded_to_def)
qed (use assms in \<open>simp add: recorded_to_def open_capture_def\<close>)

lemma session_run_books:
  assumes "served net [] []" "listen_session_run env o1 player have_player net r0 io = (io', e)"
  obtains l where "books r0 l" "listen_end o1 l = (io', e)"
proof -
  obtain m io3 where m: "listen_session o1 (listen_player player have_player (net, printf (listen_banner o1 net) io)) = (m, io3)"
    by (rule prod.exhaust)
  have "books r0 \<lparr>li_net = m, li_rec = r0, li_shots = 0, li_failures = 0, li_io = io3\<rparr>"
    using booksI [of _ "[]" "[]" "[]" r0] session_books(1) [OF assms(1) m]
    by (simp add: shots_in_def record_all_def option.map_ident)
  from that [OF loop_books [OF this]] show ?thesis using assms(2) by (simp add: listen_session_run_def m)
qed

lemma run_parts:
  assumes "gs_run env o1 os io = (0, io', Some e)"
  obtains r0 net l io1 where "served net [] []" "recorded_to env o1 net r0" "books r0 l" "listen_end o1 l = (io1, e)"
proof -
  obtain ok player have_player io1 where p: "gs_build_player o1 io = (ok, player, have_player, io1)" by (rule prod_cases4)
  have ok: ok using assms unfolding gs_run_def p prod.case by (cases ok) simp_all
  obtain server where s: "gsp_server_create (Some (listen_config o1)) (le_server_alloc env) = Inr server"
    using assms unfolding gs_run_def p prod.case
    by (cases "gsp_server_create (Some (listen_config o1)) (le_server_alloc env)") (simp_all add: ok)
  obtain st no err os1 where n: "gsp_net_open (Some server) (Some (listen_net_config o1)) (le_resolved env) (le_refused env)
      (le_nonblocking env) (Some GSP_NET_ERROR_MAX) os = (st, no, err, os1)" by (rule prod_cases4)
  note run = assms [unfolded gs_run_def p prod.case s sum.case n, simplified ok]
  obtain net where net: "no = Some net" using run by (cases no) simp_all
  obtain r0 where r0: "open_capture env o1 net = Inr r0" using run net by (cases "open_capture env o1 net") simp_all
  obtain io2 e' where e: "listen_session_run env o1 player have_player net r0 io1 = (io2, e')" by (rule prod.exhaust)
  have e': "e' = e" using run net r0 e by simp
  have "le_server_alloc env" using s by (simp add: gsp_server_create_def Let_def split: if_splits)
  then have "reachable server [] []" using s created by simp
  moreover have "n_server net = server"
    using open_result [where server = "Some server" and config = "Some (listen_net_config o1)" and rs = "le_resolved env" and
        refused = "le_refused env" and nonblocking = "le_nonblocking env" and error_size = "Some GSP_NET_ERROR_MAX" and os = os]
    unfolding n net by simp
  ultimately have srv: "served net [] []" by simp
  obtain l where "books r0 l" "listen_end o1 l = (io2, e')" using session_run_books [OF srv e] .
  with that srv open_recorder [OF r0] e' show ?thesis by blast
qed

lemma ring_items_Nil: "ring_items r = [] \<longleftrightarrow> rg_count r = 0"
  by (simp add: ring_items_def)

lemma reachable_sequences:
  assumes "reachable s evs cs"
  shows "ring_items (s_events s) = [] \<Longrightarrow> s_event_sequence s = of_nat (length evs) + gsp_server_dropped_events s"
    "ring_items (s_wire s) = [] \<Longrightarrow> s_wire_sequence s = of_nat (length cs) + gsp_server_dropped_wire s"
  using reachable_account [OF assms]
  by (auto simp: ring_items_Nil account_def gsp_server_dropped_events_def gsp_server_dropped_wire_def algebra_simps)


section \<open>A run\<close>

definition demo_options :: gs_options where
  "demo_options = default_options\<lparr>go_record_path := Some ''a'', go_session_active := True\<rparr>"

definition demo_listen_env :: gs_listen_env where
  "demo_listen_env = \<lparr>le_server_alloc = True, le_resolved = demo_resolved, le_refused = None, le_nonblocking = None,
     le_rec_alloc = True, le_write = (\<lambda>_. Some demo_disk), le_running = [True, True, False]\<rparr>"

lemma demo_listen_run: "\<exists>io' e. gs_run demo_listen_env demo_options demo_os \<lparr>so_out = [], so_err = []\<rparr> = (0, io', Some e)"
proof -
  let ?io = "\<lparr>so_out = [], so_err = []\<rparr>"
  have p: "gs_build_player demo_options ?io = (True, zero_player, False, ?io)" by code_simp
  have "\<not> isl (gsp_server_create (Some (listen_config demo_options)) (le_server_alloc demo_listen_env))" by code_simp
  then obtain s where s: "gsp_server_create (Some (listen_config demo_options)) (le_server_alloc demo_listen_env) = Inr s"
    by (metis isl_def sum.exhaust)
  obtain st net err os where n: "gsp_net_open (Some s) (Some (listen_net_config demo_options)) (le_resolved demo_listen_env)
      (le_refused demo_listen_env) (le_nonblocking demo_listen_env) (Some 192) demo_os = (st, Some net, err, os)"
    by (simp add: gsp_net_open_def listen_net_config_def demo_options_def demo_listen_env_def default_options_def
        gsp_net_config_default_def gs_net_bind_def demo_resolved_def Let_def)
  have "\<not> isl (gsp_recorder_open True (\<lambda>_. Some demo_disk) (Some ''a'') (Some (listen_info demo_options net)))"
    by (simp add: gsp_recorder_open_def Let_def)
  then obtain r0 where "gsp_recorder_open True (\<lambda>_. Some demo_disk) (Some ''a'') (Some (listen_info demo_options net)) = Inr r0"
    by (metis isl_def sum.exhaust)
  moreover have "go_record_path demo_options = Some ''a''" "le_rec_alloc demo_listen_env"
    "le_write demo_listen_env = (\<lambda>_. Some demo_disk)" by (simp_all add: demo_options_def demo_listen_env_def)
  ultimately obtain r where r: "open_capture demo_listen_env demo_options net = Inr r" by (simp add: open_capture_def)
  obtain io' e where "listen_session_run demo_listen_env demo_options zero_player False net r ?io = (io', e)" by (rule prod.exhaust)
  then show ?thesis by (simp add: gs_run_def p s n r)
qed


end
