(* ===== verification/Abi.thy ===== *)
theory Abi
  imports Gswire
begin

text \<open>
  The ABI guard: \<^verbatim>\<open>gsp_abi_sizes_get\<close> and \<^verbatim>\<open>gsp_abi_check\<close> of \<^verbatim>\<open>gs_misc.c\<close>,
  and the program \<^verbatim>\<open>tools/gs_abi_table.c\<close>, which checks that the rows it lists tile each
  struct and prints them. The sizes, offsets and alignments are the C compiler's: \<open>gs_layout\<close> and
  the tables of \<^verbatim>\<open>gs_abi_table.c\<close> are arguments. Sizes are natural numbers; the sum of an
  offset and a size inside one object does not wrap.
\<close>

section \<open>The guard\<close>

text \<open>What \<^verbatim>\<open>sizeof\<close> says of the ten structs.\<close>

record gs_layout =
  ly_message :: u32
  ly_ball_data :: u32
  ly_club_data :: u32
  ly_shot_options :: u32
  ly_player_info :: u32
  ly_event :: u32
  ly_write_request :: u32
  ly_wire_chunk :: u32
  ly_connection_info :: u32
  ly_server_config :: u32

record gsp_abi_sizes =
  as_abi_version :: u32
  as_message :: u32
  as_ball_data :: u32
  as_club_data :: u32
  as_shot_options :: u32
  as_player_info :: u32
  as_event :: u32
  as_write_request :: u32
  as_wire_chunk :: u32
  as_connection_info :: u32
  as_server_config :: u32
  as_message_layout_version :: u32

definition gsp_abi_version :: u32 where
  "gsp_abi_version = 1"

definition GSP_MESSAGE_LAYOUT_VERSION :: u32 where
  "GSP_MESSAGE_LAYOUT_VERSION = 1"

definition gsp_abi_sizes_get :: "gs_layout \<Rightarrow> gsp_abi_sizes" where
  "gsp_abi_sizes_get ly =
     \<lparr>as_abi_version = gsp_abi_version, as_message = ly_message ly, as_ball_data = ly_ball_data ly,
      as_club_data = ly_club_data ly, as_shot_options = ly_shot_options ly, as_player_info = ly_player_info ly,
      as_event = ly_event ly, as_write_request = ly_write_request ly, as_wire_chunk = ly_wire_chunk ly,
      as_connection_info = ly_connection_info ly, as_server_config = ly_server_config ly,
      as_message_layout_version = GSP_MESSAGE_LAYOUT_VERSION\<rparr>"

text \<open>The struct has twelve \<^verbatim>\<open>uint32_t\<close> members and no padding, so \<^verbatim>\<open>memcmp\<close> compares the members.\<close>

definition gsp_abi_check :: "gs_layout \<Rightarrow> gsp_abi_sizes option \<Rightarrow> gsp_status" where
  "gsp_abi_check ly expected =
     (case expected of
        None \<Rightarrow> GSP_ERR_INVALID_ARG
      | Some e \<Rightarrow> if gsp_abi_sizes_get ly = e then GSP_OK else GSP_ERR_NOT_SUPPORTED)"

section \<open>The table\<close>

record abi_field =
  af_name :: bytes
  af_offset :: nat
  af_size :: nat

record abi_struct =
  at_name :: bytes
  at_size :: nat
  at_align :: nat
  at_fields :: "abi_field list"

type_synonym abi_enumerator = "bytes \<times> int"
type_synonym abi_enum = "bytes \<times> abi_enumerator list"

abbreviation fmt_zu :: "nat \<Rightarrow> bytes" where
  "fmt_zu n \<equiv> fmt_int (int n)"

text \<open>One turn of the loop over the fields: \<open>end\<close>, the problems and the stream.\<close>

definition selfcheck_field :: "abi_struct \<Rightarrow> abi_field \<Rightarrow> nat \<times> nat \<times> bytes \<Rightarrow> nat \<times> nat \<times> bytes" where
  "selfcheck_field s f = (\<lambda>(e, problems, err).
     (let here = af_offset f + af_size f in
      if af_offset f < e then
        (here, problems + 1, err @ ''abi: '' @ at_name s @ ''.'' @ af_name f @
           '' overlaps the field before it (offset '' @ fmt_zu (af_offset f) @ '' < '' @ fmt_zu e @ '')'' @ [LF])
      else if at_align s \<le> af_offset f - e then
        (here, problems + 1, err @ ''abi: '' @ at_name s @ '' has an unexplained '' @ fmt_zu (af_offset f - e) @
           ''-byte hole before .'' @ af_name f @ '' '' @ EM_DASH @ '' a field is MISSING from tools/gs_abi_table.c'' @ [LF])
      else (here, problems, err)))"

definition selfcheck_one :: "abi_struct \<Rightarrow> nat \<times> bytes" where
  "selfcheck_one s =
     (if at_fields s = [] then (1, ''abi: '' @ at_name s @ '' has no fields listed'' @ [LF])
      else
        (case fold (selfcheck_field s) (at_fields s) (0, 0, []) of (e, problems, err) \<Rightarrow>
           if at_size s < e then
             (problems + 1, err @ ''abi: '' @ at_name s @ '' runs '' @ fmt_zu (e - at_size s) @
                '' bytes past sizeof ('' @ fmt_zu (at_size s) @ '')'' @ [LF])
           else if at_align s \<le> at_size s - e then
             (problems + 1, err @ ''abi: '' @ at_name s @ '' has '' @ fmt_zu (at_size s - e) @
                '' bytes of unexplained tail past .'' @ af_name (last (at_fields s)) @ '' '' @ EM_DASH @
                '' a field is MISSING from tools/gs_abi_table.c'' @ [LF])
           else (problems, err)))"

text \<open>Rows with a comma after each but the last.\<close>

fun comma_rows :: "('a \<Rightarrow> bytes) \<Rightarrow> 'a list \<Rightarrow> bytes" where
  "comma_rows row [] = []"
| "comma_rows row (x # xs) = row x @ (if xs = [] then [] else '','') @ [LF] @ comma_rows row xs"

abbreviation quoted :: "bytes \<Rightarrow> bytes" where
  "quoted s \<equiv> [QUOTE] @ s @ [QUOTE]"

definition field_row :: "abi_field \<Rightarrow> bytes" where
  "field_row f = ''        {'' @ quoted ''name'' @ '': '' @ quoted (af_name f) @ '', '' @ quoted ''offset'' @ '': '' @
     fmt_zu (af_offset f) @ '', '' @ quoted ''size'' @ '': '' @ fmt_zu (af_size f) @ ''}''"

definition struct_row :: "abi_struct \<Rightarrow> bytes" where
  "struct_row s = ''    '' @ quoted (at_name s) @ '': {'' @ [LF] @
     ''      '' @ quoted ''size'' @ '': '' @ fmt_zu (at_size s) @ '','' @ [LF] @
     ''      '' @ quoted ''align'' @ '': '' @ fmt_zu (at_align s) @ '','' @ [LF] @
     ''      '' @ quoted ''fields'' @ '': ['' @ [LF] @ comma_rows field_row (at_fields s) @
     ''      ]'' @ [LF] @ ''    }''"

definition enum_row :: "abi_enum \<Rightarrow> bytes" where
  "enum_row = (\<lambda>(name, vals). ''    '' @ quoted name @ '': {'' @ [LF] @
     comma_rows (\<lambda>(n, v). ''      '' @ quoted n @ '': '' @ fmt_int v) vals @ ''    }'')"

definition abi_main ::
  "gs_layout \<Rightarrow> abi_struct list \<Rightarrow> abi_enum list \<Rightarrow> abi_enumerator list \<Rightarrow> stdio \<Rightarrow> int \<times> stdio" where
  "abi_main ly k_structs k_enums k_constants io =
     (let sizes = gsp_abi_sizes_get ly;
          problems = sum_list (map (fst \<circ> selfcheck_one) k_structs);
          io = eprintf (concat (map (snd \<circ> selfcheck_one) k_structs)) io;
          io = printf (''{'' @ [LF] @
            ''  '' @ quoted ''abi_version'' @ '': '' @ fmt_u (as_abi_version sizes) @ '','' @ [LF] @
            ''  '' @ quoted ''message_layout_version'' @ '': '' @ fmt_u (as_message_layout_version sizes) @ '','' @ [LF] @
            ''  '' @ quoted ''library_version'' @ '': '' @ quoted gsp_version_string @ '','' @ [LF] @
            ''  '' @ quoted ''structs'' @ '': {'' @ [LF] @ comma_rows struct_row k_structs @ ''  },'' @ [LF] @
            ''  '' @ quoted ''enums'' @ '': {'' @ [LF] @ comma_rows enum_row k_enums @ ''  },'' @ [LF] @
            ''  '' @ quoted ''constants'' @ '': {'' @ [LF] @
            comma_rows (\<lambda>(n, v). ''    '' @ quoted n @ '': '' @ fmt_int v) k_constants @ ''  }'' @ [LF] @ ''}'' @ [LF]) io
      in if 0 < problems
         then (1, eprintf ([LF] @ ''abi: '' @ fmt_zu problems @
                '' self-check problem(s).  The table is out of step with the headers; NOTHING it printed should be trusted.'' @
                [LF]) io)
         else (0, io))"

section \<open>The self-check\<close>

text \<open>The rows from \<open>e\<close> on tile what is left of a struct, with gaps smaller than its alignment.\<close>

fun tiles :: "nat \<Rightarrow> nat \<Rightarrow> nat \<Rightarrow> abi_field list \<Rightarrow> bool" where
  "tiles a sz e [] \<longleftrightarrow> e \<le> sz \<and> sz - e < a"
| "tiles a sz e (f # fs) \<longleftrightarrow>
     e \<le> af_offset f \<and> af_offset f - e < a \<and> tiles a sz (af_offset f + af_size f) fs"

lemma selfcheck_fold:
  "fold (selfcheck_field s) fs (e, p, err) = (e', p', err') \<Longrightarrow>
   p \<le> p' \<and> e' = (if fs = [] then e else af_offset (last fs) + af_size (last fs)) \<and>
   (p' = p \<and> e' \<le> at_size s \<and> at_size s - e' < at_align s \<longleftrightarrow> tiles (at_align s) (at_size s) e fs)"
proof (induction fs arbitrary: e p err)
  case (Cons f fs)
  obtain e1 p1 err1 where h: "selfcheck_field s f (e, p, err) = (e1, p1, err1)" by (rule prod_cases3)
  have f1: "e1 = af_offset f + af_size f" "p1 = (if af_offset f < e \<or> at_align s \<le> af_offset f - e then p + 1 else p)"
    using h by (auto simp: selfcheck_field_def Let_def split: if_splits)
  have "fold (selfcheck_field s) fs (e1, p1, err1) = (e', p', err')" using Cons(2) h by simp
  note IH = Cons(1) [OF this]
  show ?case
  proof (cases "af_offset f < e \<or> at_align s \<le> af_offset f - e")
    case True
    then show ?thesis using IH f1 by auto
  next
    case False
    then have "e \<le> af_offset f" "af_offset f - e < at_align s" "p1 = p" using f1 by auto
    with IH f1 show ?thesis by (cases "fs = []") auto
  qed
qed auto

lemma selfcheck_iff: "fst (selfcheck_one s) = 0 \<longleftrightarrow> at_fields s \<noteq> [] \<and> tiles (at_align s) (at_size s) 0 (at_fields s)"
proof -
  obtain e p err where f: "fold (selfcheck_field s) (at_fields s) (0, 0, []) = (e, p, err)" by (rule prod_cases3)
  from selfcheck_fold [OF f] show ?thesis by (auto simp: selfcheck_one_def f not_less not_le)
qed

lemma tiles_inside: "tiles a sz e fs \<Longrightarrow> f \<in> set fs \<Longrightarrow> e \<le> af_offset f \<and> af_offset f + af_size f \<le> sz"
proof (induction fs arbitrary: e)
  case (Cons g fs)
  have "af_offset g + af_size g \<le> sz" using Cons(2) by (induction fs arbitrary: e g) fastforce+
  then show ?case using Cons by fastforce
qed simp

lemma tiles_disjoint:
  "tiles a sz e fs \<Longrightarrow> i < j \<Longrightarrow> j < length fs \<Longrightarrow> af_offset (fs ! i) + af_size (fs ! i) \<le> af_offset (fs ! j)"
proof (induction fs arbitrary: e i j)
  case (Cons g fs)
  show ?case
  proof (cases i)
    case 0
    then have "fs ! (j - 1) \<in> set fs" using Cons(3,4) by auto
    then show ?thesis using Cons(2,3) 0 tiles_inside [of a sz _ fs] by (cases j) auto
  next
    case (Suc k)
    then show ?thesis using Cons by (cases j) auto
  qed
qed simp

text \<open>Any run of \<open>align\<close> bytes of the struct meets a field.\<close>

lemma tiles_dense:
  "tiles a sz e fs \<Longrightarrow> e \<le> x \<Longrightarrow> x + a \<le> sz \<Longrightarrow> 0 < a \<Longrightarrow>
   \<exists>f \<in> set fs. af_offset f < x + a \<and> x \<le> af_offset f + af_size f"
proof (induction fs arbitrary: e)
  case (Cons g fs)
  show ?case
  proof (cases "x \<le> af_offset g + af_size g")
    case True
    show ?thesis
    proof (cases "af_offset g < x + a")
      case False
      then have "x + a \<le> af_offset g" by simp
      moreover have "af_offset g < e + a" using Cons(2) by auto
      ultimately show ?thesis using Cons(3) by simp
    qed (use True in auto)
  next
    case False
    then show ?thesis using Cons(1) [of "af_offset g + af_size g"] Cons(2,4,5) by auto
  qed
qed simp

text \<open>
  What a clean run of the self-check says of a struct: its rows are inside it, in order and
  disjoint, no \<open>align\<close> bytes in a row are left without one, and conversely rows that tile it pass.
\<close>

theorem selfcheck_tiles:
  assumes "fst (selfcheck_one s) = 0" "0 < at_align s"
  shows "list_all (\<lambda>f. af_offset f + af_size f \<le> at_size s) (at_fields s) \<and>
    (\<forall>i j. i < j \<longrightarrow> j < length (at_fields s) \<longrightarrow>
       af_offset (at_fields s ! i) + af_size (at_fields s ! i) \<le> af_offset (at_fields s ! j)) \<and>
    (\<forall>x. x + at_align s \<le> at_size s \<longrightarrow>
       list_ex (\<lambda>f. af_offset f < x + at_align s \<and> x \<le> af_offset f + af_size f) (at_fields s))"
proof -
  have t: "tiles (at_align s) (at_size s) 0 (at_fields s)" using assms(1) by (simp add: selfcheck_iff)
  show ?thesis
    using tiles_inside [OF t] tiles_disjoint [OF t] tiles_dense [OF t] assms(2) by (auto simp: list_all_iff list_ex_iff)
qed

end
