(* ===== verification/Spec2Isabelle.thy ===== *)
theory Spec2Isabelle
  imports Framer Json Protocol Message Decode Encode Event RingBuffer WireLog ReplayEnds NetPoll Gswire Listen Abi
begin

text \<open>
  A verification library for libgspro, a C library that plays the server side of the GSPro Open
  Connect protocol: launch monitors connect over TCP and send JSON objects, one per shot, status
  or heartbeat, with no delimiter between them; the server answers each with a numbered reply
  and tells the clients about the player and the round.

  \<^bold>\<open>The program and the theories.\<close> File names are those under \<^verbatim>\<open>src/\<close> of the
  repository. The definitions carry the C names and stand in the order of the code.

  \<^item> \<open>Prelude\<close>, \<open>CDouble\<close>: bytes, C strings in bounded arrays, the status codes of
    \<^verbatim>\<open>types.h\<close>, the ASCII helpers; IEEE doubles as exact binary fractions with correctly
    rounded \<^verbatim>\<open>strtod\<close> and \<^verbatim>\<open>%.<p>g\<close>.
  \<^item> \<open>Framer\<close> (\<^verbatim>\<open>gs_frame.h\<close>, \<^verbatim>\<open>gs_frame.c\<close>): the byte-at-a-time state
    machine that finds where an object ends. Specified by an inductive grammar of string-aware
    balanced text; \<^verbatim>\<open>gsp_frame_find\<close> is shown to find exactly the first object of it.
  \<^item> \<open>Json\<close>, \<open>Decode\<close> (\<^verbatim>\<open>gs_json.h\<close>, \<^verbatim>\<open>gs_decode.c\<close>): the tolerant reader
    over a cursor and the decoders of messages and responses with their key tables. Shown: every
    decoded string fits its array, a decoded message is well formed, its flags say exactly what
    it lacked. The locale \<open>section_table\<close> states what the two numeric sections share and is
    interpreted on both key tables.
  \<^item> \<open>Protocol\<close>, \<open>Message\<close>, \<open>Event\<close> (\<^verbatim>\<open>gs_misc.c\<close>, \<^verbatim>\<open>protocol.h\<close>,
    \<^verbatim>\<open>message.h\<close>, \<^verbatim>\<open>event.h\<close>): the vocabulary tables and parsers, the message
    structs, which ball data can be derived, the events and their one-line form. The
    transcendental functions of \<^verbatim>\<open>math.h\<close> are a parameter (\<open>libm\<close>).
  \<^item> \<open>Encode\<close> (\<^verbatim>\<open>gs_encode.c\<close>): the counting writers, equal to a reference text on
    every call; every reply they write frames as one object.
  \<^item> \<open>RingBuffer\<close>: the circular array all three rings of the server use. The locale
    \<open>bounded_queue\<close> is the contract of a drop-oldest queue and \<open>ring_queue\<close> its
    interpretation on the array.
  \<^item> \<open>WireLog\<close> (\<^verbatim>\<open>gs_server.c\<close>, the redactor): DeviceID values blanked in the wire
    log, chunk by chunk.
  \<^item> \<open>ServerCore\<close>, \<open>Server\<close> (\<^verbatim>\<open>gs_server.c\<close>, \<^verbatim>\<open>server.h\<close>): the sans-I/O
    server whole. \<open>gsp_server\<close> is the struct, a connection is named by its index in the
    table, every entry point is a function from the server and its arguments (time included) to
    the answer and the new server.
  \<^item> \<open>Recorder\<close>, \<open>Replay\<close> (\<^verbatim>\<open>gs_record.c\<close>): the capture container over a model of C
    streams (a device that takes some number of bytes, an error indicator, a flush that may
    fail), its reader, and the replay of a capture into a server with its report.
  \<^item> \<open>NetSys\<close>, \<open>Net\<close> (\<^verbatim>\<open>gs_net_sys.h\<close>, \<^verbatim>\<open>gs_net.c\<close>, \<^verbatim>\<open>net.h\<close>): the
    reference socket transport over an operating system that is a script of answers.
  \<^item> \<open>Gswire\<close> (\<^verbatim>\<open>tools/gswire.c\<close>): the capture tool, over its two output streams.
  \<^item> \<open>Gsplisten\<close> (\<^verbatim>\<open>tools/gsplisten.c\<close>): the listener, the program that puts server,
    transport, event log and recorder together.
  \<^item> \<open>Abi\<close> (\<^verbatim>\<open>version.h\<close>, \<^verbatim>\<open>gs_misc.c\<close>, \<^verbatim>\<open>tools/gs_abi_table.c\<close>): the size
    check and the table's self-check, with the compiler's sizes and tables as arguments.

  \<^bold>\<open>How the parts interact.\<close> The transport (or any host) reads bytes from sockets and calls
  \<^verbatim>\<open>gsp_server_on_bytes\<close>; the server frames, decodes and delivers each object, puts
  events into its event ring, replies into its write ring and both directions into its wire
  ring; the host polls the three rings. The transport keeps a queue of writes per socket and
  drains it as the kernel allows. The recorder stores polled wire chunks, and the replay drives
  a stored session through a server again.

  \<^bold>\<open>The lemma groups.\<close>

  \<^item> \<open>ServerSteps\<close>: the locales \<open>server_base\<close>, \<open>server_steps\<close>, \<open>server_host\<close>,
    \<open>server_out\<close>, \<open>server_feed\<close>, \<open>server_opens\<close> and \<open>server_calls\<close> are the
    interface of a property of the server's calls: a reflexive and transitive relation between
    states that the elementary updates respect is respected by every entry point. Each invariant
    below is one interpretation, so no induction over the framing loop is repeated: \<open>logs\<close>
    (\<open>ServerLog\<close>, the two logs number consecutively and account for every item), \<open>writes\<close>
    (\<open>ServerWrites\<close>, queued writes are complete replies to open connections), \<open>fixed\<close> and
    \<open>rxs\<close> (\<open>ServerRx\<close>, capacities never change and output calls leave the receive
    buffers alone), \<open>owned\<close> (\<open>ServerChunk\<close>), \<open>seated\<close>, \<open>seated_out\<close> and
    \<open>appends\<close> (\<open>ServerLinks\<close>, what a transport relies on).
  \<^item> \<open>ServerRun\<close>, \<open>ServerReply\<close>, \<open>ServerPoll\<close>, \<open>ServerChunk\<close>: the states a host
    can reach and their invariant, one reply per object, order and spacing of replies, the idle
    alarm and the next deadline, closing, and that the way a stream is cut into reads does not
    matter.
  \<^item> \<open>Capture\<close>, \<open>ReplayReport\<close>, \<open>ReplayEnds\<close>: captures read back as written, also when
    cut short or when the device fills up; the report of a replay balances; when a replay returns
    and when it does not.
  \<^item> \<open>NetRun\<close>, \<open>NetPoll\<close>: the transport's table and the server's agree in every reachable
    state; a pass refines, for every client, a channel that posts replies at one end and sends
    prefixes of what was posted at the other; what is drained, how long it waits, what opening
    and closing leave behind.
  \<^item> \<open>NetCalls\<close>, \<open>ServerWire\<close>, \<open>Listen\<close>: the transport does nothing to the server but
    call it, wire chunks fit their array (the interpretation \<open>fitted\<close>), and so a run of the
    listener accounts for every event and every chunk through all layers. In \<open>Gswire\<close>: what
    is shown of a payload is printable and unambiguous, and \<^verbatim>\<open>extract\<close> gives back what was
    recorded.

  \<^bold>\<open>Integers, loops and fuel.\<close> Counters, flags, ids and sequence numbers are words of the
  source's width and wrap; sizes and indices into arrays, which the code bounds, are natural
  numbers; times are integers. Loops over buffers and rings are functions with termination
  proofs (by the bytes or items left), so that no result depends on fuel. The one loop that may
  not end, the replay's feeding loop, is a partial function whose value is \<open>None\<close> when it does
  not, and both its termination and its divergence are theorems. The operating system's scripts
  are finite lists; a call past their end would block, and statements hold for all scripts, so
  they cover runs of any finite length.

  \<^bold>\<open>Not modelled.\<close> The sizes, offsets and alignments a C compiler gives to structs, and so
  the rows of \<^verbatim>\<open>gs_abi_table.c\<close>: records have no layout. The Winsock branches of
  \<^verbatim>\<open>gs_net_sys.h\<close> mirror the POSIX ones. Allocation is an argument that says whether it
  succeeds; freeing has no effect. Null pointers are \<open>None\<close> where a caller may pass one and the
  code answers. Signals are the values the listener's flag has at each test. The Python binding,
  the tests and the examples are left out.
\<close>

end
